(* ===== verification/Slim_Prelude.thy ===== *)
theory Slim_Prelude
  imports Main "HOL-Library.Word" "HOL-Library.Monad_Syntax"
begin

text \<open>
  Shared vocabulary of the development.

  \<^item> Machine integers: \<open>u8\<close>, \<open>u32\<close> and \<open>u64\<close> are words; \<open>usize\<close> is
    \<^typ>\<open>nat\<close>, with the wrap-around of a 64-bit target written out where the code can reach it.
  \<^item> A panic (\<open>unwrap\<close> of nothing, an index out of range, \<open>panic!\<close>) is \<open>None\<close> of the
    option monad; a returned \<open>Result\<close> is a sum with the error on the left.
  \<^item> \<open>HashMap\<close> and \<open>HashSet\<close> are lists of entries without two equal keys. The list
    order stands for the iteration order, which the Rust library leaves open; statements about
    them speak of the entries they hold, never of that order. The key's own \<open>Eq\<close> is a
    parameter, since the names of this program compare by part of their fields only.
  \<^item> Generic lemmas on lists that several components use.
\<close>

section \<open>Machine integers\<close>

type_synonym u8 = "8 word"
type_synonym u32 = "32 word"
type_synonym u64 = "64 word"
type_synonym usize = nat

text \<open>A \<open>Result\<close> that can also panic.\<close>

type_synonym ('e, 'a) rust = "('e + 'a) option"

abbreviation Ok :: "'a \<Rightarrow> ('e, 'a) rust" where
  "Ok x \<equiv> Some (Inr x)"

abbreviation Err :: "'e \<Rightarrow> ('e, 'a) rust" where
  "Err e \<equiv> Some (Inl e)"

abbreviation usize_max :: nat where
  "usize_max \<equiv> 2 ^ 64 - 1"

text \<open>Addition on \<open>usize\<close> as the release build performs it.\<close>

definition usize_add :: "nat \<Rightarrow> nat \<Rightarrow> nat" where
  "usize_add a b = (a + b) mod 2 ^ 64"

lemma usize_add_exact [simp]: "a + b < 2 ^ 64 \<Longrightarrow> usize_add a b = a + b"
  by (simp add: usize_add_def)

lemma usize_add_max [simp]: "usize_add usize_max (Suc 0) = 0"
  by (simp add: usize_add_def)

lemma unat_u32_less [simp]: "unat (x :: u32) < 4294967296"
  using unsigned_less [of x] by simp

lemma unat_u64_less [simp]: "unat (x :: u64) < 18446744073709551616"
  using unsigned_less [of x] by simp

lemma unat_of_nat_u32: "n < 2 ^ 32 \<Longrightarrow> unat (of_nat n :: u32) = n"
  by (simp add: unsigned_of_nat take_bit_nat_eq_self)

lemma of_nat_u32_inject: "m < 2 ^ 32 \<Longrightarrow> n < 2 ^ 32 \<Longrightarrow> (of_nat m :: u32) = of_nat n \<longleftrightarrow> m = n"
  using unat_of_nat_u32 by metis

section \<open>Printing of numbers\<close>

definition digit :: "nat \<Rightarrow> char" where
  "digit d = (if d < 10 then char_of (48 + d) else char_of (87 + d))"

text \<open>The digits of a number in base \<open>b\<close>, as \<open>{}\<close> and \<open>{:x}\<close> print it.\<close>

fun digits :: "nat \<Rightarrow> nat \<Rightarrow> string" where
  "digits b n = (if n < b \<or> b < 2 then [digit n] else digits b (n div b) @ [digit (n mod b)])"

declare digits.simps [simp del]

definition show_hex :: "u64 \<Rightarrow> string" where
  "show_hex w = digits 16 (unat w)"

definition show_dec :: "u64 \<Rightarrow> string" where
  "show_dec w = digits 10 (unat w)"

definition debug_option_u64 :: "u64 option \<Rightarrow> string" where
  "debug_option_u64 i = (case i of None \<Rightarrow> ''None'' | Some w \<Rightarrow> ''Some('' @ show_dec w @ '')'')"

definition digit_value :: "char \<Rightarrow> nat" where
  "digit_value c = (let k = of_char c in if k < 58 then k - 48 else k - 87)"

lemma digit_value_digit: "d < 16 \<Longrightarrow> digit_value (digit d) = d"
  by (auto simp: digit_value_def digit_def Let_def of_char_of)

lemma digit_not_slash: "d < 16 \<Longrightarrow> digit d \<noteq> CHR ''/''"
proof
  assume d: "d < 16" and "digit d = CHR ''/''"
  then have "(of_char (digit d) :: nat) = of_char (CHR ''/'')" by simp
  then show False using d by (auto simp: digit_def of_char_of split: if_splits)
qed

lemma digits_value: "2 \<le> b \<Longrightarrow> b \<le> 16 \<Longrightarrow> foldl (\<lambda>a c. a * b + digit_value c) 0 (digits b n) = n"
proof (induction b n rule: digits.induct)
  case (1 b n)
  show ?case
  proof (cases "n < b")
    case True
    then show ?thesis using 1 by (subst digits.simps) (simp add: digit_value_digit)
  next
    case False
    have "n mod b < 16" using 1(2,3) mod_less_divisor [of b n] by linarith
    then show ?thesis using False 1 by (subst digits.simps) (simp add: digit_value_digit)
  qed
qed

lemma digits_inject: "2 \<le> b \<Longrightarrow> b \<le> 16 \<Longrightarrow> digits b m = digits b n \<longleftrightarrow> m = n"
  using digits_value by metis

lemma show_hex_inject [simp]: "show_hex v = show_hex w \<longleftrightarrow> v = w"
  by (auto simp: show_hex_def digits_inject intro: unsigned_word_eqI)

lemma digits_no_slash: "2 \<le> b \<Longrightarrow> b \<le> 16 \<Longrightarrow> CHR ''/'' \<notin> set (digits b n)"
proof (induction b n rule: digits.induct)
  case (1 b n)
  then have "n mod b < 16" using mod_less_divisor [of b n] by linarith
  then show ?case using 1 digit_not_slash [of n] digit_not_slash [of "n mod b"]
    by (subst digits.simps) auto
qed

lemma split_at_slash:
  assumes "CHR ''/'' \<notin> set xs" "CHR ''/'' \<notin> set ys"
    and "xs @ CHR ''/'' # us = ys @ CHR ''/'' # vs"
  shows "xs = ys \<and> us = vs"
  using assms
proof (induction xs arbitrary: ys)
  case Nil
  then show ?case by (cases ys) auto
next
  case (Cons x xs)
  then show ?case by (cases ys) auto
qed

section \<open>Lists\<close>

text \<open>\<open>Vec::resize_with(n, || None)\<close>.\<close>

definition resize_none :: "nat \<Rightarrow> 'a option list \<Rightarrow> 'a option list" where
  "resize_none n xs = take n xs @ replicate (n - length xs) None"

lemma length_resize_none [simp]: "length (resize_none n xs) = n"
  by (simp add: resize_none_def)

lemma nth_resize_none:
  "i < n \<Longrightarrow> resize_none n xs ! i = (if i < length xs then xs ! i else None)"
  by (auto simp: resize_none_def nth_append)

lemma length_filter_update:
  "i < length xs \<Longrightarrow>
   length (filter P (xs[i := v])) + (if P (xs ! i) then 1 else 0)
     = length (filter P xs) + (if P v then 1 else 0)"
proof -
  assume i: "i < length xs"
  then have xs: "xs = take i xs @ xs ! i # drop (Suc i) xs" by (rule id_take_nth_drop)
  have "length (filter P xs)
      = length (filter P (take i xs)) + (if P (xs ! i) then 1 else 0) + length (filter P (drop (Suc i) xs))"
    by (subst xs) simp
  then show ?thesis using i by (simp add: upd_conv_take_nth_drop)
qed

lemma filter_all_length: "length (filter P xs) = length xs \<longleftrightarrow> (\<forall>x\<in>set xs. P x)"
  by (metis filter_True length_filter_less less_irrefl)

text \<open>\<open>iter().position(p)\<close>: the first index whose element satisfies \<open>p\<close>.\<close>

fun position :: "('a \<Rightarrow> bool) \<Rightarrow> 'a list \<Rightarrow> nat option" where
  "position p [] = None"
| "position p (x # xs) = (if p x then Some 0 else map_option Suc (position p xs))"

lemma position_Some:
  "position p xs = Some i \<longleftrightarrow> i < length xs \<and> p (xs ! i) \<and> (\<forall>j<i. \<not> p (xs ! j))"
proof (induction xs arbitrary: i)
  case Nil
  then show ?case by simp
next
  case (Cons x xs)
  show ?case
  proof (cases i)
    case 0
    then show ?thesis by auto
  next
    case (Suc k)
    then show ?thesis using Cons.IH [of k] by (auto simp: less_Suc_eq_0_disj)
  qed
qed

lemma position_None: "position p xs = None \<longleftrightarrow> (\<forall>x\<in>set xs. \<not> p x)"
  by (induction xs) auto

text \<open>A downward scan \<open>for i in (0..n).rev()\<close> with a break at the first hit.\<close>

lemma find_rev_upt_Some:
  "find P (rev [0..<n]) = Some j \<longleftrightarrow> j < n \<and> P j \<and> (\<forall>k. j < k \<longrightarrow> k < n \<longrightarrow> \<not> P k)"
  by (induction n) (auto simp: less_Suc_eq)

lemma find_rev_upt_None: "find P (rev [0..<n]) = None \<longleftrightarrow> (\<forall>k<n. \<not> P k)"
  by (induction n) (auto simp: less_Suc_eq)

text \<open>\<open>Vec::swap_remove(i)\<close>: the last element takes the place of the removed one.\<close>

definition swap_remove :: "nat \<Rightarrow> 'a list \<Rightarrow> 'a list" where
  "swap_remove i xs = butlast (xs[i := last xs])"

lemma length_swap_remove [simp]: "length (swap_remove i xs) = length xs - 1"
  by (simp add: swap_remove_def)

lemma distinct_swap_remove:
  assumes "distinct xs" "i < length xs"
  shows "distinct (swap_remove i xs)" "set (swap_remove i xs) = set xs - {xs ! i}"
proof -
  obtain ys z where xs: "xs = ys @ [z]" using assms(2) by (cases xs rule: rev_exhaust) auto
  have "distinct (swap_remove i xs) \<and> set (swap_remove i xs) = set xs - {xs ! i}"
  proof (cases "i = length ys")
    case True
    then show ?thesis using assms(1) by (auto simp: xs swap_remove_def)
  next
    case False
    with assms have i: "i < length ys" by (simp add: xs)
    then have "swap_remove i xs = ys[i := z]" "xs ! i = ys ! i"
      by (simp_all add: xs swap_remove_def list_update_append nth_append)
    then show ?thesis using assms(1) i
      by (auto simp: xs set_update_distinct distinct_list_update)
  qed
  then show "distinct (swap_remove i xs)" "set (swap_remove i xs) = set xs - {xs ! i}" by simp_all
qed

end
