(* ===== verification/Hash_Map.thy ===== *)
theory Hash_Map
  imports Slim_Prelude
begin

text \<open>
  \<open>HashMap\<close> and \<open>HashSet\<close> of the Rust standard library, over the \<open>Eq\<close>
  implementation of the key type. An insertion under an equal key keeps the stored key and
  replaces the value, as the library documents; the position of a new entry is immaterial.

  The locale \<open>rust_eq\<close> is the contract of \<open>Eq\<close>: an equivalence. The map laws are
  proved in it once and are available for every key type of the program by interpretation.
\<close>

type_synonym ('k, 'v) hmap = "('k \<times> 'v) list"
type_synonym 'a hset = "'a list"

definition hm_get :: "('k \<Rightarrow> 'k \<Rightarrow> bool) \<Rightarrow> 'k \<Rightarrow> ('k, 'v) hmap \<Rightarrow> 'v option" where
  "hm_get eq k m = map_option snd (find (\<lambda>e. eq (fst e) k) m)"

definition hm_contains :: "('k \<Rightarrow> 'k \<Rightarrow> bool) \<Rightarrow> 'k \<Rightarrow> ('k, 'v) hmap \<Rightarrow> bool" where
  "hm_contains eq k m = (hm_get eq k m \<noteq> None)"

fun hm_insert :: "('k \<Rightarrow> 'k \<Rightarrow> bool) \<Rightarrow> 'k \<Rightarrow> 'v \<Rightarrow> ('k, 'v) hmap \<Rightarrow> ('k, 'v) hmap" where
  "hm_insert eq k v [] = [(k, v)]"
| "hm_insert eq k v (e # m) =
     (if eq (fst e) k then (fst e, v) # m else e # hm_insert eq k v m)"

definition hm_remove :: "('k \<Rightarrow> 'k \<Rightarrow> bool) \<Rightarrow> 'k \<Rightarrow> ('k, 'v) hmap \<Rightarrow> ('k, 'v) hmap" where
  "hm_remove eq k m = filter (\<lambda>e. \<not> eq (fst e) k) m"

fun hm_wf :: "('k \<Rightarrow> 'k \<Rightarrow> bool) \<Rightarrow> ('k, 'v) hmap \<Rightarrow> bool" where
  "hm_wf eq [] = True"
| "hm_wf eq (e # m) = ((\<forall>e'\<in>set m. \<not> eq (fst e) (fst e')) \<and> hm_wf eq m)"

definition hs_contains :: "('a \<Rightarrow> 'a \<Rightarrow> bool) \<Rightarrow> 'a \<Rightarrow> 'a hset \<Rightarrow> bool" where
  "hs_contains eq x s = list_ex (\<lambda>y. eq y x) s"

definition hs_insert :: "('a \<Rightarrow> 'a \<Rightarrow> bool) \<Rightarrow> 'a \<Rightarrow> 'a hset \<Rightarrow> 'a hset" where
  "hs_insert eq x s = (if hs_contains eq x s then s else s @ [x])"

definition hs_remove :: "('a \<Rightarrow> 'a \<Rightarrow> bool) \<Rightarrow> 'a \<Rightarrow> 'a hset \<Rightarrow> 'a hset" where
  "hs_remove eq x s = filter (\<lambda>y. \<not> eq y x) s"

fun hs_wf :: "('a \<Rightarrow> 'a \<Rightarrow> bool) \<Rightarrow> 'a hset \<Rightarrow> bool" where
  "hs_wf eq [] = True"
| "hs_wf eq (x # s) = ((\<forall>y\<in>set s. \<not> eq x y) \<and> hs_wf eq s)"

text \<open>The number of entries whose value satisfies a predicate.\<close>

definition hm_count :: "('v \<Rightarrow> bool) \<Rightarrow> ('k, 'v) hmap \<Rightarrow> nat" where
  "hm_count Q m = length (filter (\<lambda>e. Q (snd e)) m)"

lemma hm_get_Nil [simp]: "hm_get eq k [] = None"
  by (simp add: hm_get_def)

lemma hm_get_Cons [simp]:
  "hm_get eq k (e # m) = (if eq (fst e) k then Some (snd e) else hm_get eq k m)"
  by (simp add: hm_get_def)

lemma hm_remove_Nil [simp]: "hm_remove eq k [] = []"
  by (simp add: hm_remove_def)

lemma hs_contains_iff: "hs_contains eq x s \<longleftrightarrow> (\<exists>y\<in>set s. eq y x)"
  by (auto simp: hs_contains_def list_ex_iff)

lemma hs_contains_Nil [simp]: "\<not> hs_contains eq x []"
  by (simp add: hs_contains_def)

lemma hs_insert_nonempty [simp]: "hs_insert eq x s \<noteq> []"
  by (auto simp: hs_insert_def hs_contains_def)

lemma hm_wf_remove [simp]: "hm_wf eq m \<Longrightarrow> hm_wf eq (hm_remove eq' k m)"
  by (induction m) (auto simp: hm_remove_def)

lemma hs_wf_remove [simp]: "hs_wf eq s \<Longrightarrow> hs_wf eq (hs_remove eq' x s)"
  by (induction s) (auto simp: hs_remove_def)

lemma hm_insert_values: "e \<in> set (hm_insert eq k v m) \<Longrightarrow> snd e = v \<or> e \<in> set m"
  by (induction m) (auto split: if_splits)

lemma hm_insert_same: "hm_get eq k m = Some v \<Longrightarrow> hm_insert eq k v m = m"
  by (induction m) (auto split: if_splits)

lemma set_hm_remove: "set (hm_remove eq k m) \<subseteq> set m"
  by (auto simp: hm_remove_def)

locale rust_eq =
  fixes eq :: "'k \<Rightarrow> 'k \<Rightarrow> bool"
  assumes eq_refl [simp]: "eq x x"
    and eq_sym: "eq x y \<Longrightarrow> eq y x"
    and eq_trans: "eq x y \<Longrightarrow> eq y z \<Longrightarrow> eq x z"
begin

lemma eq_left: "eq x y \<Longrightarrow> eq x z \<longleftrightarrow> eq y z"
  using eq_sym eq_trans by blast

lemma eq_commute: "eq x y \<longleftrightarrow> eq y x"
  using eq_sym by blast

lemma eq_right: "eq x y \<Longrightarrow> eq z x \<longleftrightarrow> eq z y"
  using eq_sym eq_trans by blast

lemma hm_insert_insert [simp]: "hm_insert eq k v (hm_insert eq k w m) = hm_insert eq k v m"
  by (induction m) auto

lemma hm_get_cong: "eq k k' \<Longrightarrow> hm_get eq k m = hm_get eq k' m"
  by (induction m) (auto simp: eq_right)

lemma hm_get_insert [simp]:
  "hm_get eq k' (hm_insert eq k v m) = (if eq k k' then Some v else hm_get eq k' m)"
proof (induction m)
  case (Cons e m)
  show ?case
  proof (cases "eq (fst e) k")
    case True
    then show ?thesis by (simp add: eq_left)
  next
    case False
    then have "eq (fst e) k' \<Longrightarrow> \<not> eq k k'" using eq_trans eq_sym by blast
    then show ?thesis using False Cons.IH by auto
  qed
qed simp

lemma hm_get_remove [simp]:
  "hm_get eq k' (hm_remove eq k m) = (if eq k k' then None else hm_get eq k' m)"
proof (induction m)
  case (Cons e m)
  have "eq (fst e) k \<Longrightarrow> eq (fst e) k' \<longleftrightarrow> eq k k'" by (rule eq_left)
  moreover have "eq (fst e) k' \<Longrightarrow> \<not> eq (fst e) k \<Longrightarrow> \<not> eq k k'" using eq_trans eq_sym by blast
  ultimately show ?case using Cons.IH by (auto simp: hm_remove_def)
qed simp

lemma hm_insert_keys:
  "e \<in> set (hm_insert eq k v m) \<Longrightarrow> (\<exists>e'\<in>set m. fst e' = fst e) \<or> fst e = k"
  by (induction m) (auto split: if_splits)

lemma hm_wf_insert [simp]: "hm_wf eq m \<Longrightarrow> hm_wf eq (hm_insert eq k v m)"
proof (induction m)
  case (Cons e m)
  show ?case
  proof (cases "eq (fst e) k")
    case False
    then have "\<forall>e'\<in>set (hm_insert eq k v m). \<not> eq (fst e) (fst e')"
      using Cons.prems hm_insert_keys by force
    then show ?thesis using Cons False by simp
  qed (use Cons in auto)
qed simp

lemma hm_get_SomeI: "hm_wf eq m \<Longrightarrow> (k', v) \<in> set m \<Longrightarrow> eq k' k \<Longrightarrow> hm_get eq k m = Some v"
proof (induction m)
  case (Cons e m)
  show ?case
  proof (cases "e = (k', v)")
    case False
    with Cons.prems have mem: "(k', v) \<in> set m" by simp
    with Cons.prems have "\<not> eq (fst e) k'" by force
    then have "\<not> eq (fst e) k" using Cons.prems(3) eq_right by blast
    then show ?thesis using Cons mem by simp
  qed (use Cons.prems in simp)
qed simp

lemma hm_get_SomeD: "hm_get eq k m = Some v \<Longrightarrow> \<exists>k'. (k', v) \<in> set m \<and> eq k' k"
  by (induction m) (auto split: if_splits)

lemma hm_remove_absent: "hm_get eq k m = None \<Longrightarrow> hm_remove eq k m = m"
  by (induction m) (auto simp: hm_remove_def split: if_splits)

lemma hm_get_None: "hm_get eq k m = None \<longleftrightarrow> (\<forall>e\<in>set m. \<not> eq (fst e) k)"
  by (induction m) (auto split: if_splits)

lemma hm_count_insert:
  "hm_count Q (hm_insert eq k v m) + (case hm_get eq k m of None \<Rightarrow> 0 | Some w \<Rightarrow> if Q w then 1 else 0)
     = hm_count Q m + (if Q v then 1 else 0)"
  by (induction m) (auto simp: hm_count_def split: option.splits)

lemma hm_count_remove:
  "hm_wf eq m \<Longrightarrow>
   hm_count Q (hm_remove eq k m) + (case hm_get eq k m of None \<Rightarrow> 0 | Some w \<Rightarrow> if Q w then 1 else 0)
     = hm_count Q m"
proof (induction m)
  case (Cons e m)
  show ?case
  proof (cases "eq (fst e) k")
    case True
    then have "hm_get eq k m = None" using Cons.prems hm_get_None eq_left by (metis eq_commute hm_wf.simps(2))
    then have "hm_remove eq k (e # m) = m" using True hm_remove_absent by (simp add: hm_remove_def)
    then show ?thesis using True by (simp add: hm_count_def)
  next
    case False
    then have "hm_remove eq k (e # m) = e # hm_remove eq k m" by (simp add: hm_remove_def)
    then show ?thesis using False Cons by (auto simp: hm_count_def)
  qed
qed (simp add: hm_count_def)

lemma hm_count_pos:
  "hm_wf eq m \<Longrightarrow> 0 < hm_count Q m \<longleftrightarrow> (\<exists>k v. hm_get eq k m = Some v \<and> Q v)"
proof
  assume wf: "hm_wf eq m" and "0 < hm_count Q m"
  then obtain e where "e \<in> set m" "Q (snd e)" by (auto simp: hm_count_def filter_empty_conv)
  then have "hm_get eq (fst e) m = Some (snd e)" using hm_get_SomeI [OF wf, of "fst e" "snd e"] by simp
  with \<open>Q (snd e)\<close> show "\<exists>k v. hm_get eq k m = Some v \<and> Q v" by blast
next
  assume "\<exists>k v. hm_get eq k m = Some v \<and> Q v"
  then obtain k v where v: "hm_get eq k m = Some v" "Q v" by blast
  then obtain k' where "(k', v) \<in> set m" using hm_get_SomeD [OF v(1)] by blast
  with \<open>Q v\<close> show "0 < hm_count Q m" by (force simp: hm_count_def filter_empty_conv)
qed

lemma hm_remove_insert: "hm_remove eq k (hm_insert eq k v m) = hm_remove eq k m"
  by (induction m) (auto simp: hm_remove_def)

lemma hs_contains_cong: "eq x y \<Longrightarrow> hs_contains eq x s = hs_contains eq y s"
  unfolding hs_contains_iff using eq_trans eq_sym by blast

lemma hs_contains_insert [simp]:
  "hs_contains eq y (hs_insert eq x s) \<longleftrightarrow> eq x y \<or> hs_contains eq y s"
proof -
  have "eq x y \<Longrightarrow> hs_contains eq x s \<Longrightarrow> hs_contains eq y s"
    using hs_contains_cong by blast
  then show ?thesis by (auto simp: hs_insert_def hs_contains_iff)
qed

lemma hs_contains_remove [simp]:
  "hs_contains eq y (hs_remove eq x s) \<longleftrightarrow> \<not> eq x y \<and> hs_contains eq y s"
proof -
  have "eq z y \<Longrightarrow> eq z x \<longleftrightarrow> eq x y" for z using eq_left eq_commute by metis
  then show ?thesis by (auto simp: hs_contains_iff hs_remove_def)
qed

lemma hs_wf_append: "hs_wf eq (s @ [x]) \<longleftrightarrow> hs_wf eq s \<and> \<not> hs_contains eq x s"
  by (induction s) (auto simp: hs_contains_iff)

lemma hs_wf_insert [simp]: "hs_wf eq s \<Longrightarrow> hs_wf eq (hs_insert eq x s)"
  by (simp add: hs_insert_def hs_wf_append)

lemma hs_remove_empty_iff: "hs_remove eq x s = [] \<longleftrightarrow> (\<forall>y\<in>set s. eq y x)"
  by (auto simp: hs_remove_def filter_empty_conv)

end

text \<open>Keys whose \<open>Eq\<close> is derived over all their fields compare by equality.\<close>

interpretation plain_eq: rust_eq "(=) :: 'a \<Rightarrow> 'a \<Rightarrow> bool"
  by unfold_locales auto

lemma hm_get_map_of: "hm_get (=) k m = map_of m k"
  by (induction m) auto

lemma hm_wf_plain: "hm_wf (=) m \<longleftrightarrow> distinct (map fst m)"
  by (induction m) force+

end
