(* ===== verification/Names.thy ===== *)
theory Names
  imports Slim_Prelude Hash_Map
begin

text \<open>
  Names of agents, \<^verbatim>\<open>datapath/src/messages/encoder.rs\<close>, and their wire form, the record
  \<open>ProtoAgent\<close> of the protocol.

  An \<open>AgentType\<close> is three 64-bit hashes with, optionally, the strings they were computed
  from. Its \<open>Eq\<close> ignores the strings. The hash function is \<open>XxHash64\<close> of the crate
  \<open>twox_hash\<close>: the argument \<open>xx\<close> maps the bytes fed to the hasher to its result.
\<close>

definition DEFAULT_AGENT_ID :: u64 where
  "DEFAULT_AGENT_ID = - 1"

record agent_type =
  at_organization :: u64
  at_namespace :: u64
  at_agent_type :: u64
  at_strings :: "(string \<times> string \<times> string) option"

record agent =
  ag_type :: agent_type
  ag_id :: u64

record proto_agent =
  pa_organization :: u64
  pa_namespace :: u64
  pa_agent_type :: u64
  pa_agent_id :: "u64 option"

text \<open>The \<open>Hash\<close> of a string writes its bytes and a terminating 0xff.\<close>

definition calculate_hash :: "(u8 list \<Rightarrow> u64) \<Rightarrow> string \<Rightarrow> u64" where
  "calculate_hash xx s = xx (map of_char s @ [255])"

definition agent_type_eq :: "agent_type \<Rightarrow> agent_type \<Rightarrow> bool" where
  "agent_type_eq a b \<longleftrightarrow>
     at_organization a = at_organization b \<and>
     at_namespace a = at_namespace b \<and>
     at_agent_type a = at_agent_type b"

text \<open>\<open>Display\<close> of types and agents.\<close>

definition agent_type_display :: "agent_type \<Rightarrow> string" where
  "agent_type_display t =
     show_hex (at_organization t) @ ''/'' @ show_hex (at_namespace t) @ ''/'' @ show_hex (at_agent_type t) @
     (case at_strings t of None \<Rightarrow> []
      | Some (org, ns, ty) \<Rightarrow> '' ('' @ org @ ''/'' @ ns @ ''/'' @ ty @ '')'')"

definition agent_display :: "agent \<Rightarrow> string" where
  "agent_display a =
     show_hex (at_organization (ag_type a)) @ ''/'' @ show_hex (at_namespace (ag_type a)) @ ''/'' @
     show_hex (at_agent_type (ag_type a)) @ ''/'' @ show_hex (ag_id a)"

definition agent_type_from_proto :: "proto_agent \<Rightarrow> agent_type" where
  "agent_type_from_proto a = \<lparr>
     at_organization = pa_organization a,
     at_namespace = pa_namespace a,
     at_agent_type = pa_agent_type a,
     at_strings = None\<rparr>"

definition agent_type_from_strings :: "(u8 list \<Rightarrow> u64) \<Rightarrow> string \<Rightarrow> string \<Rightarrow> string \<Rightarrow> agent_type" where
  "agent_type_from_strings xx org ns ty = \<lparr>
     at_organization = calculate_hash xx org,
     at_namespace = calculate_hash xx ns,
     at_agent_type = calculate_hash xx ty,
     at_strings = Some (org, ns, ty)\<rparr>"

definition agent_type_default :: agent_type where
  "agent_type_default = \<lparr>at_organization = 0, at_namespace = 0, at_agent_type = 0, at_strings = None\<rparr>"

definition organization_string :: "agent_type \<Rightarrow> string option" where
  "organization_string t = map_option fst (at_strings t)"

definition namespace_string :: "agent_type \<Rightarrow> string option" where
  "namespace_string t = map_option (\<lambda>s. fst (snd s)) (at_strings t)"

definition agent_type_string :: "agent_type \<Rightarrow> string option" where
  "agent_type_string t = map_option (\<lambda>s. snd (snd s)) (at_strings t)"

definition agent_eq :: "agent \<Rightarrow> agent \<Rightarrow> bool" where
  "agent_eq a b \<longleftrightarrow> agent_type_eq (ag_type a) (ag_type b) \<and> ag_id a = ag_id b"

definition agent_from_proto :: "proto_agent \<Rightarrow> agent option" where
  "agent_from_proto a = do {
     i \<leftarrow> pa_agent_id a;
     Some \<lparr>ag_type = agent_type_from_proto a, ag_id = i\<rparr>
   }"

definition agent_new :: "agent_type \<Rightarrow> u64 \<Rightarrow> agent" where
  "agent_new t i = \<lparr>ag_type = t, ag_id = i\<rparr>"

definition agent_from_strings :: "(u8 list \<Rightarrow> u64) \<Rightarrow> string \<Rightarrow> string \<Rightarrow> string \<Rightarrow> u64 \<Rightarrow> agent" where
  "agent_from_strings xx org ns ty i = \<lparr>ag_type = agent_type_from_strings xx org ns ty, ag_id = i\<rparr>"

definition agent_id_from_identity :: "(u8 list \<Rightarrow> u64) \<Rightarrow> string \<Rightarrow> u64" where
  "agent_id_from_identity xx identity = calculate_hash xx identity"

definition agent_from_strings_and_identity ::
    "(u8 list \<Rightarrow> u64) \<Rightarrow> string \<Rightarrow> string \<Rightarrow> string \<Rightarrow> string \<Rightarrow> agent" where
  "agent_from_strings_and_identity xx org ns ty identity =
     \<lparr>ag_type = agent_type_from_strings xx org ns ty, ag_id = agent_id_from_identity xx identity\<rparr>"

definition with_agent_id :: "agent \<Rightarrow> u64 \<Rightarrow> agent" where
  "with_agent_id a i = a\<lparr>ag_id := i\<rparr>"

definition with_agent_type :: "agent \<Rightarrow> agent_type \<Rightarrow> agent" where
  "with_agent_type a t = a\<lparr>ag_type := t\<rparr>"

definition agent_id_option :: "agent \<Rightarrow> u64 option" where
  "agent_id_option a = (if ag_id a = DEFAULT_AGENT_ID then None else Some (ag_id a))"

text \<open>\<open>From<&Agent>\<close> and \<open>From<(&AgentType, Option<u64>)>\<close> for \<open>ProtoAgent\<close>.\<close>

definition proto_agent_from_agent :: "agent \<Rightarrow> proto_agent" where
  "proto_agent_from_agent a = \<lparr>
     pa_organization = at_organization (ag_type a),
     pa_namespace = at_namespace (ag_type a),
     pa_agent_type = at_agent_type (ag_type a),
     pa_agent_id = (if ag_id a \<noteq> DEFAULT_AGENT_ID then Some (ag_id a) else None)\<rparr>"

definition proto_agent_from_type :: "agent_type \<Rightarrow> u64 option \<Rightarrow> proto_agent" where
  "proto_agent_from_type t i = \<lparr>
     pa_organization = at_organization t,
     pa_namespace = at_namespace t,
     pa_agent_type = at_agent_type t,
     pa_agent_id = i\<rparr>"

section \<open>Names compare by their hashes\<close>

interpretation at_eq: rust_eq agent_type_eq
  by unfold_locales (auto simp: agent_type_eq_def)

interpretation ag_eq: rust_eq agent_eq
  by unfold_locales (auto simp: agent_eq_def agent_type_eq_def)

lemma agent_type_from_proto_type [simp]:
  "agent_type_eq (agent_type_from_proto (proto_agent_from_type t i)) t"
  by (simp add: agent_type_eq_def agent_type_from_proto_def proto_agent_from_type_def)

lemma agent_type_from_proto_agent [simp]:
  "agent_type_eq (agent_type_from_proto (proto_agent_from_agent a)) (ag_type a)"
  by (simp add: agent_type_eq_def agent_type_from_proto_def proto_agent_from_agent_def)

lemma agent_from_proto_agent:
  "agent_from_proto (proto_agent_from_agent a) =
     (if ag_id a = DEFAULT_AGENT_ID then None
      else Some (agent_new (agent_type_from_proto (proto_agent_from_agent a)) (ag_id a)))"
  by (simp add: agent_from_proto_def proto_agent_from_agent_def agent_new_def)

text \<open>A name with strings carries their hashes.\<close>

definition agent_type_wf :: "(u8 list \<Rightarrow> u64) \<Rightarrow> agent_type \<Rightarrow> bool" where
  "agent_type_wf xx t \<longleftrightarrow>
     (case at_strings t of None \<Rightarrow> True
      | Some (org, ns, ty) \<Rightarrow> t = agent_type_from_strings xx org ns ty)"

lemma agent_type_wf_from_strings [simp]: "agent_type_wf xx (agent_type_from_strings xx o' n t)"
  by (simp add: agent_type_wf_def agent_type_from_strings_def)

lemma agent_type_wf_from_proto [simp]: "agent_type_wf xx (agent_type_from_proto a)"
  by (simp add: agent_type_wf_def agent_type_from_proto_def)

lemma at_strings_from_strings [simp]:
  "at_strings (agent_type_from_strings xx o' n t) = Some (o', n, t)"
  by (simp add: agent_type_from_strings_def)

lemma strings_of_from_strings [simp]:
  "organization_string (agent_type_from_strings xx o' n t) = Some o'"
  "namespace_string (agent_type_from_strings xx o' n t) = Some n"
  "agent_type_string (agent_type_from_strings xx o' n t) = Some t"
  by (simp_all add: organization_string_def namespace_string_def agent_type_string_def
      agent_type_from_strings_def)

text \<open>
  an agent survives the conversion to the wire form and back up to \<open>Eq\<close>, unless its
  identifier is the default one, which the wire form drops: then reading it back panics.
\<close>

theorem agent_proto_roundtrip:
  "case agent_from_proto (proto_agent_from_agent a) of
     None \<Rightarrow> agent_id_option a = None
   | Some b \<Rightarrow> agent_eq b a \<and> agent_id_option a = Some (ag_id b)"
  by (simp add: agent_from_proto_agent agent_id_option_def agent_eq_def agent_new_def)

text \<open>
  the printed form of an agent identifies it: two agents print alike exactly when they are
  equal in the sense of \<open>Eq\<close>.
\<close>

theorem agent_display_injective: "agent_display a = agent_display b \<longleftrightarrow> agent_eq a b"
proof
  have no_slash: "CHR ''/'' \<notin> set (show_hex w)" for w
    using digits_no_slash [of 16 "unat w"] by (simp add: show_hex_def)
  assume "agent_display a = agent_display b"
  then have eq: "show_hex (at_organization (ag_type a)) @ CHR ''/'' # show_hex (at_namespace (ag_type a)) @ CHR ''/'' #
        show_hex (at_agent_type (ag_type a)) @ CHR ''/'' # show_hex (ag_id a)
      = show_hex (at_organization (ag_type b)) @ CHR ''/'' # show_hex (at_namespace (ag_type b)) @ CHR ''/'' #
        show_hex (at_agent_type (ag_type b)) @ CHR ''/'' # show_hex (ag_id b)"
    by (simp add: agent_display_def)
  note s1 = split_at_slash [OF no_slash no_slash eq]
  note s2 = split_at_slash [OF no_slash no_slash conjunct2 [OF s1]]
  note s3 = split_at_slash [OF no_slash no_slash conjunct2 [OF s2]]
  show "agent_eq a b"
    using s1 s2 s3 by (simp add: agent_eq_def agent_type_eq_def)
qed (simp add: agent_display_def agent_eq_def agent_type_eq_def)

end
