(* ===== verification/Messages.thy ===== *)
theory Messages
  imports Names
begin

text \<open>
  The messages of the data plane: the protocol's types and the operations of
  \<^verbatim>\<open>datapath/src/messages/utils.rs\<close>. An accessor that unwraps an absent field panics, which
  is \<open>None\<close> here; writing through a mutable reference to a header is an update function.
\<close>

section \<open>Protocol types\<close>

datatype message_error =
  SlimHeaderNotFound
| SourceNotFound
| DestinationNotFound
| SessionHeaderNotFound
| MessageTypeNotFound
| IncomingConnectionNotFound

definition message_error_display :: "message_error \<Rightarrow> string" where
  "message_error_display e =
     (case e of
        SlimHeaderNotFound \<Rightarrow> ''SLIM header not found''
      | SourceNotFound \<Rightarrow> ''source not found''
      | DestinationNotFound \<Rightarrow> ''destination not found''
      | SessionHeaderNotFound \<Rightarrow> ''session header not found''
      | MessageTypeNotFound \<Rightarrow> ''message type not found''
      | IncomingConnectionNotFound \<Rightarrow> ''incoming connection not found'')"

datatype session_header_type =
  Unspecified | Fnf | FnfReliable | FnfAck | FnfDiscovery | FnfDiscoveryReply
| Request | Reply | StreamMsg | PubSub | RtxRequest | RtxReply | BeaconStream | BeaconPubSub

record slim_header =
  sh_source :: "proto_agent option"
  sh_destination :: "proto_agent option"
  sh_fanout :: u32
  sh_recv_from :: "u64 option"
  sh_forward_to :: "u64 option"
  sh_incoming_conn :: "u64 option"
  sh_error :: "bool option"

record session_header =
  se_header_type :: "32 word"
  se_session_id :: u32
  se_message_id :: u32

record content =
  ct_content_type :: string
  ct_blob :: "u8 list"

record subscribe =
  sub_header :: "slim_header option"
  sub_organization :: string
  sub_namespace :: string
  sub_agent_type :: string

record unsubscribe =
  unsub_header :: "slim_header option"

record publish =
  pub_header :: "slim_header option"
  pub_session :: "session_header option"
  pub_msg :: "content option"

datatype message_type =
  Subscribe subscribe
| Unsubscribe unsubscribe
| Publish publish

record message =
  msg_metadata :: "(string, string) hmap"
  msg_type :: "message_type option"

definition i32_of_header_type :: "session_header_type \<Rightarrow> 32 word" where
  "i32_of_header_type t =
     (case t of Unspecified \<Rightarrow> 0 | Fnf \<Rightarrow> 1 | FnfReliable \<Rightarrow> 2 | FnfAck \<Rightarrow> 3 | FnfDiscovery \<Rightarrow> 4
      | FnfDiscoveryReply \<Rightarrow> 5 | Request \<Rightarrow> 6 | Reply \<Rightarrow> 7 | StreamMsg \<Rightarrow> 8 | PubSub \<Rightarrow> 9
      | RtxRequest \<Rightarrow> 10 | RtxReply \<Rightarrow> 11 | BeaconStream \<Rightarrow> 12 | BeaconPubSub \<Rightarrow> 13)"

text \<open>\<open>try_into().unwrap_or_default()\<close>: a number that names no header type reads as unspecified.\<close>

definition header_type_of_i32 :: "32 word \<Rightarrow> session_header_type" where
  "header_type_of_i32 w =
     (if w = 1 then Fnf else if w = 2 then FnfReliable else if w = 3 then FnfAck
      else if w = 4 then FnfDiscovery else if w = 5 then FnfDiscoveryReply
      else if w = 6 then Request else if w = 7 then Reply else if w = 8 then StreamMsg
      else if w = 9 then PubSub else if w = 10 then RtxRequest else if w = 11 then RtxReply
      else if w = 12 then BeaconStream else if w = 13 then BeaconPubSub else Unspecified)"

definition session_header_type_as_str_name :: "session_header_type \<Rightarrow> string" where
  "session_header_type_as_str_name t =
     (case t of Unspecified \<Rightarrow> ''UNSPECIFIED'' | Fnf \<Rightarrow> ''FNF'' | FnfReliable \<Rightarrow> ''FNF_RELIABLE''
      | FnfAck \<Rightarrow> ''FNF_ACK'' | FnfDiscovery \<Rightarrow> ''FNF_DISCOVERY''
      | FnfDiscoveryReply \<Rightarrow> ''FNF_DISCOVERY_REPLY'' | Request \<Rightarrow> ''REQUEST'' | Reply \<Rightarrow> ''REPLY''
      | StreamMsg \<Rightarrow> ''STREAM'' | PubSub \<Rightarrow> ''PUB_SUB'' | RtxRequest \<Rightarrow> ''RTX_REQUEST''
      | RtxReply \<Rightarrow> ''RTX_REPLY'' | BeaconStream \<Rightarrow> ''BEACON_STREAM'' | BeaconPubSub \<Rightarrow> ''BEACON_PUB_SUB'')"

definition session_header_type_from_str_name :: "string \<Rightarrow> session_header_type option" where
  "session_header_type_from_str_name s =
     (if s = ''UNSPECIFIED'' then Some Unspecified
      else if s = ''FNF'' then Some Fnf
      else if s = ''FNF_RELIABLE'' then Some FnfReliable
      else if s = ''FNF_ACK'' then Some FnfAck
      else if s = ''FNF_DISCOVERY'' then Some FnfDiscovery
      else if s = ''FNF_DISCOVERY_REPLY'' then Some FnfDiscoveryReply
      else if s = ''REQUEST'' then Some Request
      else if s = ''REPLY'' then Some Reply
      else if s = ''STREAM'' then Some StreamMsg
      else if s = ''PUB_SUB'' then Some PubSub
      else if s = ''RTX_REQUEST'' then Some RtxRequest
      else if s = ''RTX_REPLY'' then Some RtxReply
      else if s = ''BEACON_STREAM'' then Some BeaconStream
      else if s = ''BEACON_PUB_SUB'' then Some BeaconPubSub
      else None)"

section \<open>Header flags\<close>

record slim_header_flags =
  fl_fanout :: u32
  fl_recv_from :: "u64 option"
  fl_forward_to :: "u64 option"
  fl_incoming_conn :: "u64 option"
  fl_error :: "bool option"

definition flags_default :: slim_header_flags where
  "flags_default = \<lparr>fl_fanout = 1, fl_recv_from = None, fl_forward_to = None,
     fl_incoming_conn = None, fl_error = None\<rparr>"

definition flags_new :: "u32 \<Rightarrow> u64 option \<Rightarrow> u64 option \<Rightarrow> u64 option \<Rightarrow> bool option \<Rightarrow> slim_header_flags" where
  "flags_new fanout recv_from forward_to incoming_conn error =
     \<lparr>fl_fanout = fanout, fl_recv_from = recv_from, fl_forward_to = forward_to,
      fl_incoming_conn = incoming_conn, fl_error = error\<rparr>"

definition with_fanout :: "slim_header_flags \<Rightarrow> u32 \<Rightarrow> slim_header_flags" where
  "with_fanout f n = f\<lparr>fl_fanout := n\<rparr>"

definition with_recv_from :: "slim_header_flags \<Rightarrow> u64 \<Rightarrow> slim_header_flags" where
  "with_recv_from f c = f\<lparr>fl_recv_from := Some c\<rparr>"

definition with_forward_to :: "slim_header_flags \<Rightarrow> u64 \<Rightarrow> slim_header_flags" where
  "with_forward_to f c = f\<lparr>fl_forward_to := Some c\<rparr>"

definition with_incoming_conn :: "slim_header_flags \<Rightarrow> u64 \<Rightarrow> slim_header_flags" where
  "with_incoming_conn f c = f\<lparr>fl_incoming_conn := Some c\<rparr>"

definition with_error :: "slim_header_flags \<Rightarrow> bool \<Rightarrow> slim_header_flags" where
  "with_error f e = f\<lparr>fl_error := Some e\<rparr>"

section \<open>SLIM header\<close>

definition slim_header_new ::
    "agent \<Rightarrow> agent_type \<Rightarrow> u64 option \<Rightarrow> slim_header_flags option \<Rightarrow> slim_header" where
  "slim_header_new source name_type name_id flags =
     (let f = (case flags of None \<Rightarrow> flags_default | Some f \<Rightarrow> f)
      in \<lparr>sh_source = Some (proto_agent_from_agent source),
          sh_destination = Some (proto_agent_from_type name_type name_id),
          sh_fanout = fl_fanout f,
          sh_recv_from = fl_recv_from f,
          sh_forward_to = fl_forward_to f,
          sh_incoming_conn = fl_incoming_conn f,
          sh_error = fl_error f\<rparr>)"

definition slim_header_clear :: "slim_header \<Rightarrow> slim_header" where
  "slim_header_clear h = h\<lparr>sh_recv_from := None, sh_forward_to := None\<rparr>"

definition slim_header_get_source :: "slim_header \<Rightarrow> agent option" where
  "slim_header_get_source h =
     (case sh_source h of Some s \<Rightarrow> agent_from_proto s | None \<Rightarrow> None)"

definition slim_header_get_dst :: "slim_header \<Rightarrow> (agent_type \<times> u64 option) option" where
  "slim_header_get_dst h =
     (case sh_destination h of
        Some d \<Rightarrow> Some (agent_type_from_proto d, pa_agent_id d) | None \<Rightarrow> None)"

definition slim_header_set_source :: "agent \<Rightarrow> slim_header \<Rightarrow> slim_header" where
  "slim_header_set_source a h = h\<lparr>sh_source := Some (proto_agent_from_agent a)\<rparr>"

definition slim_header_set_destination :: "agent \<Rightarrow> slim_header \<Rightarrow> slim_header" where
  "slim_header_set_destination a h = h\<lparr>sh_destination := Some (proto_agent_from_agent a)\<rparr>"

definition slim_header_set_recv_from :: "u64 option \<Rightarrow> slim_header \<Rightarrow> slim_header" where
  "slim_header_set_recv_from c h = h\<lparr>sh_recv_from := c\<rparr>"

definition slim_header_set_forward_to :: "u64 option \<Rightarrow> slim_header \<Rightarrow> slim_header" where
  "slim_header_set_forward_to c h = h\<lparr>sh_forward_to := c\<rparr>"

definition slim_header_set_error :: "bool option \<Rightarrow> slim_header \<Rightarrow> slim_header" where
  "slim_header_set_error e h = h\<lparr>sh_error := e\<rparr>"

definition slim_header_set_incoming_conn :: "u64 option \<Rightarrow> slim_header \<Rightarrow> slim_header" where
  "slim_header_set_incoming_conn c h = h\<lparr>sh_incoming_conn := c\<rparr>"

definition slim_header_set_fanout :: "u32 \<Rightarrow> slim_header \<Rightarrow> slim_header" where
  "slim_header_set_fanout n h = h\<lparr>sh_fanout := n\<rparr>"

definition get_in_out_connections :: "slim_header \<Rightarrow> (u64 \<times> u64 option) option" where
  "get_in_out_connections h = do {
     incoming \<leftarrow> sh_incoming_conn h;
     case sh_recv_from h of
       Some val \<Rightarrow> Some (val, None)
     | None \<Rightarrow>
         (case sh_forward_to h of
            Some val \<Rightarrow> Some (incoming, Some val)
          | None \<Rightarrow> Some (incoming, None))
   }"

section \<open>Session header\<close>

definition session_header_new :: "32 word \<Rightarrow> u32 \<Rightarrow> u32 \<Rightarrow> session_header" where
  "session_header_new ht sid mid =
     \<lparr>se_header_type = ht, se_session_id = sid, se_message_id = mid\<rparr>"

definition session_header_default :: session_header where
  "session_header_default = \<lparr>se_header_type = 0, se_session_id = 0, se_message_id = 0\<rparr>"

definition session_header_set_session_id :: "u32 \<Rightarrow> session_header \<Rightarrow> session_header" where
  "session_header_set_session_id i h = h\<lparr>se_session_id := i\<rparr>"

definition session_header_set_message_id :: "u32 \<Rightarrow> session_header \<Rightarrow> session_header" where
  "session_header_set_message_id i h = h\<lparr>se_message_id := i\<rparr>"

definition session_header_set_header_type :: "session_header_type \<Rightarrow> session_header \<Rightarrow> session_header" where
  "session_header_set_header_type t h = h\<lparr>se_header_type := i32_of_header_type t\<rparr>"

definition session_header_clear :: "session_header \<Rightarrow> session_header" where
  "session_header_clear h = h\<lparr>se_session_id := 0, se_message_id := 0\<rparr>"

section \<open>Building messages\<close>

definition subscribe_new ::
    "agent \<Rightarrow> agent_type \<Rightarrow> u64 option \<Rightarrow> slim_header_flags option \<Rightarrow> subscribe option" where
  "subscribe_new source t i flags = do {
     let header = Some (slim_header_new source t i flags);
     org \<leftarrow> organization_string t;
     ns \<leftarrow> namespace_string t;
     ty \<leftarrow> agent_type_string t;
     Some \<lparr>sub_header = header, sub_organization = org, sub_namespace = ns, sub_agent_type = ty\<rparr>
   }"

definition subscribe_from_message :: "message \<Rightarrow> subscribe option" where
  "subscribe_from_message m = (case msg_type m of Some (Subscribe s) \<Rightarrow> Some s | _ \<Rightarrow> None)"

definition unsubscribe_new ::
    "agent \<Rightarrow> agent_type \<Rightarrow> u64 option \<Rightarrow> slim_header_flags option \<Rightarrow> unsubscribe" where
  "unsubscribe_new source t i flags = \<lparr>unsub_header = Some (slim_header_new source t i flags)\<rparr>"

definition unsubscribe_from_message :: "message \<Rightarrow> unsubscribe option" where
  "unsubscribe_from_message m = (case msg_type m of Some (Unsubscribe u) \<Rightarrow> Some u | _ \<Rightarrow> None)"

definition publish_with_header ::
    "slim_header option \<Rightarrow> session_header option \<Rightarrow> content option \<Rightarrow> publish" where
  "publish_with_header h s c = \<lparr>pub_header = h, pub_session = s, pub_msg = c\<rparr>"

definition publish_new ::
    "agent \<Rightarrow> agent_type \<Rightarrow> u64 option \<Rightarrow> slim_header_flags option \<Rightarrow> string \<Rightarrow> u8 list \<Rightarrow> publish" where
  "publish_new source t i flags content_type blob =
     publish_with_header (Some (slim_header_new source t i flags)) (Some session_header_default)
       (Some \<lparr>ct_content_type = content_type, ct_blob = blob\<rparr>)"

definition publish_from_message :: "message \<Rightarrow> publish option" where
  "publish_from_message m = (case msg_type m of Some (Publish p) \<Rightarrow> Some p | _ \<Rightarrow> None)"

definition message_new :: "(string, string) hmap \<Rightarrow> message_type \<Rightarrow> message" where
  "message_new metadata t = \<lparr>msg_metadata = metadata, msg_type = Some t\<rparr>"

definition new_subscribe ::
    "agent \<Rightarrow> agent_type \<Rightarrow> u64 option \<Rightarrow> slim_header_flags option \<Rightarrow> message option" where
  "new_subscribe source t i flags = do {
     s \<leftarrow> subscribe_new source t i flags;
     Some (message_new [] (Subscribe s))
   }"

definition new_unsubscribe ::
    "agent \<Rightarrow> agent_type \<Rightarrow> u64 option \<Rightarrow> slim_header_flags option \<Rightarrow> message" where
  "new_unsubscribe source t i flags = message_new [] (Unsubscribe (unsubscribe_new source t i flags))"

definition new_publish ::
    "agent \<Rightarrow> agent_type \<Rightarrow> u64 option \<Rightarrow> slim_header_flags option \<Rightarrow> string \<Rightarrow> u8 list \<Rightarrow> message" where
  "new_publish source t i flags content_type blob =
     message_new [] (Publish (publish_new source t i flags content_type blob))"

definition new_publish_with_headers ::
    "slim_header option \<Rightarrow> session_header option \<Rightarrow> string \<Rightarrow> u8 list \<Rightarrow> message" where
  "new_publish_with_headers h s content_type blob =
     message_new [] (Publish (publish_with_header h s
       (Some \<lparr>ct_content_type = content_type, ct_blob = blob\<rparr>)))"

section \<open>Reading and writing messages\<close>

definition insert_metadata :: "string \<Rightarrow> string \<Rightarrow> message \<Rightarrow> message" where
  "insert_metadata k v m = m\<lparr>msg_metadata := hm_insert (=) k v (msg_metadata m)\<rparr>"

definition remove_metadata :: "string \<Rightarrow> message \<Rightarrow> message" where
  "remove_metadata k m = m\<lparr>msg_metadata := hm_remove (=) k (msg_metadata m)\<rparr>"

definition try_get_slim_header :: "message \<Rightarrow> slim_header option" where
  "try_get_slim_header m =
     (case msg_type m of
        Some (Publish p) \<Rightarrow> pub_header p
      | Some (Subscribe s) \<Rightarrow> sub_header s
      | Some (Unsubscribe u) \<Rightarrow> unsub_header u
      | None \<Rightarrow> None)"

definition get_slim_header :: "message \<Rightarrow> slim_header option" where
  "get_slim_header m =
     (case msg_type m of
        Some (Publish p) \<Rightarrow> pub_header p
      | Some (Subscribe s) \<Rightarrow> sub_header s
      | Some (Unsubscribe u) \<Rightarrow> unsub_header u
      | None \<Rightarrow> None)"

definition get_slim_header_mut :: "(slim_header \<Rightarrow> slim_header) \<Rightarrow> message \<Rightarrow> message option" where
  "get_slim_header_mut f m =
     (case msg_type m of
        Some (Publish p) \<Rightarrow> do {
          h \<leftarrow> pub_header p; Some (m\<lparr>msg_type := Some (Publish (p\<lparr>pub_header := Some (f h)\<rparr>))\<rparr>) }
      | Some (Subscribe s) \<Rightarrow> do {
          h \<leftarrow> sub_header s; Some (m\<lparr>msg_type := Some (Subscribe (s\<lparr>sub_header := Some (f h)\<rparr>))\<rparr>) }
      | Some (Unsubscribe u) \<Rightarrow> do {
          h \<leftarrow> unsub_header u; Some (m\<lparr>msg_type := Some (Unsubscribe (u\<lparr>unsub_header := Some (f h)\<rparr>))\<rparr>) }
      | None \<Rightarrow> None)"

definition try_get_session_header :: "message \<Rightarrow> session_header option" where
  "try_get_session_header m =
     (case msg_type m of
        Some (Publish p) \<Rightarrow> pub_session p
      | Some (Subscribe _) \<Rightarrow> None
      | Some (Unsubscribe _) \<Rightarrow> None
      | None \<Rightarrow> None)"

definition get_session_header :: "message \<Rightarrow> session_header option" where
  "get_session_header m =
     (case msg_type m of
        Some (Publish p) \<Rightarrow> pub_session p
      | Some (Subscribe _) \<Rightarrow> None
      | Some (Unsubscribe _) \<Rightarrow> None
      | None \<Rightarrow> None)"

definition get_session_header_mut :: "(session_header \<Rightarrow> session_header) \<Rightarrow> message \<Rightarrow> message option" where
  "get_session_header_mut f m =
     (case msg_type m of
        Some (Publish p) \<Rightarrow> do {
          h \<leftarrow> pub_session p; Some (m\<lparr>msg_type := Some (Publish (p\<lparr>pub_session := Some (f h)\<rparr>))\<rparr>) }
      | _ \<Rightarrow> None)"

definition message_validate :: "message \<Rightarrow> (message_error, unit) rust" where
  "message_validate m =
     (if msg_type m = None then Err MessageTypeNotFound
      else if try_get_slim_header m = None then Err SlimHeaderNotFound
      else do {
        h \<leftarrow> get_slim_header m;
        if sh_source h = None then Err SourceNotFound
        else if sh_destination h = None then Err DestinationNotFound
        else (case msg_type m of
            Some (Publish p) \<Rightarrow>
              (if pub_header p = None then Err SlimHeaderNotFound
               else if pub_session p = None then Err SessionHeaderNotFound
               else Ok ())
          | Some (Subscribe s) \<Rightarrow>
              (if sub_header s = None then Err SlimHeaderNotFound else Ok ())
          | Some (Unsubscribe u) \<Rightarrow>
              (if unsub_header u = None then Err SlimHeaderNotFound else Ok ())
          | None \<Rightarrow> Err MessageTypeNotFound)
      })"

definition msg_get_id :: "message \<Rightarrow> u32 option" where
  "msg_get_id m = do { h \<leftarrow> get_session_header m; Some (se_message_id h) }"

definition msg_get_source :: "message \<Rightarrow> agent option" where
  "msg_get_source m = do { h \<leftarrow> get_slim_header m; slim_header_get_source h }"

definition msg_get_fanout :: "message \<Rightarrow> u32 option" where
  "msg_get_fanout m = do { h \<leftarrow> get_slim_header m; Some (sh_fanout h) }"

definition msg_get_recv_from :: "message \<Rightarrow> u64 option option" where
  "msg_get_recv_from m = do { h \<leftarrow> get_slim_header m; Some (sh_recv_from h) }"

definition msg_get_forward_to :: "message \<Rightarrow> u64 option option" where
  "msg_get_forward_to m = do { h \<leftarrow> get_slim_header m; Some (sh_forward_to h) }"

definition msg_get_error :: "message \<Rightarrow> bool option option" where
  "msg_get_error m = do { h \<leftarrow> get_slim_header m; Some (sh_error h) }"

definition msg_get_incoming_conn :: "message \<Rightarrow> u64 option" where
  "msg_get_incoming_conn m = do { h \<leftarrow> get_slim_header m; sh_incoming_conn h }"

definition msg_try_get_incoming_conn :: "message \<Rightarrow> u64 option option" where
  "msg_try_get_incoming_conn m = do { h \<leftarrow> get_slim_header m; Some (sh_incoming_conn h) }"

definition msg_get_name :: "(u8 list \<Rightarrow> u64) \<Rightarrow> message \<Rightarrow> (agent_type \<times> u64 option) option" where
  "msg_get_name xx m = do {
     h \<leftarrow> get_slim_header m;
     (t, i) \<leftarrow> slim_header_get_dst h;
     case msg_type m of
       Some (Subscribe s) \<Rightarrow>
         Some (agent_type_from_strings xx (sub_organization s) (sub_namespace s) (sub_agent_type s), i)
     | _ \<Rightarrow> Some (t, i)
   }"

definition msg_get_name_as_agent :: "message \<Rightarrow> agent option" where
  "msg_get_name_as_agent m = do {
     h \<leftarrow> get_slim_header m;
     (t, i) \<leftarrow> slim_header_get_dst h;
     Some (agent_new t (case i of None \<Rightarrow> DEFAULT_AGENT_ID | Some i \<Rightarrow> i))
   }"

definition msg_get_payload :: "message \<Rightarrow> content option option" where
  "msg_get_payload m = (case msg_type m of Some (Publish p) \<Rightarrow> Some (pub_msg p) | _ \<Rightarrow> None)"

definition msg_get_header_type :: "message \<Rightarrow> session_header_type option" where
  "msg_get_header_type m = do { h \<leftarrow> get_session_header m; Some (header_type_of_i32 (se_header_type h)) }"

definition msg_clear_slim_header :: "message \<Rightarrow> message option" where
  "msg_clear_slim_header = get_slim_header_mut slim_header_clear"

definition msg_set_recv_from :: "u64 option \<Rightarrow> message \<Rightarrow> message option" where
  "msg_set_recv_from c = get_slim_header_mut (slim_header_set_recv_from c)"

definition msg_set_forward_to :: "u64 option \<Rightarrow> message \<Rightarrow> message option" where
  "msg_set_forward_to c = get_slim_header_mut (slim_header_set_forward_to c)"

definition msg_set_error :: "bool option \<Rightarrow> message \<Rightarrow> message option" where
  "msg_set_error e = get_slim_header_mut (slim_header_set_error e)"

definition msg_set_fanout :: "u32 \<Rightarrow> message \<Rightarrow> message option" where
  "msg_set_fanout n = get_slim_header_mut (slim_header_set_fanout n)"

definition msg_set_incoming_conn :: "u64 option \<Rightarrow> message \<Rightarrow> message option" where
  "msg_set_incoming_conn c = get_slim_header_mut (slim_header_set_incoming_conn c)"

definition msg_set_header_type :: "session_header_type \<Rightarrow> message \<Rightarrow> message option" where
  "msg_set_header_type t = get_session_header_mut (session_header_set_header_type t)"

definition msg_set_message_id :: "u32 \<Rightarrow> message \<Rightarrow> message option" where
  "msg_set_message_id i = get_session_header_mut (session_header_set_message_id i)"

definition is_publish :: "message \<Rightarrow> bool option" where
  "is_publish m = map_option (\<lambda>t. case t of Publish _ \<Rightarrow> True | _ \<Rightarrow> False) (msg_type m)"

definition is_subscribe :: "message \<Rightarrow> bool option" where
  "is_subscribe m = map_option (\<lambda>t. case t of Subscribe _ \<Rightarrow> True | _ \<Rightarrow> False) (msg_type m)"

definition is_unsubscribe :: "message \<Rightarrow> bool option" where
  "is_unsubscribe m = map_option (\<lambda>t. case t of Unsubscribe _ \<Rightarrow> True | _ \<Rightarrow> False) (msg_type m)"

section \<open>Header references\<close>

text \<open>
  What a caller relies on when it writes through a mutable reference to a part of a message: the
  write panics exactly when the read does, it acts on that part, and writes compose.
\<close>

locale header_ref =
  fixes rd :: "'m \<Rightarrow> 'h option"
    and wr :: "('h \<Rightarrow> 'h) \<Rightarrow> 'm \<Rightarrow> 'm option"
  assumes wr_defined: "rd m = Some h \<Longrightarrow> \<exists>m'. wr f m = Some m' \<and> rd m' = Some (f h)"
    and wr_panics: "rd m = None \<Longrightarrow> wr f m = None"
    and wr_wr: "wr f m = Some m' \<Longrightarrow> wr g m' = wr (\<lambda>h. g (f h)) m"
begin

lemma rd_wr: "wr f m = Some m' \<Longrightarrow> rd m' = map_option f (rd m)"
  using wr_defined [of m _ f] wr_panics [of m f] by (cases "rd m") auto

lemma wr_panic_iff: "wr f m = None \<longleftrightarrow> rd m = None"
  using wr_defined [of m _ f] wr_panics [of m f] by (cases "rd m") auto

lemma wr_last_wins:
  assumes "\<And>h. g (f h) = g h" and "wr f m = Some m'"
  shows "wr g m' = wr g m"
  using wr_wr [OF assms(2), of g] assms(1) by simp

end

lemma message_kinds:
  fixes t :: "message_type option"
  obtains "t = None" | p where "t = Some (Publish p)" | s where "t = Some (Subscribe s)"
  | u where "t = Some (Unsubscribe u)"
  using message_type.exhaust by (metis not_None_eq)

interpretation slim_ref: header_ref get_slim_header get_slim_header_mut
proof (unfold_locales, goal_cases)
  case (1 m h f)
  then show ?case
    by (cases "msg_type m" rule: message_kinds) (auto simp: get_slim_header_def get_slim_header_mut_def)
next
  case (2 m f)
  then show ?case
    by (auto simp: get_slim_header_def get_slim_header_mut_def split: option.splits message_type.splits)
next
  case (3 f m m' g)
  then show ?case
    by (auto simp: get_slim_header_mut_def bind_eq_Some_conv split: option.splits message_type.splits)
qed

interpretation session_ref: header_ref get_session_header get_session_header_mut
proof (unfold_locales, goal_cases)
  case (1 m h f)
  then show ?case
    by (cases "msg_type m" rule: message_kinds) (auto simp: get_session_header_def get_session_header_mut_def)
next
  case (2 m f)
  then show ?case
    by (auto simp: get_session_header_def get_session_header_mut_def split: option.splits message_type.splits)
next
  case (3 f m m' g)
  then show ?case
    by (auto simp: get_session_header_mut_def bind_eq_Some_conv split: option.splits message_type.splits)
qed

text \<open>A write through a header leaves the rest of the message alone.\<close>

lemma get_slim_header_mut_frame:
  assumes "get_slim_header_mut f m = Some m'"
  shows "get_session_header m' = get_session_header m"
    and "msg_get_payload m' = msg_get_payload m"
    and "is_publish m' = is_publish m"
    and "is_subscribe m' = is_subscribe m"
    and "is_unsubscribe m' = is_unsubscribe m"
    and "msg_metadata m' = msg_metadata m"
  using assms
  by (cases "msg_type m" rule: message_kinds;
      auto simp: get_slim_header_mut_def get_session_header_def msg_get_payload_def is_publish_def
        is_subscribe_def is_unsubscribe_def bind_eq_Some_conv)+

lemma get_session_header_mut_frame:
  assumes "get_session_header_mut f m = Some m'"
  shows "get_slim_header m' = get_slim_header m"
    and "msg_get_payload m' = msg_get_payload m"
    and "is_publish m' = is_publish m"
    and "msg_metadata m' = msg_metadata m"
  using assms
  by (cases "msg_type m" rule: message_kinds;
      auto simp: get_session_header_mut_def get_slim_header_def msg_get_payload_def is_publish_def
        bind_eq_Some_conv)+

lemma try_get_slim_header_eq: "try_get_slim_header = get_slim_header"
  by (simp add: fun_eq_iff try_get_slim_header_def get_slim_header_def)

lemmas header_writes = msg_get_fanout_def msg_get_recv_from_def msg_get_forward_to_def msg_get_error_def
  msg_get_incoming_conn_def msg_try_get_incoming_conn_def msg_clear_slim_header_def msg_set_recv_from_def
  msg_set_forward_to_def msg_set_error_def msg_set_fanout_def msg_set_incoming_conn_def
  msg_set_header_type_def msg_set_message_id_def get_slim_header_mut_def get_session_header_mut_def

lemmas message_accessors = get_slim_header_def get_session_header_def is_publish_def
  slim_header_get_source_def slim_header_get_dst_def msg_get_source_def msg_get_name_def
  msg_get_name_as_agent_def msg_get_payload_def msg_get_header_type_def msg_get_id_def

section \<open>Properties of messages\<close>

text \<open>What the checks of \<open>validate\<close> amount to.\<close>

fun message_complete :: "message_type option \<Rightarrow> bool" where
  "message_complete None = False"
| "message_complete (Some (Publish p)) =
     (case pub_header p of None \<Rightarrow> False
      | Some h \<Rightarrow> sh_source h \<noteq> None \<and> sh_destination h \<noteq> None \<and> pub_session p \<noteq> None)"
| "message_complete (Some (Subscribe s)) =
     (case sub_header s of None \<Rightarrow> False | Some h \<Rightarrow> sh_source h \<noteq> None \<and> sh_destination h \<noteq> None)"
| "message_complete (Some (Unsubscribe u)) =
     (case unsub_header u of None \<Rightarrow> False | Some h \<Rightarrow> sh_source h \<noteq> None \<and> sh_destination h \<noteq> None)"

lemma validate_complete:
  "\<exists>r. message_validate m = Some r \<and> (r = Inr () \<longleftrightarrow> message_complete (msg_type m))"
  by (cases "msg_type m" rule: message_kinds)
    (auto simp: message_validate_def try_get_slim_header_def get_slim_header_def split: option.splits)

text \<open>
  C15: \<open>validate\<close> never panics, and it accepts exactly the messages that have a type, a SLIM
  header with a source and a destination, and, for a publication, a session header.
\<close>

theorem validate_accepts_complete_messages:
  "\<exists>r. message_validate m = Some r \<and> (r = Inr () \<longleftrightarrow> message_complete (msg_type m))"
  using validate_complete by blast

text \<open>
  C16: which accessors of a validated message panic. Reading the destination name, the fan-out, the
  receive, forward and error fields or the optional incoming connection never does, and neither do the
  writes to the SLIM header. The session header, the payload, the message id and the header type, and
  writing the last two, panic exactly on messages that are not publications; the incoming connection
  exactly when it is unset; the source exactly when it came without an identifier, which \<open>validate\<close>
  does not check.
\<close>

theorem validated_message_readable:
  assumes "message_validate m = Ok ()"
  shows "msg_get_name xx m \<noteq> None \<and> msg_get_name_as_agent m \<noteq> None \<and>
    msg_get_fanout m \<noteq> None \<and> msg_get_recv_from m \<noteq> None \<and> msg_get_forward_to m \<noteq> None \<and>
    msg_get_error m \<noteq> None \<and> msg_try_get_incoming_conn m \<noteq> None \<and>
    msg_clear_slim_header m \<noteq> None \<and> msg_set_recv_from c m \<noteq> None \<and> msg_set_forward_to c m \<noteq> None \<and>
    msg_set_error e m \<noteq> None \<and> msg_set_fanout n m \<noteq> None \<and> msg_set_incoming_conn c m \<noteq> None \<and>
    (get_session_header m = None \<longleftrightarrow> is_publish m \<noteq> Some True) \<and>
    (msg_get_payload m = None \<longleftrightarrow> is_publish m \<noteq> Some True) \<and>
    (msg_get_id m = None \<longleftrightarrow> is_publish m \<noteq> Some True) \<and>
    (msg_get_header_type m = None \<longleftrightarrow> is_publish m \<noteq> Some True) \<and>
    (msg_set_header_type t m = None \<longleftrightarrow> is_publish m \<noteq> Some True) \<and>
    (msg_set_message_id i m = None \<longleftrightarrow> is_publish m \<noteq> Some True) \<and>
    (msg_get_incoming_conn m = None \<longleftrightarrow> msg_try_get_incoming_conn m = Some None) \<and>
    (msg_get_source m = None \<longleftrightarrow>
       (\<exists>h s. get_slim_header m = Some h \<and> sh_source h = Some s \<and> pa_agent_id s = None))"
proof -
  have "message_complete (msg_type m)"
    using assms validate_complete [of m] by simp
  then show ?thesis
    by (cases "msg_type m" rule: message_kinds)
      (auto simp: message_accessors header_writes agent_from_proto_def bind_eq_None_conv split: option.splits)
qed

definition sample_source :: agent where
  "sample_source = agent_new \<lparr>at_organization = 1, at_namespace = 2, at_agent_type = 3, at_strings = None\<rparr> 4"

definition sample_type :: agent_type where
  "sample_type = \<lparr>at_organization = 5, at_namespace = 6, at_agent_type = 7, at_strings = None\<rparr>"

theorem validated_message_readable_witness:
  "msg_get_name (\<lambda>_. 9) (new_publish sample_source sample_type None None ''msg'' [1]) \<noteq> None \<and>
   msg_get_id (new_publish sample_source sample_type None None ''msg'' [1]) \<noteq> None \<and>
   msg_get_incoming_conn (new_publish sample_source sample_type None None ''msg'' [1]) = None \<and>
   msg_get_payload (new_unsubscribe sample_source sample_type None None) = None"
proof -
  let ?m = "new_publish sample_source sample_type None None ''msg'' [1]"
  let ?u = "new_unsubscribe sample_source sample_type None None"
  have "message_validate ?m = Ok ()" "is_publish ?m = Some True" "msg_try_get_incoming_conn ?m = Some None"
    and "message_validate ?u = Ok ()" "is_publish ?u = Some False" by code_simp+
  then show ?thesis using validated_message_readable [of ?m "\<lambda>_. 9"] validated_message_readable [of ?u "\<lambda>_. 9"] by simp
qed

text \<open>
  a publication is valid and carries what it was built from: content type and payload, the
  destination name and its identifier, the fan-out, and, when the sender has an identifier of its
  own, the source name.
\<close>

theorem new_publish_roundtrip:
  "message_validate (new_publish src t i flags ct blob) = Ok () \<and>
   msg_get_payload (new_publish src t i flags ct blob) = Some (Some \<lparr>ct_content_type = ct, ct_blob = blob\<rparr>) \<and>
   (\<exists>t'. msg_get_name xx (new_publish src t i flags ct blob) = Some (t', i) \<and> agent_type_eq t' t) \<and>
   msg_get_fanout (new_publish src t i flags ct blob) =
     Some (case flags of None \<Rightarrow> 1 | Some f \<Rightarrow> fl_fanout f) \<and>
   (case msg_get_source (new_publish src t i flags ct blob) of
      None \<Rightarrow> ag_id src = DEFAULT_AGENT_ID | Some a \<Rightarrow> agent_eq a src)"
proof -
  have "msg_type (new_publish src t i flags ct blob) = Some (Publish \<lparr>
      pub_header = Some (slim_header_new src t i flags), pub_session = Some session_header_default,
      pub_msg = Some \<lparr>ct_content_type = ct, ct_blob = blob\<rparr>\<rparr>)"
    by (simp add: new_publish_def message_new_def publish_new_def publish_with_header_def)
  then show ?thesis
    by (simp add: message_validate_def try_get_slim_header_def message_accessors msg_get_fanout_def
        slim_header_new_def flags_default_def agent_from_proto_agent agent_eq_def agent_new_def Let_def
        split: option.split)
       (simp add: proto_agent_from_type_def)
qed

lemma new_subscribe_spec:
  assumes "agent_type_wf xx t"
  shows "case new_subscribe src t i flags of
      None \<Rightarrow> at_strings t = None
    | Some m \<Rightarrow> at_strings t \<noteq> None \<and> message_validate m = Ok () \<and> msg_get_name xx m = Some (t, i)"
proof (cases "at_strings t")
  case None
  then show ?thesis by (simp add: new_subscribe_def subscribe_new_def organization_string_def)
next
  case (Some s)
  obtain org ns ty where s: "s = (org, ns, ty)" by (cases s) auto
  let ?m = "message_new [] (Subscribe \<lparr>sub_header = Some (slim_header_new src t i flags),
      sub_organization = org, sub_namespace = ns, sub_agent_type = ty\<rparr>)"
  have t: "t = agent_type_from_strings xx org ns ty"
    using assms Some s by (simp add: agent_type_wf_def)
  have "new_subscribe src t i flags = Some ?m"
    unfolding new_subscribe_def subscribe_new_def using Some s
    by (simp add: organization_string_def namespace_string_def agent_type_string_def)
  moreover have "message_validate ?m = Ok ()"
    by (simp add: message_validate_def try_get_slim_header_def get_slim_header_def message_new_def
        slim_header_new_def Let_def)
  moreover have "msg_get_name xx ?m = Some (agent_type_from_strings xx org ns ty, i)"
    by (simp add: msg_get_name_def get_slim_header_def message_new_def slim_header_new_def Let_def
        slim_header_get_dst_def proto_agent_from_type_def)
  ultimately show ?thesis using Some t by simp
qed

lemma new_subscribe_name:
  assumes "agent_type_wf xx t" and "new_subscribe src t i flags = Some m"
  shows "msg_get_name xx m = Some (t, i)" "message_validate m = Ok ()"
  using new_subscribe_spec [OF assms(1), of i src flags] assms(2) by simp_all

lemma new_subscribe_form:
  assumes "new_subscribe src t i flags = Some m"
  shows "get_slim_header m = Some (slim_header_new src t i flags)" "is_subscribe m = Some True"
    "msg_get_source m \<noteq> None \<longleftrightarrow> ag_id src \<noteq> DEFAULT_AGENT_ID"
  using assms by (auto simp: new_subscribe_def subscribe_new_def bind_eq_Some_conv Let_def message_new_def get_slim_header_def
      is_subscribe_def msg_get_source_def slim_header_get_source_def slim_header_new_def agent_from_proto_agent)

lemma new_unsubscribe_form:
  "get_slim_header (new_unsubscribe src t i flags) = Some (slim_header_new src t i flags)"
  "is_unsubscribe (new_unsubscribe src t i flags) = Some True"
  "msg_get_source (new_unsubscribe src t i flags) \<noteq> None \<longleftrightarrow> ag_id src \<noteq> DEFAULT_AGENT_ID"
  "msg_get_name xx (new_unsubscribe src t i flags) = Some (agent_type_from_proto (proto_agent_from_type t i), i)"
  "message_validate (new_unsubscribe src t i flags) = Ok ()"
  by (auto simp: new_unsubscribe_def unsubscribe_new_def message_new_def get_slim_header_def is_unsubscribe_def
      msg_get_source_def slim_header_get_source_def slim_header_new_def agent_from_proto_agent Let_def msg_get_name_def
      slim_header_get_dst_def proto_agent_from_type_def message_validate_def try_get_slim_header_def)

text \<open>
  C17: subscribing to a name panics exactly when the name has no strings. Otherwise the message is
  valid and reading the name from it gives back the name itself, strings included.
\<close>

theorem new_subscribe_roundtrip:
  assumes "agent_type_wf xx t"
  shows "case new_subscribe src t i flags of
      None \<Rightarrow> at_strings t = None
    | Some m \<Rightarrow> at_strings t \<noteq> None \<and> message_validate m = Ok () \<and> msg_get_name xx m = Some (t, i)"
  using assms by (rule new_subscribe_spec)

theorem new_subscribe_roundtrip_witness:
  "\<exists>m. new_subscribe sample_source (agent_type_from_strings (\<lambda>_. 9) ''org'' ''ns'' ''ty'') (Some 1) None = Some m \<and>
     msg_get_name (\<lambda>_. 9) m = Some (agent_type_from_strings (\<lambda>_. 9) ''org'' ''ns'' ''ty'', Some 1)"
  using new_subscribe_roundtrip [of "\<lambda>_. 9" "agent_type_from_strings (\<lambda>_. 9) ''org'' ''ns'' ''ty''" "Some 1" sample_source None]
    agent_type_wf_from_strings at_strings_from_strings
  by (auto split: option.splits)

text \<open>
  a session header type survives the conversion to its number and back, and to its protocol
  name and back.
\<close>

theorem session_header_type_roundtrip:
  "header_type_of_i32 (i32_of_header_type t) = t \<and>
   session_header_type_from_str_name (session_header_type_as_str_name t) = Some t"
  by (cases t) (simp_all add: header_type_of_i32_def i32_of_header_type_def
      session_header_type_from_str_name_def session_header_type_as_str_name_def)

end
