(* ===== verification/Pool.thy ===== *)
theory Pool
  imports Slim_Prelude
begin

text \<open>
  The slab of \<^verbatim>\<open>datapath/src/tables/pool.rs\<close>: a vector of optional elements, a bitmap
  that marks the occupied slots, their number, and the highest occupied index.

  The bitmap is a \<open>BitVec\<close> of the crate \<open>bit_vec\<close>, which is not part of this
  repository: its operations are the argument \<open>BV\<close> of every definition, and the locale
  \<open>bit_vec\<close> states what the pool relies on. Every law of the pool is proved in that locale.
\<close>

section \<open>The bit vector the pool is built on\<close>

record 'b bitvec_ops =
  bv_from_elem :: "nat \<Rightarrow> bool \<Rightarrow> 'b"
  bv_get :: "'b \<Rightarrow> nat \<Rightarrow> bool option"
  bv_set :: "'b \<Rightarrow> nat \<Rightarrow> bool \<Rightarrow> 'b option"
  bv_grow :: "'b \<Rightarrow> nat \<Rightarrow> bool \<Rightarrow> 'b"
  bv_bits :: "'b \<Rightarrow> bool list"

locale bit_vec =
  fixes BV :: "'b bitvec_ops"
  assumes bits_from_elem: "bv_bits BV (bv_from_elem BV n x) = replicate n x"
    and get_bits: "bv_get BV b i = (if i < length (bv_bits BV b) then Some (bv_bits BV b ! i) else None)"
    and set_in_range: "i < length (bv_bits BV b) \<Longrightarrow>
      \<exists>b'. bv_set BV b i x = Some b' \<and> bv_bits BV b' = (bv_bits BV b)[i := x]"
    and set_out_of_range: "length (bv_bits BV b) \<le> i \<Longrightarrow> bv_set BV b i x = None"
    and bits_grow: "bv_bits BV (bv_grow BV b n x) = bv_bits BV b @ replicate n x"

text \<open>A bit vector that satisfies the contract: the list of its bits.\<close>

definition list_bitvec :: "bool list bitvec_ops" where
  "list_bitvec = \<lparr>
     bv_from_elem = (\<lambda>n x. replicate n x),
     bv_get = (\<lambda>b i. if i < length b then Some (b ! i) else None),
     bv_set = (\<lambda>b i x. if i < length b then Some (b[i := x]) else None),
     bv_grow = (\<lambda>b n x. b @ replicate n x),
     bv_bits = (\<lambda>b. b)\<rparr>"

interpretation list_bv: bit_vec list_bitvec
  by unfold_locales (auto simp: list_bitvec_def)

section \<open>The pool and its operations\<close>

record ('b, 'a) pool =
  pool_bitmap :: 'b
  pool_slots :: "'a option list"
  pool_len :: nat
  pool_capacity :: nat
  pool_max_set :: nat

definition pool_with_capacity :: "'b bitvec_ops \<Rightarrow> nat \<Rightarrow> ('b, 'a) pool" where
  "pool_with_capacity BV c = \<lparr>
     pool_bitmap = bv_from_elem BV c False,
     pool_slots = resize_none c [],
     pool_len = 0,
     pool_capacity = c,
     pool_max_set = 0\<rparr>"

definition pool_is_empty :: "('b, 'a) pool \<Rightarrow> bool" where
  "pool_is_empty p = (pool_len p = 0)"

definition pool_get :: "('b, 'a) pool \<Rightarrow> nat \<Rightarrow> 'a option" where
  "pool_get p i = (if i < length (pool_slots p) then pool_slots p ! i else None)"

text \<open>Writing through the reference that \<open>get_mut\<close> returns.\<close>

definition pool_get_mut :: "('b, 'a) pool \<Rightarrow> nat \<Rightarrow> ('a \<Rightarrow> 'a) \<Rightarrow> ('b, 'a) pool" where
  "pool_get_mut p i f =
     (case pool_get p i of
        None \<Rightarrow> p
      | Some x \<Rightarrow> p\<lparr>pool_slots := (pool_slots p)[i := Some (f x)]\<rparr>)"

text \<open>\<open>self.bitmap.get(index).unwrap_or(false)\<close>.\<close>

definition pool_bit :: "'b bitvec_ops \<Rightarrow> ('b, 'a) pool \<Rightarrow> nat \<Rightarrow> bool" where
  "pool_bit BV p i = (case bv_get BV (pool_bitmap p) i of None \<Rightarrow> False | Some x \<Rightarrow> x)"

definition pool_insert_at :: "'b bitvec_ops \<Rightarrow> ('b, 'a) pool \<Rightarrow> 'a \<Rightarrow> nat \<Rightarrow> (bool \<times> ('b, 'a) pool) option" where
  "pool_insert_at BV p x i =
     (if pool_capacity p < i then Some (False, p)
      else do {
        let n = (if \<not> pool_bit BV p i then pool_len p + 1 else pool_len p);
        bm \<leftarrow> bv_set BV (pool_bitmap p) i True;
        if i < length (pool_slots p)
        then Some (True, p\<lparr>
               pool_len := n,
               pool_bitmap := bm,
               pool_slots := (pool_slots p)[i := Some x],
               pool_max_set := (if pool_max_set p < i then i else pool_max_set p)\<rparr>)
        else None
      })"

text \<open>The growth step at the head of \<open>insert\<close>, and \<open>insert\<close>.\<close>

definition pool_grown :: "'b bitvec_ops \<Rightarrow> ('b, 'a) pool \<Rightarrow> ('b, 'a) pool" where
  "pool_grown BV p = (if pool_len p = pool_capacity p
     then p\<lparr>pool_slots := resize_none (2 * pool_capacity p) (pool_slots p),
            pool_bitmap := bv_grow BV (pool_bitmap p) (pool_capacity p) False,
            pool_capacity := 2 * pool_capacity p\<rparr>
     else p)"

definition pool_insert :: "'b bitvec_ops \<Rightarrow> ('b, 'a) pool \<Rightarrow> 'a \<Rightarrow> (nat \<times> ('b, 'a) pool) option" where
  "pool_insert BV p x =
     (let p = pool_grown BV p
      in case position Not (bv_bits BV (pool_bitmap p)) of
           None \<Rightarrow> None
         | Some i \<Rightarrow> do {
             (done, p) \<leftarrow> pool_insert_at BV p x i;
             if done then Some (i, p) else None
           })"

definition pool_remove :: "'b bitvec_ops \<Rightarrow> ('b, 'a) pool \<Rightarrow> nat \<Rightarrow> (bool \<times> ('b, 'a) pool) option" where
  "pool_remove BV p i =
     (if pool_bit BV p i
      then do {
        bm \<leftarrow> bv_set BV (pool_bitmap p) i False;
        if i < length (pool_slots p)
        then let p = p\<lparr>pool_bitmap := bm,
                       pool_slots := (pool_slots p)[i := None],
                       pool_len := pool_len p - 1\<rparr>
             in Some (True,
                  if i = pool_max_set p \<and> i \<noteq> 0
                  then (case find (\<lambda>j. pool_bit BV p j) (rev [0..<i - 1]) of
                          None \<Rightarrow> p
                        | Some j \<Rightarrow> p\<lparr>pool_max_set := j\<rparr>)
                  else p)
        else None
      }
      else Some (False, p))"

text \<open>
  The iterator keeps what is left of the bitmap and the current index. \<open>next\<close> skips the
  clear bits; an iteration ends at the first \<open>None\<close> it returns.
\<close>

fun pool_iter_next :: "('b, 'a) pool \<Rightarrow> bool list \<Rightarrow> nat \<Rightarrow> 'a option \<times> bool list \<times> nat" where
  "pool_iter_next p [] i = (None, [], i)"
| "pool_iter_next p (b # bs) i =
     (if \<not> b then pool_iter_next p bs (i + 1) else (pool_get p i, bs, i + 1))"

lemma pool_iter_next_shorter:
  "pool_iter_next p bs i = (Some x, bs', i') \<Longrightarrow> length bs' < length bs"
  by (induction p bs i rule: pool_iter_next.induct) (auto split: if_splits)

function pool_collect :: "('b, 'a) pool \<Rightarrow> bool list \<Rightarrow> nat \<Rightarrow> 'a list" where
  "pool_collect p bs i =
     (case pool_iter_next p bs i of
        (None, _, _) \<Rightarrow> []
      | (Some x, bs', i') \<Rightarrow> x # pool_collect p bs' i')"
  by pat_completeness auto
termination
  by (relation "measure (\<lambda>(p, bs, i). length bs)") (auto dest: pool_iter_next_shorter [OF sym])

declare pool_collect.simps [simp del]

definition pool_iter :: "'b bitvec_ops \<Rightarrow> ('b, 'a) pool \<Rightarrow> 'a list" where
  "pool_iter BV p = pool_collect p (bv_bits BV (pool_bitmap p)) 0"

section \<open>Invariant and laws\<close>

text \<open>
  Bitmap, slots and counters agree. Nothing is said of \<open>pool_max_set\<close>: that it bounds the
  occupied slots is the separate predicate \<open>pool_covered\<close>, which removal does not always keep.
\<close>

definition pool_inv :: "'b bitvec_ops \<Rightarrow> ('b, 'a) pool \<Rightarrow> bool" where
  "pool_inv BV p \<longleftrightarrow>
     length (pool_slots p) = pool_capacity p \<and>
     length (bv_bits BV (pool_bitmap p)) = pool_capacity p \<and>
     (\<forall>i<pool_capacity p. bv_bits BV (pool_bitmap p) ! i \<longleftrightarrow> pool_slots p ! i \<noteq> None) \<and>
     pool_len p = length (filter (\<lambda>s. s \<noteq> None) (pool_slots p))"

definition pool_covered :: "('b, 'a) pool \<Rightarrow> bool" where
  "pool_covered p \<longleftrightarrow> (\<forall>i. pool_get p i \<noteq> None \<longrightarrow> i \<le> pool_max_set p)"

definition pool_covered_upto :: "('b, 'a) pool \<Rightarrow> bool" where
  "pool_covered_upto p \<longleftrightarrow> list_all (\<lambda>i. Option.is_none (pool_slots p ! i) \<or> i \<le> pool_max_set p) [0..<length (pool_slots p)]"

lemma pool_covered_upto: "pool_covered_upto p \<longleftrightarrow> pool_covered p"
  unfolding pool_covered_upto_def pool_covered_def pool_get_def list_all_iff Option.is_none_def
  by (metis atLeast_upt lessThan_iff)

lemma pool_get_none_above: "length (pool_slots p) \<le> i \<Longrightarrow> pool_get p i = None"
  by (simp add: pool_get_def)

lemma pool_get_SomeD: "pool_get p i = Some x \<Longrightarrow> i < length (pool_slots p) \<and> pool_slots p ! i = Some x"
  by (auto simp: pool_get_def split: if_splits)

context bit_vec
begin

lemma pool_bit_iff: "pool_inv BV p \<Longrightarrow> pool_bit BV p i \<longleftrightarrow> pool_get p i \<noteq> None"
  by (auto simp: pool_bit_def pool_get_def pool_inv_def get_bits)

lemma pool_inv_with_capacity: "pool_inv BV (pool_with_capacity BV c)"
  by (simp add: pool_inv_def pool_with_capacity_def bits_from_elem resize_none_def)

lemma pool_get_with_capacity [simp]: "pool_get (pool_with_capacity BV c) i = None"
  by (simp add: pool_get_def pool_with_capacity_def resize_none_def)

lemma pool_covered_with_capacity: "pool_covered (pool_with_capacity BV c)"
  by (simp add: pool_covered_def)

lemma pool_insert_at_in_range:
  assumes inv: "pool_inv BV p" and i: "i < pool_capacity p"
  shows "\<exists>p'. pool_insert_at BV p x i = Some (True, p') \<and> pool_inv BV p' \<and>
    pool_get p' = (pool_get p)(i := Some x) \<and>
    pool_len p' = (if pool_get p i = None then pool_len p + 1 else pool_len p) \<and>
    pool_capacity p' = pool_capacity p \<and>
    pool_max_set p' = max (pool_max_set p) i"
proof -
  from inv i obtain bm where bm: "bv_set BV (pool_bitmap p) i True = Some bm"
      "bv_bits BV bm = (bv_bits BV (pool_bitmap p))[i := True]"
    using set_in_range by (metis pool_inv_def)
  have cnt: "length (filter (\<lambda>s. s \<noteq> None) ((pool_slots p)[i := Some x]))
      = pool_len p + (if pool_slots p ! i = None then 1 else 0)"
    using inv i length_filter_update [of i "pool_slots p" "\<lambda>s. s \<noteq> None" "Some x"]
    by (auto simp: pool_inv_def split: if_splits)
  show ?thesis
    using inv i bm cnt pool_bit_iff [OF inv, of i]
    by (auto simp: pool_insert_at_def pool_inv_def pool_get_def nth_list_update fun_eq_iff max_def)
qed

lemma pool_insert_at_capacity:
  "pool_inv BV p \<Longrightarrow> pool_insert_at BV p x (pool_capacity p) = None"
  by (simp add: pool_insert_at_def pool_inv_def set_out_of_range)

lemma pool_insert_at_beyond:
  "pool_capacity p < i \<Longrightarrow> pool_insert_at BV p x i = Some (False, p)"
  by (simp add: pool_insert_at_def)

end

lemma pool_get_grown: "length (pool_slots p) = pool_capacity p \<Longrightarrow> pool_get (pool_grown BV p) = pool_get p"
  by (auto simp: fun_eq_iff pool_get_def pool_grown_def nth_resize_none)

lemma pool_grown_fields [simp]:
  "pool_len (pool_grown BV p) = pool_len p"
  "pool_max_set (pool_grown BV p) = pool_max_set p"
  by (simp_all add: pool_grown_def)

context bit_vec
begin

lemma pool_inv_grown: "pool_inv BV p \<Longrightarrow> pool_inv BV (pool_grown BV p)"
  by (auto simp: pool_inv_def pool_grown_def bits_grow resize_none_def nth_append)

lemma pool_grown_free:
  assumes inv: "pool_inv BV p" and c: "0 < pool_capacity p"
  shows "pool_len (pool_grown BV p) < pool_capacity (pool_grown BV p)"
proof -
  have "pool_len p \<le> pool_capacity p"
    using inv length_filter_le [of "\<lambda>s. s \<noteq> None" "pool_slots p"] by (simp add: pool_inv_def)
  then show ?thesis using c by (auto simp: pool_grown_def)
qed

lemma pool_first_clear:
  assumes inv: "pool_inv BV p" and free: "pool_len p < pool_capacity p"
  obtains i where "position Not (bv_bits BV (pool_bitmap p)) = Some i" "i < pool_capacity p"
    "pool_get p i = None" "\<forall>j<i. pool_get p j \<noteq> None"
proof -
  have "length (filter (\<lambda>s. s \<noteq> None) (pool_slots p)) \<noteq> length (pool_slots p)"
    using inv free by (simp add: pool_inv_def)
  then obtain s where "s \<in> set (pool_slots p)" "s = None"
    unfolding filter_all_length by blast
  then obtain k where k: "k < pool_capacity p" "pool_slots p ! k = None"
    using inv by (auto simp: in_set_conv_nth pool_inv_def)
  let ?bits = "bv_bits BV (pool_bitmap p)"
  have len: "length ?bits = pool_capacity p" and agree: "\<And>j. j < pool_capacity p \<Longrightarrow> ?bits ! j \<longleftrightarrow> pool_get p j \<noteq> None"
    using inv by (simp_all add: pool_inv_def pool_get_def)
  have "\<not> ?bits ! k" using k agree inv by (simp add: pool_get_def pool_inv_def)
  then have "position Not ?bits \<noteq> None" using k(1) len nth_mem [of k ?bits] by (metis position_None)
  then obtain i where i: "position Not ?bits = Some i" by auto
  then have i': "i < pool_capacity p" "\<not> ?bits ! i" "\<forall>j<i. ?bits ! j"
    unfolding position_Some len by simp_all
  show ?thesis
  proof (rule that [OF i i'(1)])
    show "pool_get p i = None" using agree [OF i'(1)] i'(2) by simp
    show "\<forall>j<i. pool_get p j \<noteq> None" using agree i' by force
  qed
qed

lemma pool_insert_spec:
  assumes inv: "pool_inv BV p" and c: "0 < pool_capacity p"
  shows "\<exists>i p'. pool_insert BV p x = Some (i, p') \<and> pool_inv BV p' \<and>
    pool_get p i = None \<and> (\<forall>j<i. pool_get p j \<noteq> None) \<and>
    pool_get p' = (pool_get p)(i := Some x) \<and>
    pool_len p' = pool_len p + 1 \<and> pool_capacity p \<le> pool_capacity p' \<and>
    pool_max_set p' = max (pool_max_set p) i"
proof -
  let ?g = "pool_grown BV p"
  have ginv: "pool_inv BV ?g" and get: "pool_get ?g = pool_get p"
    using inv pool_inv_grown pool_get_grown by (auto simp: pool_inv_def)
  obtain i where i: "position Not (bv_bits BV (pool_bitmap ?g)) = Some i" "i < pool_capacity ?g"
      "pool_get ?g i = None" "\<forall>j<i. pool_get ?g j \<noteq> None"
    using pool_first_clear [OF ginv pool_grown_free [OF inv c]] .
  obtain p' where p': "pool_insert_at BV ?g x i = Some (True, p')" "pool_inv BV p'"
      "pool_get p' = (pool_get ?g)(i := Some x)" "pool_len p' = pool_len p + 1"
      "pool_capacity p' = pool_capacity ?g" "pool_max_set p' = max (pool_max_set p) i"
    using pool_insert_at_in_range [OF ginv i(2), of x] i(3) by auto
  have "pool_insert BV p x = Some (i, p')"
    using i(1) p'(1) by (simp add: pool_insert_def)
  moreover have "pool_capacity p \<le> pool_capacity ?g" by (simp add: pool_grown_def)
  ultimately show ?thesis using p' i(3,4) unfolding get by (intro exI [of _ i] exI [of _ p']) simp
qed

lemma pool_insert_capacity_zero:
  assumes "pool_inv BV p" "pool_capacity p = 0"
  shows "pool_insert BV p x = None"
  using assms by (simp add: pool_insert_def pool_grown_def pool_inv_def bits_grow)

lemma pool_insert_covered:
  assumes "pool_insert BV p x = Some (i, p')" "pool_inv BV p" "0 < pool_capacity p" "pool_covered p"
  shows "pool_covered p'"
  using pool_insert_spec [OF assms(2,3), of x] assms(1,4) by (auto simp: pool_covered_def max_def)

lemma pool_remove_absent:
  "pool_inv BV p \<Longrightarrow> pool_get p i = None \<Longrightarrow> pool_remove BV p i = Some (False, p)"
  using pool_bit_iff [of p i] by (simp add: pool_remove_def)

text \<open>The index a successful removal leaves in \<open>max_set\<close>.\<close>

lemma pool_remove_present:
  assumes inv: "pool_inv BV p" and x: "pool_get p i = Some x"
  shows "\<exists>p'. pool_remove BV p i = Some (True, p') \<and> pool_inv BV p' \<and>
    pool_get p' = (pool_get p)(i := None) \<and> pool_len p = pool_len p' + 1 \<and>
    pool_capacity p' = pool_capacity p \<and>
    pool_max_set p' =
      (if i = pool_max_set p \<and> i \<noteq> 0
       then (case find (\<lambda>j. pool_get p j \<noteq> None) (rev [0..<i - 1]) of
               None \<Rightarrow> pool_max_set p | Some j \<Rightarrow> j)
       else pool_max_set p)"
proof -
  have i: "i < pool_capacity p" "pool_slots p ! i = Some x"
    using inv pool_get_SomeD [OF x] by (auto simp: pool_inv_def)
  from inv i obtain bm where bm: "bv_set BV (pool_bitmap p) i False = Some bm"
      "bv_bits BV bm = (bv_bits BV (pool_bitmap p))[i := False]"
    using set_in_range by (metis pool_inv_def)
  have cnt: "length (filter (\<lambda>s. s \<noteq> None) ((pool_slots p)[i := None])) + 1 = pool_len p"
    using inv i length_filter_update [of i "pool_slots p" "\<lambda>s. s \<noteq> None" None]
    by (auto simp: pool_inv_def)
  define q where "q = p\<lparr>pool_bitmap := bm, pool_slots := (pool_slots p)[i := None],
    pool_len := pool_len p - 1\<rparr>"
  have q: "pool_inv BV q" "pool_get q = (pool_get p)(i := None)"
    using inv i bm cnt by (auto simp: q_def pool_inv_def pool_get_def nth_list_update fun_eq_iff)
  have bits: "find (\<lambda>j. pool_bit BV q j) (rev [0..<i - 1]) = find (\<lambda>j. pool_get p j \<noteq> None) (rev [0..<i - 1])"
    by (rule find_cong) (auto simp: pool_bit_iff [OF q(1)] q(2))
  have bit: "pool_bit BV p i" and len: "i < length (pool_slots p)"
    using inv i x by (auto simp: pool_bit_iff pool_inv_def)
  have eq: "pool_remove BV p i = Some (True,
       if i = pool_max_set q \<and> i \<noteq> 0
       then (case find (\<lambda>j. pool_bit BV q j) (rev [0..<i - 1]) of None \<Rightarrow> q | Some j \<Rightarrow> q\<lparr>pool_max_set := j\<rparr>)
       else q)"
    unfolding pool_remove_def Let_def q_def using bit len bm(1) by simp
  have inv': "pool_inv BV (q\<lparr>pool_max_set := j\<rparr>)" "pool_get (q\<lparr>pool_max_set := j\<rparr>) = pool_get q" for j
    using q(1) by (auto simp: pool_inv_def pool_get_def)
  have "pool_len p = pool_len q + 1" "pool_capacity q = pool_capacity p" "pool_max_set q = pool_max_set p"
    using cnt by (auto simp: q_def)
  then show ?thesis unfolding eq bits using q inv' by (auto split: option.split)
qed

end

context bit_vec
begin

text \<open>
  When does a removal keep the highest index a bound of the occupied slots? The downward scan
  starts two below the removed index, so it fails exactly when the slot just below is occupied
  and a lower one is too.
\<close>

lemma pool_remove_covered:
  assumes inv: "pool_inv BV p" and cov: "pool_covered p"
    and rem: "pool_remove BV p i = Some (True, p')"
  shows "pool_covered p' \<longleftrightarrow>
    \<not> (i = pool_max_set p \<and> 0 < i \<and> pool_get p (i - 1) \<noteq> None \<and> (\<exists>j<i - 1. pool_get p j \<noteq> None))"
proof -
  have "pool_get p i \<noteq> None" using pool_remove_absent [OF inv, of i] rem by fastforce
  then obtain x where x: "pool_get p i = Some x" by blast
  let ?f = "find (\<lambda>j. pool_get p j \<noteq> None) (rev [0..<i - 1])"
  obtain q where q: "pool_remove BV p i = Some (True, q)" "pool_get q = (pool_get p)(i := None)"
      "pool_max_set q = (if i = pool_max_set p \<and> i \<noteq> 0
         then (case ?f of None \<Rightarrow> pool_max_set p | Some j \<Rightarrow> j) else pool_max_set p)"
    using pool_remove_present [OF inv x] by blast
  have "q = p'" using q(1) rem by simp
  note get = q(2) [unfolded this] and mx = q(3) [unfolded this]
  have bound: "j \<le> pool_max_set p" if "pool_get p j \<noteq> None" for j
    using cov that unfolding pool_covered_def by blast
  have other: "pool_get p' k = pool_get p k" if "k \<noteq> i" for k using that by (simp add: get)
  have same: "pool_covered p'" if "pool_max_set p' = pool_max_set p"
    unfolding pool_covered_def that
  proof (intro allI impI)
    fix k assume "pool_get p' k \<noteq> None"
    then have "k \<noteq> i" "pool_get p k \<noteq> None" using other [of k] by (auto simp: get split: if_splits)
    then show "k \<le> pool_max_set p" using bound by blast
  qed
  show ?thesis
  proof (cases "i = pool_max_set p \<and> 0 < i")
    case False
    then have "pool_max_set p' = pool_max_set p" unfolding mx by auto
    then show ?thesis using same False by blast
  next
    case top: True
    show ?thesis
    proof (cases ?f)
      case None
      then have "pool_max_set p' = pool_max_set p" unfolding mx using top by simp
      then have "pool_covered p'" by (rule same)
      moreover have "\<not> (\<exists>j<i - 1. pool_get p j \<noteq> None)"
        using None unfolding find_rev_upt_None by blast
      ultimately show ?thesis by blast
    next
      case (Some j)
      then have j: "j < i - 1" "pool_get p j \<noteq> None" "\<And>k. j < k \<Longrightarrow> k < i - 1 \<Longrightarrow> pool_get p k = None"
        unfolding find_rev_upt_Some by blast+
      have mj: "pool_max_set p' = j" unfolding mx using top Some by simp
      have below: "i - 1 \<noteq> i" using top by linarith
      have "pool_covered p' \<longleftrightarrow> pool_get p (i - 1) = None"
      proof
        assume "pool_covered p'"
        then have "pool_get p' (i - 1) = None \<or> i - 1 \<le> j" unfolding pool_covered_def mj by blast
        then show "pool_get p (i - 1) = None" using j(1) other [OF below] by (metis leD)
      next
        assume n: "pool_get p (i - 1) = None"
        show "pool_covered p'"
          unfolding pool_covered_def mj
        proof (intro allI impI, rule ccontr)
          fix k assume k: "pool_get p' k \<noteq> None" "\<not> k \<le> j"
          have "k \<noteq> i" using k(1) by (auto simp: get)
          moreover from this have pk: "pool_get p k \<noteq> None" using k(1) other by simp
          moreover have "k \<le> i" using bound [OF pk] top by simp
          moreover have "k \<noteq> i - 1" using pk n by metis
          ultimately have "k < i - 1" by linarith
          then show False using j(3) [of k] k(2) pk by simp
        qed
      qed
      moreover have "\<exists>j<i - 1. pool_get p j \<noteq> None" using j(1,2) by (intro exI [of _ j] conjI)
      ultimately show ?thesis using top by argo
    qed
  qed
qed

lemma pool_collect_Nil [simp]: "pool_collect p [] i = []"
  by (simp add: pool_collect.simps)

lemma pool_collect_bits:
  "(\<And>j. j < length bs \<Longrightarrow> bs ! j \<longleftrightarrow> pool_get p (i + j) \<noteq> None) \<Longrightarrow>
   pool_collect p bs i = map (\<lambda>j. the (pool_get p j)) (filter (\<lambda>j. pool_get p j \<noteq> None) [i..<i + length bs])"
proof (induction bs arbitrary: i)
  case (Cons b bs)
  have tail: "bs ! j \<longleftrightarrow> pool_get p (Suc i + j) \<noteq> None" if "j < length bs" for j
    using Cons.prems [of "Suc j"] that by simp
  have b: "b \<longleftrightarrow> pool_get p i \<noteq> None" using Cons.prems [of 0] by simp
  have upt: "[i..<i + length (b # bs)] = i # [Suc i..<Suc i + length bs]"
    using upt_conv_Cons [of i "i + length (b # bs)"] by simp
  have "pool_collect p (b # bs) i =
      (if b then the (pool_get p i) # pool_collect p bs (Suc i) else pool_collect p bs (Suc i))"
    using b by (subst pool_collect.simps, subst (2) pool_collect.simps) auto
  then show ?case unfolding upt using Cons.IH [of "Suc i"] tail b by simp
qed simp

lemma pool_iter_spec:
  "pool_inv BV p \<Longrightarrow>
   pool_iter BV p = map (\<lambda>j. the (pool_get p j)) (filter (\<lambda>j. pool_get p j \<noteq> None) [0..<pool_capacity p])"
  unfolding pool_iter_def using pool_collect_bits [of "bv_bits BV (pool_bitmap p)" p 0]
  by (simp add: pool_inv_def pool_get_def)

end

section \<open>The contract of a slot pool\<close>

text \<open>
  What the tables rely on: a partial map from indices to elements in which an insertion takes the
  least free index. Runs of operations follow the map, and never panic.
\<close>

datatype 'a slot_op = Slot_Insert 'a | Slot_Remove nat

datatype slot_result = Slot_Index nat | Slot_Removed bool

fun slot_run :: "('p \<Rightarrow> 'a \<Rightarrow> (nat \<times> 'p) option) \<Rightarrow> ('p \<Rightarrow> nat \<Rightarrow> (bool \<times> 'p) option) \<Rightarrow>
    'a slot_op list \<Rightarrow> 'p \<Rightarrow> (slot_result list \<times> 'p) option" where
  "slot_run ins rem [] p = Some ([], p)"
| "slot_run ins rem (Slot_Insert x # ops) p = do {
     (i, p) \<leftarrow> ins p x;
     (rs, p) \<leftarrow> slot_run ins rem ops p;
     Some (Slot_Index i # rs, p)
   }"
| "slot_run ins rem (Slot_Remove i # ops) p = do {
     (b, p) \<leftarrow> rem p i;
     (rs, p) \<leftarrow> slot_run ins rem ops p;
     Some (Slot_Removed b # rs, p)
   }"

fun slot_spec :: "'a slot_op list \<Rightarrow> (nat \<rightharpoonup> 'a) \<Rightarrow> slot_result list \<Rightarrow> (nat \<rightharpoonup> 'a) \<Rightarrow> bool" where
  "slot_spec [] m rs m' \<longleftrightarrow> rs = [] \<and> m' = m"
| "slot_spec (Slot_Insert x # ops) m rs m' \<longleftrightarrow>
     (\<exists>i rs'. rs = Slot_Index i # rs' \<and> m i = None \<and> (\<forall>j<i. m j \<noteq> None) \<and>
        slot_spec ops (m(i \<mapsto> x)) rs' m')"
| "slot_spec (Slot_Remove i # ops) m rs m' \<longleftrightarrow>
     (\<exists>rs'. rs = Slot_Removed (m i \<noteq> None) # rs' \<and> slot_spec ops (m(i := None)) rs' m')"

locale slot_pool =
  fixes invar :: "'p \<Rightarrow> bool"
    and get :: "'p \<Rightarrow> nat \<Rightarrow> 'a option"
    and ins :: "'p \<Rightarrow> 'a \<Rightarrow> (nat \<times> 'p) option"
    and rem :: "'p \<Rightarrow> nat \<Rightarrow> (bool \<times> 'p) option"
  assumes insert_least: "invar p \<Longrightarrow> \<exists>i p'. ins p x = Some (i, p') \<and> invar p' \<and>
      get p i = None \<and> (\<forall>j<i. get p j \<noteq> None) \<and> get p' = (get p)(i \<mapsto> x)"
    and remove_clears: "invar p \<Longrightarrow> \<exists>p'. rem p i = Some (get p i \<noteq> None, p') \<and> invar p' \<and>
      get p' = (get p)(i := None)"
begin

lemma slot_run_refines:
  "invar p \<Longrightarrow> \<exists>rs p'. slot_run ins rem ops p = Some (rs, p') \<and> invar p' \<and>
     slot_spec ops (get p) rs (get p')"
proof (induction ops arbitrary: p)
  case (Cons op ops)
  show ?case
  proof (cases op)
    case (Slot_Insert x)
    obtain i q where q: "ins p x = Some (i, q)" "invar q" "get p i = None" "\<forall>j<i. get p j \<noteq> None"
        "get q = (get p)(i \<mapsto> x)"
      using insert_least [OF Cons.prems] by blast
    then obtain rs p' where "slot_run ins rem ops q = Some (rs, p')" "invar p'"
        "slot_spec ops (get q) rs (get p')"
      using Cons.IH by blast
    with q Slot_Insert show ?thesis by (intro exI [of _ "Slot_Index i # rs"] exI [of _ p']) simp
  next
    case (Slot_Remove i)
    obtain q where q: "rem p i = Some (get p i \<noteq> None, q)" "invar q" "get q = (get p)(i := None)"
      using remove_clears [OF Cons.prems] by blast
    then obtain rs p' where "slot_run ins rem ops q = Some (rs, p')" "invar p'"
        "slot_spec ops (get q) rs (get p')"
      using Cons.IH by blast
    with q Slot_Remove show ?thesis
      by (intro exI [of _ "Slot_Removed (get p i \<noteq> None) # rs"] exI [of _ p']) simp
  qed
qed simp

end

sublocale bit_vec \<subseteq> slots: slot_pool "\<lambda>p. pool_inv BV p \<and> 0 < pool_capacity p" pool_get "pool_insert BV" "pool_remove BV"
proof (unfold_locales, goal_cases)
  case (1 p x)
  then obtain i p' where "pool_insert BV p x = Some (i, p')" "pool_inv BV p'" "pool_get p i = None"
      "\<forall>j<i. pool_get p j \<noteq> None" "pool_get p' = (pool_get p)(i := Some x)"
      "pool_capacity p \<le> pool_capacity p'"
    using pool_insert_spec [of p x] by blast
  then show ?case using 1 by (intro exI [of _ i] exI [of _ p']) simp
next
  case (2 p i)
  show ?case
  proof (cases "pool_get p i")
    case None
    then show ?thesis using 2 pool_remove_absent [of p i]
      by (intro exI [of _ p]) (simp add: fun_upd_idem)
  next
    case (Some x)
    then obtain p' where "pool_remove BV p i = Some (True, p')" "pool_inv BV p'"
        "pool_get p' = (pool_get p)(i := None)" "pool_capacity p' = pool_capacity p"
      using 2 pool_remove_present [of p i x] by blast
    then show ?thesis using 2 Some by (intro exI [of _ p']) simp
  qed
qed

context bit_vec
begin

lemma pool_run_from_empty:
  fixes ops :: "'x slot_op list"
  assumes "0 < c"
  shows "\<exists>rs p. slot_run (pool_insert BV) (pool_remove BV) ops (pool_with_capacity BV c) = Some (rs, p) \<and>
    pool_inv BV p \<and> slot_spec ops Map.empty rs (pool_get p)"
proof -
  define p0 :: "('b, 'x) pool" where "p0 = pool_with_capacity BV c"
  have "pool_inv BV p0 \<and> 0 < pool_capacity p0" "pool_get p0 = Map.empty"
    using assms pool_inv_with_capacity by (auto simp: p0_def fun_eq_iff) (simp add: pool_with_capacity_def)
  then show ?thesis using slots.slot_run_refines [of p0 ops] unfolding p0_def by auto
qed

end

section \<open>Properties of the pool\<close>

text \<open>
  C12: starting from an empty pool of positive capacity, every sequence of insertions and removals
  runs without a panic, keeps bitmap, slots and counters consistent, and behaves as a partial map
  in which an insertion takes the least free index and a removal reports whether the index was
  occupied.
\<close>

theorem pool_run_refines_map:
  assumes "bit_vec BV" and "0 < c"
  shows "\<exists>rs p. slot_run (pool_insert BV) (pool_remove BV) ops (pool_with_capacity BV c) = Some (rs, p) \<and>
    pool_inv BV p \<and> slot_spec ops Map.empty rs (pool_get p)"
  using assms by (rule bit_vec.pool_run_from_empty)

theorem pool_run_refines_map_witness:
  "bit_vec list_bitvec \<and>
   (\<exists>rs p. slot_run (pool_insert list_bitvec) (pool_remove list_bitvec)
        [Slot_Insert 5, Slot_Insert (7::nat), Slot_Remove 0, Slot_Insert 9]
        (pool_with_capacity list_bitvec 1) = Some (rs, p) \<and>
      pool_inv list_bitvec p \<and>
      slot_spec [Slot_Insert 5, Slot_Insert 7, Slot_Remove 0, Slot_Insert 9] Map.empty rs (pool_get p))"
  using pool_run_refines_map [OF list_bv.bit_vec_axioms, of 1
      "[Slot_Insert 5, Slot_Insert (7::nat), Slot_Remove 0, Slot_Insert 9]"]
    list_bv.bit_vec_axioms by simp

text \<open>
  C21: after a successful removal the field \<open>max_set\<close> still bounds the occupied slots unless
  the removed slot was the highest one, the slot just below it is occupied and a further one below
  that is occupied too. In that case, and only then, the scan (which starts two below the removed
  index) leaves \<open>max_set\<close> under a live slot.
\<close>

theorem pool_remove_keeps_max_set:
  assumes "bit_vec BV" and "pool_inv BV p" and "pool_covered p"
    and "pool_remove BV p i = Some (True, p')"
  shows "pool_covered p' \<longleftrightarrow>
    \<not> (i = pool_max_set p \<and> 0 < i \<and> pool_get p (i - 1) \<noteq> None \<and> (\<exists>j<i - 1. pool_get p j \<noteq> None))"
  using assms by (rule bit_vec.pool_remove_covered)

definition three_slots :: "(bool list, nat) pool" where
  "three_slots = \<lparr>pool_bitmap = [True, True, True], pool_slots = [Some 10, Some 11, Some 12],
     pool_len = 3, pool_capacity = 3, pool_max_set = 2\<rparr>"

lemma three_slots_ok: "pool_inv list_bitvec three_slots" "pool_covered three_slots"
  by (auto simp: pool_inv_def pool_covered_def pool_get_def three_slots_def list_bitvec_def
      nth_Cons split: if_splits nat.splits)

theorem pool_remove_keeps_max_set_witness:
  "\<exists>p'. pool_remove list_bitvec three_slots 2 = Some (True, p') \<and> \<not> pool_covered p'"
proof -
  have "\<exists>p'. pool_remove list_bitvec three_slots 2 = Some (True, p')"
    by (simp add: pool_remove_def pool_bit_def three_slots_def list_bitvec_def)
  then obtain p' where p': "pool_remove list_bitvec three_slots 2 = Some (True, p')" by blast
  have "pool_max_set three_slots = 2" "pool_get three_slots 1 = Some 11" "pool_get three_slots 0 = Some 10"
    by (simp_all add: three_slots_def pool_get_def)
  then have "\<not> pool_covered p'"
    using pool_remove_keeps_max_set [OF list_bv.bit_vec_axioms three_slots_ok p'] by auto
  then show ?thesis using p' by blast
qed

text \<open>
  the iterator of a consistent pool lists exactly the elements of the occupied slots, in the
  order of their indices.
\<close>

theorem pool_iter_lists_slots:
  assumes "bit_vec BV" and "pool_inv BV p"
  shows "pool_iter BV p =
    map (\<lambda>j. the (pool_get p j)) (filter (\<lambda>j. pool_get p j \<noteq> None) [0..<pool_capacity p])"
  using assms by (rule bit_vec.pool_iter_spec)

theorem pool_iter_lists_slots_witness: "pool_iter list_bitvec three_slots = [10, 11, 12]"
  using pool_iter_lists_slots [OF list_bv.bit_vec_axioms three_slots_ok(1)]
  by (simp add: three_slots_def pool_get_def upt_rec)

end
