(* ===== verification/Connection_Table.thy ===== *)
theory Connection_Table
  imports Pool
begin

text \<open>
  The connection table of \<^verbatim>\<open>datapath/src/tables/connection_table.rs\<close>: a pool of shared
  connections behind a lock. Every operation holds the lock for its whole body, so it is one
  atomic step on the pool; the reference count of the \<open>Arc\<close> is immaterial here.
\<close>

type_synonym ('b, 'c) connection_table = "('b, 'c) pool"

definition connection_table_with_capacity :: "'b bitvec_ops \<Rightarrow> nat \<Rightarrow> ('b, 'c) connection_table" where
  "connection_table_with_capacity BV c = pool_with_capacity BV c"

definition connection_table_insert ::
    "'b bitvec_ops \<Rightarrow> ('b, 'c) connection_table \<Rightarrow> 'c \<Rightarrow> (nat \<times> ('b, 'c) connection_table) option" where
  "connection_table_insert BV t conn = pool_insert BV t conn"

definition connection_table_insert_at ::
    "'b bitvec_ops \<Rightarrow> ('b, 'c) connection_table \<Rightarrow> 'c \<Rightarrow> nat \<Rightarrow> (bool \<times> ('b, 'c) connection_table) option" where
  "connection_table_insert_at BV t conn i = pool_insert_at BV t conn i"

definition connection_table_remove ::
    "'b bitvec_ops \<Rightarrow> ('b, 'c) connection_table \<Rightarrow> nat \<Rightarrow> (bool \<times> ('b, 'c) connection_table) option" where
  "connection_table_remove BV t i = pool_remove BV t i"

definition connection_table_len :: "('b, 'c) connection_table \<Rightarrow> nat" where
  "connection_table_len t = pool_len t"

definition connection_table_capacity :: "('b, 'c) connection_table \<Rightarrow> nat" where
  "connection_table_capacity t = pool_capacity t"

definition connection_table_is_empty :: "('b, 'c) connection_table \<Rightarrow> bool" where
  "connection_table_is_empty t = pool_is_empty t"

definition connection_table_get :: "('b, 'c) connection_table \<Rightarrow> nat \<Rightarrow> 'c option" where
  "connection_table_get t i = pool_get t i"

text \<open>The closure \<open>f\<close> acts on a state of its own.\<close>

definition connection_table_for_each ::
    "('b, 'c) connection_table \<Rightarrow> (nat \<Rightarrow> 'c \<Rightarrow> 's \<Rightarrow> 's) \<Rightarrow> 's \<Rightarrow> 's" where
  "connection_table_for_each t f s =
     fold (\<lambda>i s. case pool_get t i of None \<Rightarrow> s | Some c \<Rightarrow> f i c s) [0..<Suc (pool_max_set t)] s"

lemma for_each_collect:
  "fold (\<lambda>i s. case g i of None \<Rightarrow> s | Some c \<Rightarrow> s @ [(i, c)]) is acc
     = acc @ map (\<lambda>i. (i, the (g i))) (filter (\<lambda>i. g i \<noteq> None) is)"
  by (induction "is" arbitrary: acc) (auto split: option.split)

lemma filter_upt_extend:
  assumes "n \<le> m" and "\<And>i. n \<le> i \<Longrightarrow> i < m \<Longrightarrow> \<not> P i"
  shows "filter P [0..<m] = filter P [0..<n]"
proof -
  have "[0..<m] = [0..<n] @ [n..<m]" using assms(1) by (metis le0 le_Suc_ex upt_add_eq_append)
  then show ?thesis using assms(2) by simp
qed

text \<open>
  as long as \<open>max_set\<close> bounds the occupied slots, \<open>for_each\<close> visits every connection
  of the table exactly once, in the order of the indices.
\<close>

theorem for_each_visits_all_connections:
  assumes "pool_covered t" and "length (pool_slots t) = pool_capacity t"
  shows "connection_table_for_each t (\<lambda>i c s. s @ [(i, c)]) [] =
    map (\<lambda>i. (i, the (connection_table_get t i)))
      (filter (\<lambda>i. connection_table_get t i \<noteq> None) [0..<pool_capacity t])"
proof -
  let ?P = "\<lambda>i. pool_get t i \<noteq> None" and ?n = "Suc (pool_max_set t)" and ?c = "pool_capacity t"
  have above: "\<not> ?P i" if "?n \<le> i" for i
    using assms(1) that unfolding pool_covered_def by (metis not_less_eq_eq)
  have beyond: "\<not> ?P i" if "?c \<le> i" for i
    using that pool_get_none_above [of t i] assms(2) by simp
  have "filter ?P [0..<?n] = filter ?P [0..<?c]"
    using filter_upt_extend [of ?n ?c ?P] filter_upt_extend [of ?c ?n ?P] above beyond
    by (cases "?n \<le> ?c") (metis nat_le_linear)+
  then show ?thesis
    by (simp only: connection_table_for_each_def connection_table_get_def for_each_collect append_Nil)
qed

theorem for_each_visits_all_connections_witness:
  "connection_table_for_each three_slots (\<lambda>i c s. s @ [(i, c)]) [] = [(0, 10), (1, 11), (2, 12)]"
  using for_each_visits_all_connections [OF three_slots_ok(2)]
  by (simp add: connection_table_get_def pool_get_def three_slots_def upt_rec)

end
