(* ===== verification/Connections.thy ===== *)
theory Connections
  imports Pool Hash_Map
begin

text \<open>
  The reference-counted connections of an agent type, \<open>Connections\<close> of
  \<^verbatim>\<open>datapath/src/tables/subscription_table.rs\<close>: an index from connection ids to pool
  positions, and a pool of counted connection ids.

  Random numbers are drawn from the crate \<open>rand\<close>: the argument \<open>rng\<close> maps the bound
  \<open>n\<close> of \<open>random_range(0..n)\<close> to the number drawn, and \<open>rng_in_range\<close> is what the
  crate promises of it.
\<close>

datatype subscription_table_error =
  NoMatch string
| SubscriptionNotFound
| AgentIdNotFound
| ConnectionIdNotFound

record conn_id =
  cid_conn_id :: u64
  cid_counter :: nat

record 'b connections =
  cx_index :: "(u64, nat) hmap"
  cx_pool :: "('b, conn_id) pool"

definition rng_in_range :: "(nat \<Rightarrow> nat) \<Rightarrow> bool" where
  "rng_in_range rng \<longleftrightarrow> (\<forall>n>0. rng n < n)"

definition conn_id_new :: "u64 \<Rightarrow> conn_id" where
  "conn_id_new c = \<lparr>cid_conn_id = c, cid_counter = 1\<rparr>"

definition connections_default :: "'b bitvec_ops \<Rightarrow> 'b connections" where
  "connections_default BV = \<lparr>cx_index = [], cx_pool = pool_with_capacity BV 2\<rparr>"

definition connections_insert :: "'b bitvec_ops \<Rightarrow> 'b connections \<Rightarrow> u64 \<Rightarrow> 'b connections option" where
  "connections_insert BV cx conn =
     (case hm_get (=) conn (cx_index cx) of
        None \<Rightarrow> do {
          (pos, p) \<leftarrow> pool_insert BV (cx_pool cx) (conn_id_new conn);
          Some (cx\<lparr>cx_pool := p, cx_index := hm_insert (=) conn pos (cx_index cx)\<rparr>)
        }
      | Some pos \<Rightarrow>
          (case pool_get (cx_pool cx) pos of
             None \<Rightarrow> Some cx
           | Some _ \<Rightarrow> Some (cx\<lparr>cx_pool :=
               pool_get_mut (cx_pool cx) pos (\<lambda>c. c\<lparr>cid_counter := cid_counter c + 1\<rparr>)\<rparr>)))"

definition connections_remove ::
    "'b bitvec_ops \<Rightarrow> 'b connections \<Rightarrow> u64 \<Rightarrow> ((subscription_table_error + unit) \<times> 'b connections) option" where
  "connections_remove BV cx conn =
     (case hm_get (=) conn (cx_index cx) of
        None \<Rightarrow> Some (Inl ConnectionIdNotFound, cx)
      | Some pos \<Rightarrow>
          (case pool_get (cx_pool cx) pos of
             None \<Rightarrow> Some (Inl ConnectionIdNotFound, cx)
           | Some c \<Rightarrow>
               (if cid_counter c = 1
                then do {
                  (_, p) \<leftarrow> pool_remove BV (cx_pool cx) pos;
                  Some (Inr (), cx\<lparr>cx_pool := p, cx_index := hm_remove (=) conn (cx_index cx)\<rparr>)
                }
                else Some (Inr (), cx\<lparr>cx_pool :=
                  pool_get_mut (cx_pool cx) pos (\<lambda>c. c\<lparr>cid_counter := cid_counter c - 1\<rparr>)\<rparr>))))"

text \<open>The body of the search loop at position \<open>i\<close>: the connection there, if it may be used.\<close>

definition usable_at :: "('b, conn_id) pool \<Rightarrow> u64 \<Rightarrow> nat \<Rightarrow> u64 option" where
  "usable_at p except_conn i =
     (case pool_get p i of
        None \<Rightarrow> None
      | Some c \<Rightarrow> if cid_conn_id c \<noteq> except_conn then Some (cid_conn_id c) else None)"

text \<open>The loop of \<open>get_one\<close>; that it returns is \<open>get_one_loop_spec\<close> below.\<close>

partial_function (option) get_one_loop ::
    "('b, conn_id) pool \<Rightarrow> u64 \<Rightarrow> nat \<Rightarrow> nat \<Rightarrow> u64 option option" where
  "get_one_loop p except_conn index i =
     (if usable_at p except_conn i \<noteq> None then Some (usable_at p except_conn i)
      else if (i + 1) mod (pool_max_set p + 1) = index then Some None
      else get_one_loop p except_conn index ((i + 1) mod (pool_max_set p + 1)))"

definition connections_get_one ::
    "(nat \<Rightarrow> nat) \<Rightarrow> 'b connections \<Rightarrow> u64 \<Rightarrow> u64 option option" where
  "connections_get_one rng cx except_conn =
     (if length (cx_index cx) = 1
      then (if hm_contains (=) except_conn (cx_index cx) then Some None
            else Some (Some (fst (hd (cx_index cx)))))
      else (let index = rng (pool_max_set (cx_pool cx) + 1)
            in get_one_loop (cx_pool cx) except_conn index index))"

definition connections_get_all :: "'b connections \<Rightarrow> u64 \<Rightarrow> u64 list option" where
  "connections_get_all cx except_conn =
     (if length (cx_index cx) = 1
      then (if hm_contains (=) except_conn (cx_index cx) then None
            else Some [fst (hd (cx_index cx))])
      else (let out = map fst (filter (\<lambda>e. fst e \<noteq> except_conn) (cx_index cx))
            in if out = [] then None else Some out))"

section \<open>Invariant\<close>

text \<open>
  The index and the pool list the same connections, and every counter is positive. The number of
  references of a connection is \<open>conn_refs\<close>.
\<close>

definition connections_inv :: "'b bitvec_ops \<Rightarrow> 'b connections \<Rightarrow> bool" where
  "connections_inv BV cx \<longleftrightarrow>
     hm_wf (=) (cx_index cx) \<and> pool_inv BV (cx_pool cx) \<and> 0 < pool_capacity (cx_pool cx) \<and>
     (\<forall>c i. hm_get (=) c (cx_index cx) = Some i \<longleftrightarrow>
        (\<exists>cid. pool_get (cx_pool cx) i = Some cid \<and> cid_conn_id cid = c)) \<and>
     (\<forall>i cid. pool_get (cx_pool cx) i = Some cid \<longrightarrow> 0 < cid_counter cid)"

definition conn_refs :: "'b connections \<Rightarrow> u64 \<Rightarrow> nat" where
  "conn_refs cx c =
     (case hm_get (=) c (cx_index cx) of
        None \<Rightarrow> 0
      | Some i \<Rightarrow> (case pool_get (cx_pool cx) i of None \<Rightarrow> 0 | Some cid \<Rightarrow> cid_counter cid))"

lemma conn_refs_pool:
  assumes "connections_inv BV cx" "pool_get (cx_pool cx) i = Some cid"
  shows "conn_refs cx (cid_conn_id cid) = cid_counter cid"
proof -
  have "hm_get (=) (cid_conn_id cid) (cx_index cx) = Some i"
    using assms unfolding connections_inv_def by blast
  then show ?thesis using assms(2) by (simp add: conn_refs_def)
qed

lemma conn_refs_pos:
  assumes "connections_inv BV cx"
  shows "0 < conn_refs cx c \<longleftrightarrow> (\<exists>i cid. pool_get (cx_pool cx) i = Some cid \<and> cid_conn_id cid = c)"
proof
  assume "0 < conn_refs cx c"
  then obtain i where "hm_get (=) c (cx_index cx) = Some i" by (auto simp: conn_refs_def split: option.splits)
  then show "\<exists>i cid. pool_get (cx_pool cx) i = Some cid \<and> cid_conn_id cid = c"
    using assms unfolding connections_inv_def by blast
next
  assume "\<exists>i cid. pool_get (cx_pool cx) i = Some cid \<and> cid_conn_id cid = c"
  then show "0 < conn_refs cx c"
    using conn_refs_pool [OF assms] assms unfolding connections_inv_def by metis
qed

lemma conn_refs_index:
  assumes "connections_inv BV cx"
  shows "0 < conn_refs cx c \<longleftrightarrow> c \<in> fst ` set (cx_index cx)"
proof -
  have "hm_get (=) c (cx_index cx) \<noteq> None \<longleftrightarrow> c \<in> fst ` set (cx_index cx)"
    by (simp add: hm_get_map_of map_of_eq_None_iff)
  moreover have "0 < conn_refs cx c \<longleftrightarrow> hm_get (=) c (cx_index cx) \<noteq> None"
    using conn_refs_pos [OF assms, of c] assms unfolding connections_inv_def by (metis not_None_eq)
  ultimately show ?thesis by simp
qed

lemma pool_get_mut_get:
  "pool_get (pool_get_mut p i f) = (pool_get p)(i := map_option f (pool_get p i))"
  by (auto simp: pool_get_mut_def pool_get_def fun_eq_iff split: option.split)

lemma pool_get_mut_fields [simp]:
  "pool_capacity (pool_get_mut p i f) = pool_capacity p"
  "pool_max_set (pool_get_mut p i f) = pool_max_set p"
  by (auto simp: pool_get_mut_def split: option.split)

lemma pool_inv_get_mut: "pool_inv BV p \<Longrightarrow> pool_inv BV (pool_get_mut p i f)"
proof (cases "pool_get p i")
  case (Some x)
  assume inv: "pool_inv BV p"
  have i: "i < length (pool_slots p)" "pool_slots p ! i = Some x" using pool_get_SomeD [OF Some] by auto
  have "length (filter (\<lambda>s. s \<noteq> None) ((pool_slots p)[i := Some (f x)])) =
      length (filter (\<lambda>s. s \<noteq> None) (pool_slots p))"
    using length_filter_update [OF i(1), of "\<lambda>s. s \<noteq> None" "Some (f x)"] i(2) by simp
  then show ?thesis
    using inv i Some by (auto simp: pool_inv_def pool_get_mut_def nth_list_update)
qed (simp add: pool_get_mut_def)

section \<open>Index and pool agree\<close>

definition slots_agree :: "(u64 \<rightharpoonup> nat) \<Rightarrow> (nat \<rightharpoonup> conn_id) \<Rightarrow> bool" where
  "slots_agree m g \<longleftrightarrow> (\<forall>c i. m c = Some i \<longleftrightarrow> (\<exists>cid. g i = Some cid \<and> cid_conn_id cid = c))"

lemma slots_agree_insert:
  "slots_agree m g \<Longrightarrow> m (cid_conn_id x) = None \<Longrightarrow> g i = None \<Longrightarrow>
   slots_agree (m(cid_conn_id x \<mapsto> i)) (g(i \<mapsto> x))"
  unfolding slots_agree_def by (auto split: if_splits) (metis option.distinct(1))

lemma slots_agree_update:
  "slots_agree m g \<Longrightarrow> g i = Some y \<Longrightarrow> cid_conn_id x = cid_conn_id y \<Longrightarrow> slots_agree m (g(i \<mapsto> x))"
  unfolding slots_agree_def by auto

lemma slots_agree_remove:
  "slots_agree m g \<Longrightarrow> m c = Some i \<Longrightarrow> slots_agree (m(c := None)) (g(i := None))"
  unfolding slots_agree_def by (auto split: if_splits) (metis option.inject)

definition refs_of :: "(u64 \<rightharpoonup> nat) \<Rightarrow> (nat \<rightharpoonup> conn_id) \<Rightarrow> u64 \<Rightarrow> nat" where
  "refs_of m g c = (case m c of None \<Rightarrow> 0 | Some i \<Rightarrow> (case g i of None \<Rightarrow> 0 | Some cid \<Rightarrow> cid_counter cid))"

lemma refs_of_insert:
  assumes "slots_agree m g" "m (cid_conn_id x) = None" "g i = None"
  shows "refs_of (m(cid_conn_id x \<mapsto> i)) (g(i \<mapsto> x)) = (refs_of m g)(cid_conn_id x := cid_counter x)"
proof
  fix c
  have "m c \<noteq> Some i" using assms(1,3) unfolding slots_agree_def by auto
  then show "refs_of (m(cid_conn_id x \<mapsto> i)) (g(i \<mapsto> x)) c = ((refs_of m g)(cid_conn_id x := cid_counter x)) c"
    by (auto simp: refs_of_def split: option.split)
qed

lemma refs_of_update:
  assumes "slots_agree m g" "m c = Some i" "cid_conn_id x = c"
  shows "refs_of m (g(i \<mapsto> x)) = (refs_of m g)(c := cid_counter x)"
proof
  fix c'
  have "c' \<noteq> c \<Longrightarrow> m c' \<noteq> Some i" using assms unfolding slots_agree_def by (metis option.inject)
  then show "refs_of m (g(i \<mapsto> x)) c' = ((refs_of m g)(c := cid_counter x)) c'"
    using assms(2) by (auto simp: refs_of_def split: option.split)
qed

lemma refs_of_remove:
  assumes "slots_agree m g" "m c = Some i"
  shows "refs_of (m(c := None)) (g(i := None)) = (refs_of m g)(c := 0)"
proof
  fix c'
  have "c' \<noteq> c \<Longrightarrow> m c' \<noteq> Some i" using assms unfolding slots_agree_def by (metis option.inject)
  then show "refs_of (m(c := None)) (g(i := None)) c' = ((refs_of m g)(c := 0)) c'"
    using assms(2) by (auto simp: refs_of_def split: option.split)
qed

definition index_map :: "'b connections \<Rightarrow> u64 \<rightharpoonup> nat" where
  "index_map cx c = hm_get (=) c (cx_index cx)"

lemma index_map_update [simp]:
  "index_map (cx\<lparr>cx_pool := p\<rparr>) = index_map cx"
  "index_map (cx\<lparr>cx_pool := p, cx_index := hm_insert (=) c i (cx_index cx)\<rparr>) = (index_map cx)(c \<mapsto> i)"
  "index_map (cx\<lparr>cx_pool := p, cx_index := hm_remove (=) c (cx_index cx)\<rparr>) = (index_map cx)(c := None)"
  by (auto simp: index_map_def fun_eq_iff)

lemma connections_inv_agree:
  "connections_inv BV cx \<longleftrightarrow>
     hm_wf (=) (cx_index cx) \<and> pool_inv BV (cx_pool cx) \<and> 0 < pool_capacity (cx_pool cx) \<and>
     slots_agree (index_map cx) (pool_get (cx_pool cx)) \<and>
     (\<forall>i cid. pool_get (cx_pool cx) i = Some cid \<longrightarrow> 0 < cid_counter cid)"
  by (simp add: connections_inv_def slots_agree_def index_map_def)

lemma conn_refs_of: "conn_refs cx = refs_of (index_map cx) (pool_get (cx_pool cx))"
  by (simp add: fun_eq_iff conn_refs_def refs_of_def index_map_def)

section \<open>Laws of the connections\<close>

context bit_vec
begin

lemma connections_inv_default [simp]: "connections_inv BV (connections_default BV)"
  unfolding connections_inv_def connections_default_def
  using pool_inv_with_capacity [of 2] by (simp add: pool_with_capacity_def [of _ 2] pool_get_def resize_none_def)

lemma conn_refs_default [simp]: "conn_refs (connections_default BV) c = 0"
  by (simp add: conn_refs_def connections_default_def)

lemma connections_insert_spec:
  assumes inv: "connections_inv BV cx"
  shows "\<exists>cx'. connections_insert BV cx c = Some cx' \<and> connections_inv BV cx' \<and>
    conn_refs cx' = (conn_refs cx)(c := Suc (conn_refs cx c))"
proof (cases "index_map cx c")
  case None
  have p: "pool_inv BV (cx_pool cx)" "0 < pool_capacity (cx_pool cx)"
    using inv by (simp_all add: connections_inv_def)
  obtain i p' where p': "pool_insert BV (cx_pool cx) (conn_id_new c) = Some (i, p')" "pool_inv BV p'"
      "pool_get (cx_pool cx) i = None" "pool_get p' = (pool_get (cx_pool cx))(i \<mapsto> conn_id_new c)"
      "pool_capacity (cx_pool cx) \<le> pool_capacity p'"
    using pool_insert_spec [OF p, of "conn_id_new c"] by blast
  let ?cx = "cx\<lparr>cx_pool := p', cx_index := hm_insert (=) c i (cx_index cx)\<rparr>"
  have new: "cid_conn_id (conn_id_new c) = c" "cid_counter (conn_id_new c) = 1" by (simp_all add: conn_id_new_def)
  have agree: "slots_agree (index_map cx) (pool_get (cx_pool cx))" using inv by (simp add: connections_inv_agree)
  have "connections_insert BV cx c = Some ?cx"
    using None p'(1) by (simp add: connections_insert_def index_map_def)
  moreover have "connections_inv BV ?cx"
    using inv p' p(2) new slots_agree_insert [OF agree, of "conn_id_new c" i] None
    by (auto simp: connections_inv_agree)
  moreover have "conn_refs ?cx = (conn_refs cx)(c := Suc (conn_refs cx c))"
    using refs_of_insert [OF agree, of "conn_id_new c" i] None p'(3,4) new
    by (simp add: conn_refs_of) (simp add: refs_of_def)
  ultimately show ?thesis by blast
next
  case (Some i)
  have agree: "slots_agree (index_map cx) (pool_get (cx_pool cx))" using inv by (simp add: connections_inv_agree)
  then obtain cid where cid: "pool_get (cx_pool cx) i = Some cid" "cid_conn_id cid = c"
    using Some unfolding slots_agree_def by blast
  let ?p = "pool_get_mut (cx_pool cx) i (\<lambda>c. c\<lparr>cid_counter := cid_counter c + 1\<rparr>)"
  let ?x = "cid\<lparr>cid_counter := cid_counter cid + 1\<rparr>"
  have get: "pool_get ?p = (pool_get (cx_pool cx))(i \<mapsto> ?x)" by (simp add: pool_get_mut_get cid)
  have "connections_insert BV cx c = Some (cx\<lparr>cx_pool := ?p\<rparr>)"
    using Some cid by (simp add: connections_insert_def index_map_def)
  moreover have "connections_inv BV (cx\<lparr>cx_pool := ?p\<rparr>)"
    using inv get pool_inv_get_mut [of BV "cx_pool cx"] slots_agree_update [OF agree cid(1), of ?x]
    by (auto simp: connections_inv_agree)
  moreover have "conn_refs (cx\<lparr>cx_pool := ?p\<rparr>) = (conn_refs cx)(c := Suc (conn_refs cx c))"
    using refs_of_update [OF agree Some, of ?x] get cid Some
    by (simp add: conn_refs_of) (simp add: refs_of_def)
  ultimately show ?thesis by blast
qed

lemma connections_remove_absent:
  assumes inv: "connections_inv BV cx" and zero: "conn_refs cx c = 0"
  shows "connections_remove BV cx c = Some (Inl ConnectionIdNotFound, cx)"
proof -
  have "hm_get (=) c (cx_index cx) = None"
    using conn_refs_pos [OF inv, of c] zero inv unfolding connections_inv_def by (metis not_None_eq less_irrefl)
  then show ?thesis by (simp add: connections_remove_def)
qed

lemma connections_remove_spec:
  assumes inv: "connections_inv BV cx" and pos: "0 < conn_refs cx c"
  shows "\<exists>cx'. connections_remove BV cx c = Some (Inr (), cx') \<and> connections_inv BV cx' \<and>
    conn_refs cx' = (conn_refs cx)(c := conn_refs cx c - 1)"
proof -
  have agree: "slots_agree (index_map cx) (pool_get (cx_pool cx))" using inv by (simp add: connections_inv_agree)
  obtain i cid where i: "index_map cx c = Some i" "pool_get (cx_pool cx) i = Some cid" "conn_refs cx c = cid_counter cid"
    using pos by (auto simp: conn_refs_of refs_of_def split: option.splits)
  then have cid: "cid_conn_id cid = c" using agree unfolding slots_agree_def by (metis option.inject)
  show ?thesis
  proof (cases "cid_counter cid = 1")
    case True
    have p: "pool_inv BV (cx_pool cx)" using inv by (simp add: connections_inv_def)
    obtain p' where p': "pool_remove BV (cx_pool cx) i = Some (True, p')" "pool_inv BV p'"
        "pool_get p' = (pool_get (cx_pool cx))(i := None)" "pool_capacity p' = pool_capacity (cx_pool cx)"
      using pool_remove_present [OF p i(2)] by blast
    let ?cx = "cx\<lparr>cx_pool := p', cx_index := hm_remove (=) c (cx_index cx)\<rparr>"
    have "connections_remove BV cx c = Some (Inr (), ?cx)"
      using i(1,2) p'(1) True by (simp add: connections_remove_def index_map_def)
    moreover have "connections_inv BV ?cx"
      using inv p' slots_agree_remove [OF agree i(1)] by (auto simp: connections_inv_agree)
    moreover have "conn_refs ?cx = (conn_refs cx)(c := conn_refs cx c - 1)"
      unfolding i(3) True using refs_of_remove [OF agree i(1)] p'(3) by (simp add: conn_refs_of)
    ultimately show ?thesis by blast
  next
    case False
    have cnt: "0 < cid_counter cid" using inv i(2) by (auto simp: connections_inv_def)
    let ?p = "pool_get_mut (cx_pool cx) i (\<lambda>c. c\<lparr>cid_counter := cid_counter c - 1\<rparr>)"
    let ?x = "cid\<lparr>cid_counter := cid_counter cid - 1\<rparr>"
    have get: "pool_get ?p = (pool_get (cx_pool cx))(i \<mapsto> ?x)" by (simp add: pool_get_mut_get i)
    have "connections_remove BV cx c = Some (Inr (), cx\<lparr>cx_pool := ?p\<rparr>)"
      using i False by (simp add: connections_remove_def index_map_def)
    moreover have "connections_inv BV (cx\<lparr>cx_pool := ?p\<rparr>)"
      using inv get cnt False pool_inv_get_mut [of BV "cx_pool cx"] slots_agree_update [OF agree i(2), of ?x]
      by (auto simp: connections_inv_agree)
    moreover have "conn_refs (cx\<lparr>cx_pool := ?p\<rparr>) = (conn_refs cx)(c := conn_refs cx c - 1)"
      unfolding i(3) using refs_of_update [OF agree i(1), of ?x] get cid by (simp add: conn_refs_of)
    ultimately show ?thesis by blast
  qed
qed

end

section \<open>Searching for a connection\<close>

lemma wrap_step: "((index + t) mod n + 1) mod n = (index + Suc t) mod (n::nat)"
  by (simp add: mod_Suc_eq)

lemma wrap_back_iff:
  assumes "index < n" "Suc t \<le> n"
  shows "(index + Suc t) mod n = index \<longleftrightarrow> Suc t = (n::nat)"
proof (cases "index + Suc t < n")
  case True
  then show ?thesis by simp
next
  case False
  then have "(index + Suc t) mod n = index + Suc t - n" using assms by (simp add: le_mod_geq)
  then show ?thesis using assms False by auto
qed

lemma get_one_loop_spec:
  assumes "index < n" and n: "n = pool_max_set p + 1" and "t < n"
  shows "\<exists>r. get_one_loop p e index ((index + t) mod n) = Some r \<and>
    (case r of Some c \<Rightarrow> \<exists>j<n. usable_at p e j = Some c
     | None \<Rightarrow> \<forall>s. t \<le> s \<longrightarrow> s < n \<longrightarrow> usable_at p e ((index + s) mod n) = None)"
  using assms(3)
proof (induction "n - t" arbitrary: t rule: less_induct)
  case less
  let ?i = "(index + t) mod n"
  note loop = get_one_loop.simps [of p e index ?i, folded n, unfolded wrap_step wrap_back_iff [OF assms(1) Suc_leI [OF less(2)]]]
  show ?case
  proof (cases "usable_at p e ?i")
    case (Some c)
    then have "get_one_loop p e index ?i = Some (Some c)" by (subst loop) simp
    moreover have "?i < n" using n by simp
    ultimately show ?thesis using Some by (intro exI [of _ "Some c"]) auto
  next
    case None
    show ?thesis
    proof (cases "Suc t = n")
      case True
      then have "get_one_loop p e index ?i = Some None" using None by (subst loop) simp
      moreover have "usable_at p e ((index + s) mod n) = None" if "t \<le> s" "s < n" for s
        using that True None by (metis le_antisym less_Suc_eq_le)
      ultimately show ?thesis by (intro exI [of _ None]) simp
    next
      case False
      then have lt: "Suc t < n" using less(2) by simp
      obtain r where r: "get_one_loop p e index ((index + Suc t) mod n) = Some r"
          "case r of Some c \<Rightarrow> \<exists>j<n. usable_at p e j = Some c
           | None \<Rightarrow> \<forall>s. Suc t \<le> s \<longrightarrow> s < n \<longrightarrow> usable_at p e ((index + s) mod n) = None"
        using less(1) [OF diff_less_mono2 [OF lessI less(2)] lt] by blast
      have "get_one_loop p e index ?i = Some r" using None False r(1) by (subst loop) simp
      moreover have "case r of Some c \<Rightarrow> \<exists>j<n. usable_at p e j = Some c
          | None \<Rightarrow> \<forall>s. t \<le> s \<longrightarrow> s < n \<longrightarrow> usable_at p e ((index + s) mod n) = None"
      proof (cases r)
        case rNone: None
        have "usable_at p e ((index + s) mod n) = None" if "t \<le> s" "s < n" for s
          using r(2) None that rNone by (cases "s = t") auto
        then show ?thesis using rNone by simp
      qed (use r(2) in simp)
      ultimately show ?thesis by blast
    qed
  qed
qed

lemma wrap_onto:
  assumes "index < n" "j < (n::nat)"
  obtains s where "s < n" "(index + s) mod n = j"
proof (cases "index \<le> j")
  case True
  then show ?thesis using that [of "j - index"] assms by simp
next
  case False
  then have "n + j - index < n" "index + (n + j - index) = j + n" using assms by simp_all
  then show ?thesis using that [of "n + j - index"] assms(2) by simp
qed

lemma get_one_loop_result:
  assumes "index < pool_max_set p + 1"
  shows "\<exists>r. get_one_loop p e index index = Some r \<and>
    (case r of Some c \<Rightarrow> \<exists>j. usable_at p e j = Some c
     | None \<Rightarrow> \<forall>j\<le>pool_max_set p. usable_at p e j = None)"
proof -
  let ?n = "pool_max_set p + 1"
  obtain r where r: "get_one_loop p e index ((index + 0) mod ?n) = Some r"
      "case r of Some c \<Rightarrow> \<exists>j<?n. usable_at p e j = Some c
       | None \<Rightarrow> \<forall>s. 0 \<le> s \<longrightarrow> s < ?n \<longrightarrow> usable_at p e ((index + s) mod ?n) = None"
    using get_one_loop_spec [OF assms refl, of 0 e] by auto
  have "usable_at p e j = None" if "r = None" "j \<le> pool_max_set p" for j
  proof -
    have "j < ?n" using that(2) by simp
    then obtain s where "s < ?n" "(index + s) mod ?n = j" using wrap_onto [OF assms] by blast
    then show ?thesis using r(2) that(1) by auto
  qed
  then show ?thesis using r assms by (intro exI [of _ r]) (auto split: option.splits)
qed

lemma usable_at_Some:
  "usable_at p e i = Some c \<longleftrightarrow> (\<exists>cid. pool_get p i = Some cid \<and> cid_conn_id cid = c \<and> c \<noteq> e)"
  by (auto simp: usable_at_def split: option.splits)

lemma single_index:
  assumes "connections_inv BV cx" "length (cx_index cx) = 1"
  obtains c i where "cx_index cx = [(c, i)]" "\<And>c'. 0 < conn_refs cx c' \<longleftrightarrow> c' = c"
proof -
  obtain e where e: "cx_index cx = [e]" using assms(2) by (auto simp: length_Suc_conv)
  show thesis by (rule that [of "fst e" "snd e"]) (use e conn_refs_index [OF assms(1)] in auto)
qed

lemma connections_get_one_spec:
  assumes inv: "connections_inv BV cx" and rng: "rng_in_range rng"
  shows "\<exists>r. connections_get_one rng cx e = Some r \<and>
    (\<forall>c. r = Some c \<longrightarrow> c \<noteq> e \<and> 0 < conn_refs cx c) \<and>
    (r = None \<longrightarrow> pool_covered (cx_pool cx) \<or> length (cx_index cx) = 1 \<longrightarrow> (\<forall>c. 0 < conn_refs cx c \<longrightarrow> c = e))"
proof (cases "length (cx_index cx) = 1")
  case True
  then obtain c i where "cx_index cx = [(c, i)]" "\<And>c'. 0 < conn_refs cx c' \<longleftrightarrow> c' = c"
    using single_index [OF inv] by blast
  then show ?thesis by (auto simp: connections_get_one_def hm_contains_def)
next
  case False
  let ?p = "cx_pool cx" and ?index = "rng (pool_max_set (cx_pool cx) + 1)"
  have "?index < pool_max_set ?p + 1" using rng by (simp add: rng_in_range_def)
  then obtain r where r: "get_one_loop ?p e ?index ?index = Some r"
      "case r of Some c \<Rightarrow> \<exists>j. usable_at ?p e j = Some c | None \<Rightarrow> \<forall>j\<le>pool_max_set ?p. usable_at ?p e j = None"
    using get_one_loop_result by blast
  have get: "connections_get_one rng cx e = Some r"
    using False r(1) by (simp add: connections_get_one_def Let_def)
  have sound: "c \<noteq> e \<and> 0 < conn_refs cx c" if "r = Some c" for c
    using r(2) that conn_refs_pos [OF inv, of c] by (auto simp: usable_at_Some)
  have complete: "c = e" if none: "r = None" and cov: "pool_covered ?p" and pos: "0 < conn_refs cx c" for c
  proof -
    obtain i cid where i: "pool_get ?p i = Some cid" "cid_conn_id cid = c"
      using pos conn_refs_pos [OF inv] by blast
    then have "i \<le> pool_max_set ?p" using cov unfolding pool_covered_def by (metis option.distinct(1))
    then have "usable_at ?p e i = None" using r(2) none by simp
    then show ?thesis using i by (simp add: usable_at_def split: if_splits)
  qed
  show ?thesis using get sound complete False by (intro exI [of _ r]) blast
qed

lemma connections_get_all_spec:
  assumes inv: "connections_inv BV cx"
  shows "case connections_get_all cx e of
      None \<Rightarrow> (\<forall>c. 0 < conn_refs cx c \<longrightarrow> c = e)
    | Some out \<Rightarrow> out \<noteq> [] \<and> distinct out \<and> set out = {c. 0 < conn_refs cx c \<and> c \<noteq> e}"
proof (cases "length (cx_index cx) = 1")
  case True
  then obtain c i where "cx_index cx = [(c, i)]" "\<And>c'. 0 < conn_refs cx c' \<longleftrightarrow> c' = c"
    using single_index [OF inv] by blast
  then show ?thesis by (auto simp: connections_get_all_def hm_contains_def)
next
  case False
  let ?out = "map fst (filter (\<lambda>x. fst x \<noteq> e) (cx_index cx))"
  have get: "connections_get_all cx e = (if ?out = [] then None else Some ?out)"
    using False by (simp add: connections_get_all_def Let_def)
  have "distinct (map fst (cx_index cx))" using inv by (simp add: connections_inv_def hm_wf_plain)
  then have dist: "distinct ?out" by (simp add: distinct_map_filter)
  have set: "set ?out = {c. 0 < conn_refs cx c \<and> c \<noteq> e}"
    using conn_refs_index [OF inv] by auto
  show ?thesis
  proof (cases "?out = []")
    case True
    have "{c. 0 < conn_refs cx c \<and> c \<noteq> e} = {}" unfolding set [symmetric] True by simp
    then have "\<forall>c. 0 < conn_refs cx c \<longrightarrow> c = e" by blast
    then show ?thesis unfolding get using True by simp
  next
    case False
    then have "connections_get_all cx e = Some ?out" using get by (simp only: if_False)
    then show ?thesis using dist set False by (simp only: option.simps) blast
  qed
qed

section \<open>Properties of the connections\<close>

text \<open>
  C14: the search for one connection always ends. A connection it returns is one of the set and
  not the excluded one. When it returns none, either every connection of the set is the excluded
  one, or \<open>max_set\<close> of the pool lies below an occupied slot.
\<close>

theorem connections_get_one_correct:
  assumes "connections_inv BV cx" and "rng_in_range rng"
  shows "\<exists>r. connections_get_one rng cx e = Some r \<and>
    (case r of Some c \<Rightarrow> c \<noteq> e \<and> 0 < conn_refs cx c
     | None \<Rightarrow> \<not> pool_covered (cx_pool cx) \<or> (\<forall>c. 0 < conn_refs cx c \<longrightarrow> c = e))"
  using connections_get_one_spec [OF assms, of e] by (auto split: option.splits)

text \<open>Connections 1, 2 and 3, in this order.\<close>

definition three_connections :: "bool list connections" where
  "three_connections = \<lparr>cx_index = [(1, 0), (2, 1), (3, 2)],
     cx_pool = \<lparr>pool_bitmap = [True, True, True, False],
       pool_slots = [Some (conn_id_new 1), Some (conn_id_new 2), Some (conn_id_new 3), None],
       pool_len = 3, pool_capacity = 4, pool_max_set = 2\<rparr>\<rparr>"

lemma three_connections_inv: "connections_inv list_bitvec three_connections"
  by (auto simp: connections_inv_def three_connections_def pool_inv_def list_bitvec_def pool_get_def
      conn_id_new_def nth_Cons split: nat.splits if_splits)

theorem connections_get_one_correct_witness:
  "\<exists>r. connections_get_one (\<lambda>_. 0) three_connections 1 = Some r \<and>
     (case r of Some c \<Rightarrow> c \<noteq> 1 \<and> 0 < conn_refs three_connections c
      | None \<Rightarrow> \<not> pool_covered (cx_pool three_connections) \<or>
          (\<forall>c. 0 < conn_refs three_connections c \<longrightarrow> c = 1))"
  using connections_get_one_correct [OF three_connections_inv, of "\<lambda>_. 0" 1]
  by (simp add: rng_in_range_def)

end
