(* ===== verification/Agent_Type_State.thy ===== *)
theory Agent_Type_State
  imports Connections Names
begin

text \<open>
  The state of one agent type, \<open>AgentTypeState\<close> of
  \<^verbatim>\<open>datapath/src/tables/subscription_table.rs\<close>: for each agent id the connections it was
  subscribed on, and the counted connections of the whole type. Both come in an array of two, the
  local side at position 0 and the remote side at position 1; here a pair, read by \<open>side\<close>.
\<close>

definition side :: "bool \<Rightarrow> 'a \<times> 'a \<Rightarrow> 'a" where
  "side is_local p = (if is_local then fst p else snd p)"

definition set_side :: "bool \<Rightarrow> 'a \<Rightarrow> 'a \<times> 'a \<Rightarrow> 'a \<times> 'a" where
  "set_side is_local x p = (if is_local then (x, snd p) else (fst p, x))"

record 'b agent_type_state =
  ats_ids :: "(u64, u64 list \<times> u64 list) hmap"
  ats_connections :: "'b connections \<times> 'b connections"

definition ats_default :: "'b bitvec_ops \<Rightarrow> 'b agent_type_state" where
  "ats_default BV = \<lparr>ats_ids = [], ats_connections = (connections_default BV, connections_default BV)\<rparr>"

definition ats_new :: "'b bitvec_ops \<Rightarrow> u64 \<Rightarrow> u64 \<Rightarrow> bool \<Rightarrow> 'b agent_type_state option" where
  "ats_new BV agent_id conn is_local =
     (let s = ats_default BV; v = [conn]
      in if is_local
         then do {
           cx \<leftarrow> connections_insert BV (fst (ats_connections s)) conn;
           Some (s\<lparr>ats_connections := (cx, snd (ats_connections s)),
                   ats_ids := hm_insert (=) agent_id (v, []) (ats_ids s)\<rparr>)
         }
         else do {
           cx \<leftarrow> connections_insert BV (snd (ats_connections s)) conn;
           Some (s\<lparr>ats_connections := (fst (ats_connections s), cx),
                   ats_ids := hm_insert (=) agent_id ([], v) (ats_ids s)\<rparr>)
         })"

definition ats_insert ::
    "'b bitvec_ops \<Rightarrow> 'b agent_type_state \<Rightarrow> u64 \<Rightarrow> u64 \<Rightarrow> bool \<Rightarrow> 'b agent_type_state option" where
  "ats_insert BV s agent_id conn is_local = do {
     cx \<leftarrow> connections_insert BV (side is_local (ats_connections s)) conn;
     let s = s\<lparr>ats_connections := set_side is_local cx (ats_connections s)\<rparr>;
     Some (case hm_get (=) agent_id (ats_ids s) of
         None \<Rightarrow> s\<lparr>ats_ids := hm_insert (=) agent_id (set_side is_local [conn] ([], [])) (ats_ids s)\<rparr>
       | Some v \<Rightarrow> s\<lparr>ats_ids := hm_insert (=) agent_id (set_side is_local (side is_local v @ [conn]) v) (ats_ids s)\<rparr>)
   }"

definition ats_remove ::
    "'b bitvec_ops \<Rightarrow> 'b agent_type_state \<Rightarrow> u64 \<Rightarrow> u64 \<Rightarrow> bool \<Rightarrow>
     ((subscription_table_error + unit) \<times> 'b agent_type_state) option" where
  "ats_remove BV s agent_id conn is_local =
     (case hm_get (=) agent_id (ats_ids s) of
        None \<Rightarrow> Some (Inl AgentIdNotFound, s)
      | Some v \<Rightarrow> do {
          (r, cx) \<leftarrow> connections_remove BV (side is_local (ats_connections s)) conn;
          let s = s\<lparr>ats_connections := set_side is_local cx (ats_connections s)\<rparr>;
          case r of
            Inl e \<Rightarrow> Some (Inl e, s)
          | Inr _ \<Rightarrow> Some (Inr (),
              case position (\<lambda>c. c = conn) (side is_local v) of
                None \<Rightarrow> s
              | Some i \<Rightarrow>
                  (let v = set_side is_local (swap_remove i (side is_local v)) v
                   in if fst v = [] \<and> snd v = []
                      then s\<lparr>ats_ids := hm_remove (=) agent_id (ats_ids s)\<rparr>
                      else s\<lparr>ats_ids := hm_insert (=) agent_id v (ats_ids s)\<rparr>))
        })"

text \<open>The loop of \<open>get_one_connection\<close>: it advances \<open>i\<close> but reads the vector at \<open>pos\<close>.\<close>

partial_function (option) get_one_connection_loop ::
    "u64 list \<Rightarrow> u64 \<Rightarrow> nat \<Rightarrow> nat \<Rightarrow> u64 option option" where
  "get_one_connection_loop xs incoming_conn pos i =
     (if \<not> pos < length xs then None
      else if xs ! pos \<noteq> incoming_conn then Some (Some (xs ! pos))
      else if (i + 1) mod length xs = pos then Some None
      else get_one_connection_loop xs incoming_conn pos ((i + 1) mod length xs))"

definition get_one_connection ::
    "(nat \<Rightarrow> nat) \<Rightarrow> 'b agent_type_state \<Rightarrow> u64 option \<Rightarrow> u64 \<Rightarrow> bool \<Rightarrow> u64 option option" where
  "get_one_connection rng s agent_id incoming_conn is_local =
     (let cx = side is_local (ats_connections s)
      in case agent_id of
           None \<Rightarrow> connections_get_one rng cx incoming_conn
         | Some i \<Rightarrow>
             (case hm_get (=) i (ats_ids s) of
                None \<Rightarrow>
                  (if length (cx_index cx) = 1 then connections_get_one rng cx incoming_conn
                   else Some None)
              | Some v \<Rightarrow>
                  (let xs = side is_local v
                   in if xs = [] then Some None
                      else if length xs = 1
                      then (if xs ! 0 = incoming_conn then Some None else Some (Some (xs ! 0)))
                      else (let pos = rng 2 in get_one_connection_loop xs incoming_conn pos pos))))"

definition get_all_connections ::
    "'b agent_type_state \<Rightarrow> u64 option \<Rightarrow> u64 \<Rightarrow> bool \<Rightarrow> u64 list option" where
  "get_all_connections s agent_id incoming_conn is_local =
     (case agent_id of
        None \<Rightarrow> connections_get_all (side is_local (ats_connections s)) incoming_conn
      | Some i \<Rightarrow>
          (case hm_get (=) i (ats_ids s) of
             None \<Rightarrow> None
           | Some v \<Rightarrow>
               (let xs = side is_local v
                in if xs = [] then None
                   else if length xs = 1
                   then (if xs ! 0 = incoming_conn then None else Some xs)
                   else (let out = filter (\<lambda>c. c \<noteq> incoming_conn) xs
                         in if out = [] then None else Some out))))"

section \<open>Invariant\<close>

text \<open>
  \<open>ats_holds s l i c\<close>: agent id \<open>i\<close> is subscribed on connection \<open>c\<close> on side
  \<open>l\<close>. A connection's reference count is the number of ids subscribed on it.
\<close>

definition ats_vec :: "'b agent_type_state \<Rightarrow> u64 \<Rightarrow> u64 list \<times> u64 list" where
  "ats_vec s i = (case hm_get (=) i (ats_ids s) of None \<Rightarrow> ([], []) | Some v \<Rightarrow> v)"

definition ats_holds :: "'b agent_type_state \<Rightarrow> bool \<Rightarrow> u64 \<Rightarrow> u64 \<Rightarrow> bool" where
  "ats_holds s l i c \<longleftrightarrow> c \<in> set (side l (ats_vec s i))"

definition vec_ok :: "u64 list \<times> u64 list \<Rightarrow> bool" where
  "vec_ok v \<longleftrightarrow> (\<forall>l. distinct (side l v)) \<and> (\<exists>l. side l v \<noteq> [])"

definition ats_inv :: "'b bitvec_ops \<Rightarrow> 'b agent_type_state \<Rightarrow> bool" where
  "ats_inv BV s \<longleftrightarrow>
     hm_wf (=) (ats_ids s) \<and>
     (\<forall>i v. hm_get (=) i (ats_ids s) = Some v \<longrightarrow> vec_ok v) \<and>
     (\<forall>l. connections_inv BV (side l (ats_connections s))) \<and>
     (\<forall>l c. conn_refs (side l (ats_connections s)) c = hm_count (\<lambda>v. c \<in> set (side l v)) (ats_ids s))"

lemma side_set_side [simp]: "side l (set_side l' x p) = (if l = l' then x else side l p)"
  by (simp add: side_def set_side_def)

lemma set_side_side [simp]: "set_side l (side l p) p = p"
  by (simp add: side_def set_side_def)

lemma side_same [simp]: "side l (x, x) = x"
  by (simp add: side_def)

lemma sides_empty: "fst v = [] \<and> snd v = [] \<longleftrightarrow> (\<forall>l. side l v = [])"
  unfolding all_bool_eq by (auto simp: side_def)

lemma ats_vec_distinct: "ats_inv BV s \<Longrightarrow> distinct (side l (ats_vec s i))"
  by (cases "hm_get (=) i (ats_ids s)") (auto simp: ats_vec_def ats_inv_def vec_ok_def)

lemma ats_vec_put [simp]:
  "ats_vec \<lparr>ats_ids = hm_insert (=) i v (ats_ids s), ats_connections = cxs\<rparr> = (ats_vec s)(i := v)"
  by (simp add: fun_eq_iff ats_vec_def)

lemma ats_vec_drop [simp]:
  "ats_vec \<lparr>ats_ids = hm_remove (=) i (ats_ids s), ats_connections = cxs\<rparr> = (ats_vec s)(i := ([], []))"
  by (simp add: fun_eq_iff ats_vec_def)

text \<open>How many ids satisfy a predicate of their connections, after one id changes.\<close>

lemma hm_count_put:
  assumes "\<not> Q ([], [])"
  shows "hm_count Q (hm_insert (=) i v (ats_ids s)) + (if Q (ats_vec s i) then 1 else 0)
    = hm_count Q (ats_ids s) + (if Q v then 1 else 0)"
  using assms plain_eq.hm_count_insert [of Q i v "ats_ids s"]
  by (cases "hm_get (=) i (ats_ids s)") (simp_all add: ats_vec_def)

lemma hm_count_drop:
  assumes "\<not> Q ([], [])" "hm_wf (=) (ats_ids s)"
  shows "hm_count Q (hm_remove (=) i (ats_ids s)) + (if Q (ats_vec s i) then 1 else 0) = hm_count Q (ats_ids s)"
  using assms plain_eq.hm_count_remove [of "ats_ids s" Q i]
  by (cases "hm_get (=) i (ats_ids s)") (simp_all add: ats_vec_def)

lemma ats_refs_pos:
  assumes "ats_inv BV s"
  shows "0 < conn_refs (side l (ats_connections s)) c \<longleftrightarrow> (\<exists>i. ats_holds s l i c)"
proof -
  have "hm_wf (=) (ats_ids s)" and refs: "conn_refs (side l (ats_connections s)) c = hm_count (\<lambda>v. c \<in> set (side l v)) (ats_ids s)"
    using assms by (auto simp: ats_inv_def)
  moreover have "ats_holds s l i c \<longleftrightarrow> (\<exists>v. hm_get (=) i (ats_ids s) = Some v \<and> c \<in> set (side l v))" for i
    by (cases "hm_get (=) i (ats_ids s)") (simp_all add: ats_holds_def ats_vec_def)
  ultimately show ?thesis using plain_eq.hm_count_pos [of "ats_ids s" "\<lambda>v. c \<in> set (side l v)"] by metis
qed

section \<open>Laws\<close>

lemma ats_inv_put:
  assumes inv: "ats_inv BV s" and new: "vec_ok v" and cxs: "\<And>l. connections_inv BV (side l cxs)"
    and refs: "\<And>l c. conn_refs (side l cxs) c + (if c \<in> set (side l (ats_vec s i)) then 1 else 0)
      = conn_refs (side l (ats_connections s)) c + (if c \<in> set (side l v) then 1 else 0)"
  shows "ats_inv BV \<lparr>ats_ids = hm_insert (=) i v (ats_ids s), ats_connections = cxs\<rparr>"
proof -
  have "conn_refs (side l cxs) c = hm_count (\<lambda>v. c \<in> set (side l v)) (hm_insert (=) i v (ats_ids s))" for l c
    using refs [of l c] hm_count_put [of "\<lambda>v. c \<in> set (side l v)" i v s] inv
    by (simp add: ats_inv_def split: if_splits)
  then show ?thesis using inv new cxs unfolding ats_inv_def by (cases v) simp
qed

lemma ats_inv_drop:
  assumes inv: "ats_inv BV s" and cxs: "\<And>l. connections_inv BV (side l cxs)"
    and refs: "\<And>l c. conn_refs (side l cxs) c + (if c \<in> set (side l (ats_vec s i)) then 1 else 0)
      = conn_refs (side l (ats_connections s)) c"
  shows "ats_inv BV \<lparr>ats_ids = hm_remove (=) i (ats_ids s), ats_connections = cxs\<rparr>"
proof -
  have "conn_refs (side l cxs) c = hm_count (\<lambda>v. c \<in> set (side l v)) (hm_remove (=) i (ats_ids s))" for l c
    using refs [of l c] hm_count_drop [of "\<lambda>v. c \<in> set (side l v)" s i] inv
    by (simp add: ats_inv_def split: if_splits)
  then show ?thesis using inv cxs unfolding ats_inv_def by simp
qed

context bit_vec
begin

lemma ats_inv_default [simp]: "ats_inv BV (ats_default BV)"
  by (simp add: ats_inv_def ats_default_def hm_count_def)

lemma ats_holds_default [simp]: "\<not> ats_holds (ats_default BV) l i c"
  by (simp add: ats_holds_def ats_vec_def ats_default_def)

lemma ats_insert_spec:
  assumes inv: "ats_inv BV s" and new: "\<not> ats_holds s l i c"
  shows "\<exists>s'. ats_insert BV s i c l = Some s' \<and> ats_inv BV s' \<and> ats_ids s' \<noteq> [] \<and>
    (\<forall>l' i' c'. ats_holds s' l' i' c' \<longleftrightarrow> l' = l \<and> i' = i \<and> c' = c \<or> ats_holds s l' i' c')"
proof -
  let ?v = "set_side l (side l (ats_vec s i) @ [c]) (ats_vec s i)"
  obtain cx where cx: "connections_insert BV (side l (ats_connections s)) c = Some cx" "connections_inv BV cx"
      "conn_refs cx = (conn_refs (side l (ats_connections s)))(c := Suc (conn_refs (side l (ats_connections s)) c))"
    using inv connections_insert_spec by (metis ats_inv_def)
  let ?s = "\<lparr>ats_ids = hm_insert (=) i ?v (ats_ids s), ats_connections = set_side l cx (ats_connections s)\<rparr>"
  have eq: "ats_insert BV s i c l = Some ?s"
    using cx(1) by (cases "hm_get (=) i (ats_ids s)") (simp_all add: ats_insert_def ats_vec_def)
  have notin: "c \<notin> set (side l (ats_vec s i))" using new by (simp add: ats_holds_def)
  have "ats_inv BV ?s"
  proof (rule ats_inv_put [OF inv])
    show "vec_ok ?v" using ats_vec_distinct [OF inv] notin by (auto simp: vec_ok_def)
  qed (use inv cx notin in \<open>auto simp: ats_inv_def\<close>)
  moreover have "hm_insert (=) i ?v (ats_ids s) \<noteq> []" by (cases "ats_ids s") auto
  moreover have "ats_holds ?s l' i' c' \<longleftrightarrow> l' = l \<and> i' = i \<and> c' = c \<or> ats_holds s l' i' c'" for l' i' c'
    by (auto simp: ats_holds_def)
  ultimately show ?thesis using eq by auto
qed

end

lemma ats_new_insert: "ats_new BV i c l = ats_insert BV (ats_default BV) i c l"
  by (cases l) (simp_all add: ats_new_def ats_insert_def ats_default_def Let_def side_def set_side_def)

lemma position_eq:
  assumes "c \<in> set xs"
  obtains k where "position (\<lambda>x. x = c) xs = Some k" "k < length xs" "xs ! k = c"
  using assms position_None [of "\<lambda>x. x = c" xs] position_Some [of "\<lambda>x. x = c" xs] by (metis option.exhaust)

context bit_vec
begin

lemma ats_new_spec:
  "\<exists>s. ats_new BV i c l = Some s \<and> ats_inv BV s \<and> ats_ids s \<noteq> [] \<and>
    (\<forall>l' i' c'. ats_holds s l' i' c' \<longleftrightarrow> l' = l \<and> i' = i \<and> c' = c)"
  using ats_insert_spec [OF ats_inv_default ats_holds_default] unfolding ats_new_insert by simp

lemma ats_remove_spec:
  assumes inv: "ats_inv BV s" and held: "ats_holds s l i c"
  shows "\<exists>s'. ats_remove BV s i c l = Some (Inr (), s') \<and> ats_inv BV s' \<and>
    (\<forall>l' i' c'. ats_holds s' l' i' c' \<longleftrightarrow> ats_holds s l' i' c' \<and> \<not> (l' = l \<and> i' = i \<and> c' = c))"
proof -
  let ?old = "ats_vec s i"
  have mem: "c \<in> set (side l ?old)" using held by (simp add: ats_holds_def)
  then have get: "hm_get (=) i (ats_ids s) = Some ?old"
    by (cases "hm_get (=) i (ats_ids s)") (simp_all add: ats_vec_def)
  have pos: "0 < conn_refs (side l (ats_connections s)) c" using ats_refs_pos [OF inv] held by blast
  obtain cx where cx: "connections_remove BV (side l (ats_connections s)) c = Some (Inr (), cx)" "connections_inv BV cx"
      "conn_refs cx = (conn_refs (side l (ats_connections s)))(c := conn_refs (side l (ats_connections s)) c - 1)"
    using inv connections_remove_spec [OF _ pos] by (metis ats_inv_def)
  obtain k where k: "position (\<lambda>x. x = c) (side l ?old) = Some k" "k < length (side l ?old)" "side l ?old ! k = c"
    using position_eq [OF mem] .
  have rest: "distinct (swap_remove k (side l ?old))" "set (swap_remove k (side l ?old)) = set (side l ?old) - {c}"
    using distinct_swap_remove [OF ats_vec_distinct [OF inv] k(2)] k(3) by auto
  let ?v = "set_side l (swap_remove k (side l ?old)) ?old"
  let ?cxs = "set_side l cx (ats_connections s)"
  define gone where "gone \<longleftrightarrow> fst ?v = [] \<and> snd ?v = []"
  define s' where "s' = \<lparr>ats_ids = (if gone then hm_remove (=) i (ats_ids s) else hm_insert (=) i ?v (ats_ids s)),
    ats_connections = ?cxs\<rparr>"
  have eq: "ats_remove BV s i c l = Some (Inr (), s')"
    using get cx(1) k(1) by (simp add: ats_remove_def Let_def s'_def gone_def)
  have sv: "set (side l' ?v) = set (side l' ?old) - (if l' = l then {c} else {})" for l'
    using rest(2) by simp
  have gone: "side l' ?v = []" if gone for l' using that sides_empty [of ?v] unfolding gone_def by blast
  have vecs: "ats_vec s' = (ats_vec s)(i := if gone then ([], []) else ?v)"
    by (cases gone) (simp_all add: s'_def)
  have vec: "c' \<in> set (side l' (ats_vec s' i')) \<longleftrightarrow>
      c' \<in> set (side l' (ats_vec s i')) \<and> \<not> (l' = l \<and> i' = i \<and> c' = c)" for l' i' c'
  proof (cases "i' = i")
    case True
    have "set (side l' (ats_vec s' i)) = set (side l' ?v)" using gone [of l'] unfolding vecs by (cases gone) simp_all
    then show ?thesis using True sv [of l'] by (simp split: if_splits)
  qed (simp add: vecs)
  have cxs: "connections_inv BV (side l' ?cxs)" for l' using inv cx(2) by (simp add: ats_inv_def)
  have refs: "conn_refs (side l' ?cxs) c' + (if c' = c \<and> l' = l then 1 else 0)
      = conn_refs (side l' (ats_connections s)) c'" for l' c'
    using cx(3) pos by auto
  have "ats_inv BV s'"
  proof (cases gone)
    case True
    have "c' \<in> set (side l' ?old) \<longleftrightarrow> c' = c \<and> l' = l" for c' l'
      using gone [OF True, of l'] sv [of l'] mem by (auto split: if_splits)
    then show ?thesis using True ats_inv_drop [OF inv cxs, of i] refs by (simp add: s'_def)
  next
    case False
    then have "vec_ok ?v" using rest(1) ats_vec_distinct [OF inv] sides_empty [of ?v]
      unfolding gone_def vec_ok_def by simp
    then have "ats_inv BV \<lparr>ats_ids = hm_insert (=) i ?v (ats_ids s), ats_connections = ?cxs\<rparr>"
    proof (rule ats_inv_put [OF inv _ cxs])
      fix l' c'
      show "conn_refs (side l' ?cxs) c' + (if c' \<in> set (side l' ?old) then 1 else 0)
          = conn_refs (side l' (ats_connections s)) c' + (if c' \<in> set (side l' ?v) then 1 else 0)"
        using refs [of l' c'] mem unfolding sv by (cases "l' = l"; cases "c' = c") auto
    qed
    then show ?thesis using False by (simp add: s'_def)
  qed
  then show ?thesis using eq vec by (simp add: ats_holds_def)
qed

lemma ats_remove_unknown:
  assumes inv: "ats_inv BV s"
  shows "hm_get (=) i (ats_ids s) = None \<Longrightarrow> ats_remove BV s i c l = Some (Inl AgentIdNotFound, s)"
    and "hm_get (=) i (ats_ids s) \<noteq> None \<Longrightarrow> \<forall>j. \<not> ats_holds s l j c \<Longrightarrow>
      ats_remove BV s i c l = Some (Inl ConnectionIdNotFound, s)"
proof -
  assume "hm_get (=) i (ats_ids s) \<noteq> None" and none: "\<forall>j. \<not> ats_holds s l j c"
  then have "conn_refs (side l (ats_connections s)) c = 0" using ats_refs_pos [OF inv, of l c] by simp
  then have "connections_remove BV (side l (ats_connections s)) c =
      Some (Inl ConnectionIdNotFound, side l (ats_connections s))"
    using inv connections_remove_absent by (simp add: ats_inv_def)
  then show "ats_remove BV s i c l = Some (Inl ConnectionIdNotFound, s)"
    using \<open>hm_get (=) i (ats_ids s) \<noteq> None\<close> by (auto simp: ats_remove_def)
qed (simp add: ats_remove_def)

text \<open>
  The reference is taken off before the connections of the agent are looked at, so that removing an
  agent from a connection it is not on costs another agent of the connection its reference.
\<close>

lemma ats_remove_stray:
  assumes inv: "ats_inv BV s" and known: "ats_holds s k i c'" and stray: "\<not> ats_holds s l i c" and held: "ats_holds s l j c"
  shows "\<exists>cx. ats_remove BV s i c l = Some (Inr (), s\<lparr>ats_connections := set_side l cx (ats_connections s)\<rparr>) \<and>
    connections_inv BV cx \<and>
    conn_refs cx = (conn_refs (side l (ats_connections s)))(c := conn_refs (side l (ats_connections s)) c - 1)"
proof -
  obtain v where v: "hm_get (=) i (ats_ids s) = Some v"
    using known by (cases "hm_get (=) i (ats_ids s)") (auto simp: ats_holds_def ats_vec_def)
  have "position (\<lambda>x. x = c) (side l v) = None"
    using stray v by (auto simp: position_None ats_holds_def ats_vec_def)
  moreover have "0 < conn_refs (side l (ats_connections s)) c" using ats_refs_pos [OF inv] held by blast
  then obtain cx where "connections_remove BV (side l (ats_connections s)) c = Some (Inr (), cx)" "connections_inv BV cx"
      "conn_refs cx = (conn_refs (side l (ats_connections s)))(c := conn_refs (side l (ats_connections s)) c - 1)"
    using inv connections_remove_spec by (metis ats_inv_def)
  ultimately show ?thesis using v by (intro exI [of _ cx]) (simp add: ats_remove_def Let_def)
qed

lemma ats_only_holder:
  assumes inv: "ats_inv BV s" and only: "\<And>i. ats_holds s l i c \<longleftrightarrow> i = j"
  shows "conn_refs (side l (ats_connections s)) c = 1"
proof -
  let ?Q = "\<lambda>v. c \<in> set (side l v)"
  have wf: "hm_wf (=) (ats_ids s)" using inv by (simp add: ats_inv_def)
  have "\<not> 0 < hm_count ?Q (hm_remove (=) j (ats_ids s))"
  proof
    assume "0 < hm_count ?Q (hm_remove (=) j (ats_ids s))"
    then obtain i v where "hm_get (=) i (hm_remove (=) j (ats_ids s)) = Some v" "?Q v"
      using plain_eq.hm_count_pos [of "hm_remove (=) j (ats_ids s)" ?Q] wf by auto
    then show False using only [of i] by (auto simp: ats_holds_def ats_vec_def split: if_splits)
  qed
  moreover have "?Q (ats_vec s j)" using only [of j] by (simp add: ats_holds_def)
  ultimately have "hm_count ?Q (ats_ids s) = 1" using hm_count_drop [of ?Q s j] wf by simp
  then show ?thesis using inv by (simp add: ats_inv_def)
qed

end

section \<open>Matching\<close>

text \<open>The connections of one side a message for \<open>agent_id\<close> may go to.\<close>

definition ats_targets :: "'b agent_type_state \<Rightarrow> bool \<Rightarrow> u64 option \<Rightarrow> u64 \<Rightarrow> u64 set" where
  "ats_targets s l agent_id incoming_conn =
     {c. c \<noteq> incoming_conn \<and> (case agent_id of None \<Rightarrow> \<exists>i. ats_holds s l i c | Some i \<Rightarrow> ats_holds s l i c)}"

lemma get_one_connection_loop_value:
  assumes "pos < length xs" and "t < length xs"
  shows "get_one_connection_loop xs e pos ((pos + t) mod length xs) =
    Some (if xs ! pos = e then None else Some (xs ! pos))"
  using assms(2)
proof (induction "length xs - t" arbitrary: t rule: less_induct)
  case less
  note loop = get_one_connection_loop.simps [of xs e pos "(pos + t) mod length xs",
      unfolded wrap_step wrap_back_iff [OF assms(1) Suc_leI [OF less(2)]]]
  show ?case
  proof (cases "xs ! pos = e \<and> Suc t \<noteq> length xs")
    case True
    then have lt: "Suc t < length xs" using less(2) by simp
    have "get_one_connection_loop xs e pos ((pos + Suc t) mod length xs) = Some None"
      using less(1) [OF diff_less_mono2 [OF lessI less(2)] lt] True by simp
    then show ?thesis using True assms(1) by (subst loop) simp
  next
    case False
    then show ?thesis using assms(1) by (subst loop) auto
  qed
qed

lemma get_one_connection_loop_start:
  "pos < length xs \<Longrightarrow>
   get_one_connection_loop xs e pos pos = Some (if xs ! pos = e then None else Some (xs ! pos))"
  using get_one_connection_loop_value [of pos xs 0 e] by (cases xs) auto

lemma ats_vec_Some: "hm_get (=) i (ats_ids s) = Some v \<Longrightarrow> ats_vec s i = v"
  by (simp add: ats_vec_def)

lemma get_one_connection_by_id:
  assumes rng: "rng_in_range rng" and v: "hm_get (=) i (ats_ids s) = Some v"
  shows "\<exists>r. get_one_connection rng s (Some i) e l = Some r \<and> (\<forall>c. r = Some c \<longrightarrow> c \<in> ats_targets s l (Some i) e)"
proof -
  let ?xs = "side l v"
  have tgt: "c \<in> ats_targets s l (Some i) e \<longleftrightarrow> c \<noteq> e \<and> c \<in> set ?xs" for c
    by (simp add: ats_targets_def ats_holds_def ats_vec_Some [OF v])
  consider "?xs = []" | x where "?xs = [x]" | "2 \<le> length ?xs"
    by (cases ?xs rule: remdups_adj.cases) auto
  then show ?thesis
  proof cases
    case 3
    then have pos: "rng 2 < length ?xs" using rng unfolding rng_in_range_def by (metis less_le_trans zero_less_numeral)
    have "get_one_connection rng s (Some i) e l = get_one_connection_loop ?xs e (rng 2) (rng 2)"
      using v 3 by (auto simp: get_one_connection_def Let_def)
    then show ?thesis
      using get_one_connection_loop_start [OF pos] nth_mem [OF pos] tgt by auto
  qed (use v tgt in \<open>auto simp: get_one_connection_def\<close>)
qed

text \<open>
  The vector is read at one position only, so a search by id is sure to succeed only when the
  connection the message came from is not one of the connections of the agent.
\<close>

lemma get_one_connection_id_found:
  assumes rng: "rng_in_range rng" and e: "\<not> ats_holds s l i e" and some: "ats_targets s l (Some i) e \<noteq> {}"
  shows "\<exists>c. get_one_connection rng s (Some i) e l = Some (Some c) \<and> c \<in> ats_targets s l (Some i) e"
proof -
  obtain v where v: "hm_get (=) i (ats_ids s) = Some v"
    using some by (cases "hm_get (=) i (ats_ids s)") (auto simp: ats_targets_def ats_holds_def ats_vec_def)
  let ?xs = "side l v"
  have xs: "e \<notin> set ?xs" "?xs \<noteq> []" using e some by (auto simp: ats_targets_def ats_holds_def ats_vec_Some [OF v])
  have tgt: "c \<in> ats_targets s l (Some i) e \<longleftrightarrow> c \<noteq> e \<and> c \<in> set ?xs" for c
    by (simp add: ats_targets_def ats_holds_def ats_vec_Some [OF v])
  consider x where "?xs = [x]" | "2 \<le> length ?xs"
    using xs(2) by (cases ?xs rule: remdups_adj.cases) auto
  then show ?thesis
  proof cases
    case 2
    then have pos: "rng 2 < length ?xs" using rng unfolding rng_in_range_def by (metis less_le_trans zero_less_numeral)
    have "get_one_connection rng s (Some i) e l = get_one_connection_loop ?xs e (rng 2) (rng 2)"
      using v 2 by (auto simp: get_one_connection_def Let_def)
    then show ?thesis using get_one_connection_loop_start [OF pos, of e] nth_mem [OF pos] tgt xs(1) by auto
  qed (use v tgt xs(1) in \<open>auto simp: get_one_connection_def\<close>)
qed

lemma get_one_connection_spec:
  assumes inv: "ats_inv BV s" and rng: "rng_in_range rng"
  shows "\<exists>r. get_one_connection rng s agent_id e l = Some r \<and>
    (\<forall>c. r = Some c \<longrightarrow> c \<in> ats_targets s l agent_id e \<or>
       (\<exists>i. agent_id = Some i \<and> hm_get (=) i (ats_ids s) = None \<and> ats_targets s l None e = {c}))"
proof -
  let ?cx = "side l (ats_connections s)"
  have cx: "connections_inv BV ?cx" using inv by (simp add: ats_inv_def)
  have tgt: "c \<in> ats_targets s l None e \<longleftrightarrow> c \<noteq> e \<and> 0 < conn_refs ?cx c" for c
    using ats_refs_pos [OF inv] by (simp add: ats_targets_def)
  obtain r where r: "connections_get_one rng ?cx e = Some r" "\<And>c. r = Some c \<Longrightarrow> c \<noteq> e \<and> 0 < conn_refs ?cx c"
    using connections_get_one_spec [OF cx rng, of e] by blast
  show ?thesis
  proof (cases agent_id)
    case None
    then show ?thesis using r tgt by (intro exI [of _ r]) (simp add: get_one_connection_def)
  next
    case (Some i)
    show ?thesis
    proof (cases "hm_get (=) i (ats_ids s)")
      case none: None
      show ?thesis
      proof (cases "length (cx_index ?cx) = 1")
        case True
        then obtain c k where c: "\<And>c'. 0 < conn_refs ?cx c' \<longleftrightarrow> c' = c" using single_index [OF cx] by blast
        have "ats_targets s l None e = {c'}" if "r = Some c'" for c'
          using r(2) [OF that] c tgt by auto
        then show ?thesis using Some none True r(1)
          by (intro exI [of _ r]) (simp add: get_one_connection_def)
      qed (use Some none in \<open>simp add: get_one_connection_def\<close>)
    next
      case (Some v)
      then show ?thesis using get_one_connection_by_id [OF rng Some] \<open>agent_id = Some i\<close> by blast
    qed
  qed
qed

lemma get_all_connections_spec:
  assumes inv: "ats_inv BV s"
  shows "case get_all_connections s agent_id e l of
      None \<Rightarrow> ats_targets s l agent_id e = {}
    | Some out \<Rightarrow> out \<noteq> [] \<and> distinct out \<and> set out = ats_targets s l agent_id e"
proof (cases agent_id)
  case None
  let ?cx = "side l (ats_connections s)"
  have cx: "connections_inv BV ?cx" using inv by (simp add: ats_inv_def)
  have tgt: "ats_targets s l None e = {c. 0 < conn_refs ?cx c \<and> c \<noteq> e}"
    using ats_refs_pos [OF inv] by (auto simp: ats_targets_def)
  have "get_all_connections s agent_id e l = connections_get_all ?cx e"
    using None by (simp add: get_all_connections_def)
  then show ?thesis using connections_get_all_spec [OF cx, of e] unfolding None tgt
    by (auto split: option.splits)
next
  case (Some i)
  show ?thesis
  proof (cases "hm_get (=) i (ats_ids s)")
    case none: None
    then show ?thesis using Some by (simp add: get_all_connections_def ats_targets_def ats_holds_def ats_vec_def)
  next
    case v: (Some v)
    let ?xs = "side l v"
    have tgt: "ats_targets s l agent_id e = {c. c \<noteq> e \<and> c \<in> set ?xs}"
      using Some by (simp add: ats_targets_def ats_holds_def ats_vec_Some [OF v])
    have dist: "distinct ?xs" using ats_vec_distinct [OF inv] ats_vec_Some [OF v] by metis
    consider "?xs = []" | x where "?xs = [x]" | "2 \<le> length ?xs"
      by (cases ?xs rule: remdups_adj.cases) auto
    then show ?thesis
    proof cases
      case 3
      then have "get_all_connections s agent_id e l =
          (let out = filter (\<lambda>c. c \<noteq> e) ?xs in if out = [] then None else Some out)"
        using Some v by (auto simp: get_all_connections_def Let_def)
      then show ?thesis using dist unfolding tgt by (auto simp: Let_def filter_empty_conv)
    qed (use Some v tgt in \<open>auto simp: get_all_connections_def\<close>)
  qed
qed

text \<open>
  C23: for an agent id subscribed on several connections of a side, the search looks at one of the
  first two connections only, the one the random number selects: it returns that connection, or
  nothing if the message came from it, whatever the other connections are.
\<close>

theorem get_one_connection_first_two:
  assumes "rng_in_range rng" and "hm_get (=) i (ats_ids s) = Some v" and "2 \<le> length (side l v)"
  shows "get_one_connection rng s (Some i) e l =
    Some (if side l v ! rng 2 = e then None else Some (side l v ! rng 2)) \<and> rng 2 < 2"
proof -
  have rng: "rng 2 < 2" using assms(1) by (simp add: rng_in_range_def)
  then have pos: "rng 2 < length (side l v)" using assms(3) by simp
  have "get_one_connection rng s (Some i) e l = get_one_connection_loop (side l v) e (rng 2) (rng 2)"
    using assms(2,3) by (auto simp: get_one_connection_def Let_def)
  then show ?thesis using get_one_connection_loop_start [OF pos] rng by simp
qed

theorem get_one_connection_first_two_witness:
  "get_one_connection (\<lambda>_. 0)
     \<lparr>ats_ids = [(1, ([20, 21, 22], []))], ats_connections = (three_connections, three_connections)\<rparr>
     (Some 1) 20 True = Some None"
  using get_one_connection_first_two [of "\<lambda>_. 0" 1
      "\<lparr>ats_ids = [(1, ([20, 21, 22], []))], ats_connections = (three_connections, three_connections)\<rparr>"
      "([20, 21, 22], [])" True 20]
  by (simp add: rng_in_range_def side_def)

end
