(* ===== verification/Subscription_Table.thy ===== *)
theory Subscription_Table
  imports Agent_Type_State
begin

text \<open>
  The subscription table, \<open>SubscriptionTableImpl\<close> of
  \<^verbatim>\<open>datapath/src/tables/subscription_table.rs\<close>: the state of every agent type, and for
  every connection the set of agents subscribed on it. Operations that return a \<open>Result\<close>
  return it with the table, since an error can come after a change.
\<close>

record 'b subscription_table =
  st_table :: "(agent_type, 'b agent_type_state) hmap"
  st_connections :: "(u64, agent hset) hmap"

definition subscription_table_default :: "'b subscription_table" where
  "subscription_table_default = \<lparr>st_table = [], st_connections = []\<rparr>"

definition add_subscription_to_sub_table ::
    "'b bitvec_ops \<Rightarrow> agent \<Rightarrow> u64 \<Rightarrow> bool \<Rightarrow> (agent_type, 'b agent_type_state) hmap \<Rightarrow>
     (agent_type, 'b agent_type_state) hmap option" where
  "add_subscription_to_sub_table BV agent conn is_local table =
     (case hm_get agent_type_eq (ag_type agent) table of
        None \<Rightarrow> do {
          s \<leftarrow> ats_new BV (ag_id agent) conn is_local;
          Some (hm_insert agent_type_eq (ag_type agent) s table)
        }
      | Some s \<Rightarrow> do {
          s \<leftarrow> ats_insert BV s (ag_id agent) conn is_local;
          Some (hm_insert agent_type_eq (ag_type agent) s table)
        })"

definition add_subscription_to_connection ::
    "agent \<Rightarrow> u64 \<Rightarrow> (u64, agent hset) hmap \<Rightarrow> (subscription_table_error + unit) \<times> (u64, agent hset) hmap" where
  "add_subscription_to_connection agent conn m =
     (case hm_get (=) conn m of
        None \<Rightarrow> (Inr (), hm_insert (=) conn (hs_insert agent_eq agent []) m)
      | Some s \<Rightarrow> (Inr (), hm_insert (=) conn (hs_insert agent_eq agent s) m))"

definition remove_subscription_from_sub_table ::
    "'b bitvec_ops \<Rightarrow> agent \<Rightarrow> u64 \<Rightarrow> bool \<Rightarrow> (agent_type, 'b agent_type_state) hmap \<Rightarrow>
     ((subscription_table_error + unit) \<times> (agent_type, 'b agent_type_state) hmap) option" where
  "remove_subscription_from_sub_table BV agent conn is_local table =
     (case hm_get agent_type_eq (ag_type agent) table of
        None \<Rightarrow> Some (Inl SubscriptionNotFound, table)
      | Some s \<Rightarrow> do {
          (r, s) \<leftarrow> ats_remove BV s (ag_id agent) conn is_local;
          let table = hm_insert agent_type_eq (ag_type agent) s table;
          case r of
            Inl e \<Rightarrow> Some (Inl e, table)
          | Inr _ \<Rightarrow> Some (Inr (),
              if ats_ids s = [] then hm_remove agent_type_eq (ag_type agent) table else table)
        })"

definition remove_subscription_from_connection ::
    "agent \<Rightarrow> u64 \<Rightarrow> (u64, agent hset) hmap \<Rightarrow> (subscription_table_error + unit) \<times> (u64, agent hset) hmap" where
  "remove_subscription_from_connection agent conn m =
     (case hm_get (=) conn m of
        None \<Rightarrow> (Inl ConnectionIdNotFound, m)
      | Some s \<Rightarrow>
          (if \<not> hs_contains agent_eq agent s then (Inl SubscriptionNotFound, m)
           else (let s = hs_remove agent_eq agent s
                 in (Inr (), if s = [] then hm_remove (=) conn m else hm_insert (=) conn s m))))"

definition st_for_each ::
    "'b subscription_table \<Rightarrow> (agent_type \<Rightarrow> u64 \<Rightarrow> u64 list \<Rightarrow> u64 list \<Rightarrow> 's \<Rightarrow> 's) \<Rightarrow> 's \<Rightarrow> 's" where
  "st_for_each st f =
     fold (\<lambda>(k, v). fold (\<lambda>(i, conn). f k i (fst conn) (snd conn)) (ats_ids v)) (st_table st)"

definition uid_or_default :: "u64 option \<Rightarrow> u64" where
  "uid_or_default i = (case i of None \<Rightarrow> DEFAULT_AGENT_ID | Some i \<Rightarrow> i)"

definition add_subscription ::
    "'b bitvec_ops \<Rightarrow> 'b subscription_table \<Rightarrow> agent_type \<Rightarrow> u64 option \<Rightarrow> u64 \<Rightarrow> bool \<Rightarrow>
     ((subscription_table_error + unit) \<times> 'b subscription_table) option" where
  "add_subscription BV st agent_type agent_uid conn is_local =
     (let agent = agent_new agent_type (uid_or_default agent_uid)
      in if (case hm_get (=) conn (st_connections st) of
               None \<Rightarrow> False | Some s \<Rightarrow> hs_contains agent_eq agent s)
         then Some (Inr (), st)
         else do {
           table \<leftarrow> add_subscription_to_sub_table BV agent conn is_local (st_table st);
           let (r, m) = add_subscription_to_connection agent conn (st_connections st);
           Some (r, st\<lparr>st_table := table, st_connections := m\<rparr>)
         })"

definition remove_subscription ::
    "'b bitvec_ops \<Rightarrow> 'b subscription_table \<Rightarrow> agent_type \<Rightarrow> u64 option \<Rightarrow> u64 \<Rightarrow> bool \<Rightarrow>
     ((subscription_table_error + unit) \<times> 'b subscription_table) option" where
  "remove_subscription BV st agent_type agent_id conn is_local =
     (let agent = agent_new agent_type (uid_or_default agent_id)
      in do {
        (r, table) \<leftarrow> remove_subscription_from_sub_table BV agent conn is_local (st_table st);
        let st = st\<lparr>st_table := table\<rparr>;
        case r of
          Inl e \<Rightarrow> Some (Inl e, st)
        | Inr _ \<Rightarrow>
            (let (r, m) = remove_subscription_from_connection agent conn (st_connections st)
             in Some (r, st\<lparr>st_connections := m\<rparr>))
      })"

text \<open>The loop of \<open>remove_connection\<close> over the agents of the connection; the first error ends it.\<close>

fun remove_agents ::
    "'b bitvec_ops \<Rightarrow> u64 \<Rightarrow> bool \<Rightarrow> agent list \<Rightarrow> (agent_type, 'b agent_type_state) hmap \<Rightarrow>
     ((subscription_table_error + unit) \<times> (agent_type, 'b agent_type_state) hmap) option" where
  "remove_agents BV conn is_local [] table = Some (Inr (), table)"
| "remove_agents BV conn is_local (a # as) table = do {
     (r, table) \<leftarrow> remove_subscription_from_sub_table BV a conn is_local table;
     case r of
       Inl e \<Rightarrow> Some (Inl e, table)
     | Inr _ \<Rightarrow> remove_agents BV conn is_local as table
   }"

definition remove_connection ::
    "'b bitvec_ops \<Rightarrow> 'b subscription_table \<Rightarrow> u64 \<Rightarrow> bool \<Rightarrow>
     ((subscription_table_error + unit) \<times> 'b subscription_table) option" where
  "remove_connection BV st conn is_local =
     (case hm_get (=) conn (st_connections st) of
        None \<Rightarrow> Some (Inl ConnectionIdNotFound, st)
      | Some agents \<Rightarrow> do {
          (r, table) \<leftarrow> remove_agents BV conn is_local agents (st_table st);
          let st = st\<lparr>st_table := table\<rparr>;
          case r of
            Inl e \<Rightarrow> Some (Inl e, st)
          | Inr _ \<Rightarrow> Some (Inr (), st\<lparr>st_connections := hm_remove (=) conn (st_connections st)\<rparr>)
        })"

definition no_match :: "agent_type \<Rightarrow> u64 option \<Rightarrow> subscription_table_error" where
  "no_match t i = NoMatch (agent_type_display t @ '', '' @ debug_option_u64 i)"

text \<open>One source of random numbers for the search on each side.\<close>

definition match_one ::
    "(nat \<Rightarrow> nat) \<Rightarrow> (nat \<Rightarrow> nat) \<Rightarrow> 'b subscription_table \<Rightarrow> agent_type \<Rightarrow> u64 option \<Rightarrow> u64 \<Rightarrow>
     (subscription_table_error, u64) rust" where
  "match_one rng_local rng_remote st agent_type agent_id incoming_conn =
     (case hm_get agent_type_eq agent_type (st_table st) of
        None \<Rightarrow> Err (no_match agent_type agent_id)
      | Some s \<Rightarrow> do {
          local_out \<leftarrow> get_one_connection rng_local s agent_id incoming_conn True;
          case local_out of
            Some out \<Rightarrow> Ok out
          | None \<Rightarrow> do {
              remote_out \<leftarrow> get_one_connection rng_remote s agent_id incoming_conn False;
              case remote_out of
                Some out \<Rightarrow> Ok out
              | None \<Rightarrow> Err (no_match agent_type agent_id)
            }
        })"

definition match_all ::
    "'b subscription_table \<Rightarrow> agent_type \<Rightarrow> u64 option \<Rightarrow> u64 \<Rightarrow> subscription_table_error + u64 list" where
  "match_all st agent_type agent_id incoming_conn =
     (case hm_get agent_type_eq agent_type (st_table st) of
        None \<Rightarrow> Inl (no_match agent_type agent_id)
      | Some s \<Rightarrow>
          (case get_all_connections s agent_id incoming_conn True of
             Some out \<Rightarrow> Inr out
           | None \<Rightarrow>
               (case get_all_connections s agent_id incoming_conn False of
                  Some out \<Rightarrow> Inr out
                | None \<Rightarrow> Inl (no_match agent_type agent_id))))"

section \<open>The table of agent types\<close>

definition tab_subs ::
    "(agent_type, 'b agent_type_state) hmap \<Rightarrow> agent_type \<Rightarrow> u64 \<Rightarrow> u64 \<Rightarrow> bool \<Rightarrow> bool" where
  "tab_subs table t i c l \<longleftrightarrow> (\<exists>s. hm_get agent_type_eq t table = Some s \<and> ats_holds s l i c)"

definition tab_inv :: "'b bitvec_ops \<Rightarrow> (agent_type, 'b agent_type_state) hmap \<Rightarrow> bool" where
  "tab_inv BV table \<longleftrightarrow>
     hm_wf agent_type_eq table \<and>
     (\<forall>t s. hm_get agent_type_eq t table = Some s \<longrightarrow> ats_inv BV s \<and> ats_ids s \<noteq> [])"

lemma tab_subs_cong: "agent_type_eq t t' \<Longrightarrow> tab_subs table t = tab_subs table t'"
  by (simp add: tab_subs_def fun_eq_iff at_eq.hm_get_cong [of t t'])

lemma ats_holds_ids: "ats_holds s l i c \<Longrightarrow> ats_ids s \<noteq> []"
  by (auto simp: ats_holds_def ats_vec_def)

lemma tab_inv_put:
  "tab_inv BV table \<Longrightarrow> ats_inv BV s \<Longrightarrow> ats_ids s \<noteq> [] \<Longrightarrow> tab_inv BV (hm_insert agent_type_eq t s table)"
  by (auto simp: tab_inv_def split: if_splits)

lemma tab_inv_drop: "tab_inv BV table \<Longrightarrow> tab_inv BV (hm_remove agent_type_eq t table)"
  by (auto simp: tab_inv_def split: if_splits)

lemma tab_subs_put:
  "tab_subs (hm_insert agent_type_eq t s table) t' i c l \<longleftrightarrow>
     (if agent_type_eq t t' then ats_holds s l i c else tab_subs table t' i c l)"
  by (simp add: tab_subs_def)

lemma tab_subs_drop:
  "tab_subs (hm_remove agent_type_eq t table) t' i c l \<longleftrightarrow> \<not> agent_type_eq t t' \<and> tab_subs table t' i c l"
  by (simp add: tab_subs_def)

context bit_vec
begin

lemma tab_add_spec:
  assumes inv: "tab_inv BV table" and new: "\<not> tab_subs table (ag_type a) (ag_id a) c l"
  shows "\<exists>table'. add_subscription_to_sub_table BV a c l table = Some table' \<and> tab_inv BV table' \<and>
    (\<forall>t i c' l'. tab_subs table' t i c' l' \<longleftrightarrow>
       agent_type_eq (ag_type a) t \<and> i = ag_id a \<and> c' = c \<and> l' = l \<or> tab_subs table t i c' l')"
proof (cases "hm_get agent_type_eq (ag_type a) table")
  case None
  obtain s where s: "ats_new BV (ag_id a) c l = Some s" "ats_inv BV s" "ats_ids s \<noteq> []"
      "\<And>l' i' c'. ats_holds s l' i' c' \<longleftrightarrow> l' = l \<and> i' = ag_id a \<and> c' = c"
    using ats_new_spec by blast
  have none: "\<not> tab_subs table t i c' l'" if "agent_type_eq (ag_type a) t" for t i c' l'
    using None that by (simp add: tab_subs_def at_eq.hm_get_cong [OF that, symmetric])
  have "add_subscription_to_sub_table BV a c l table = Some (hm_insert agent_type_eq (ag_type a) s table)"
    using None s(1) by (simp add: add_subscription_to_sub_table_def)
  then show ?thesis using tab_inv_put [OF inv s(2,3)] none by (auto simp: tab_subs_put s(4))
next
  case (Some s)
  then have s: "ats_inv BV s" "\<not> ats_holds s l (ag_id a) c"
    using inv new by (auto simp: tab_inv_def tab_subs_def)
  obtain s' where s': "ats_insert BV s (ag_id a) c l = Some s'" "ats_inv BV s'" "ats_ids s' \<noteq> []"
      "\<And>l' i' c'. ats_holds s' l' i' c' \<longleftrightarrow> l' = l \<and> i' = ag_id a \<and> c' = c \<or> ats_holds s l' i' c'"
    using ats_insert_spec [OF s] by blast
  have same: "tab_subs table t i c' l' \<longleftrightarrow> ats_holds s l' i c'" if "agent_type_eq (ag_type a) t" for t i c' l'
    using Some by (simp add: tab_subs_def at_eq.hm_get_cong [OF that, symmetric])
  have "add_subscription_to_sub_table BV a c l table = Some (hm_insert agent_type_eq (ag_type a) s' table)"
    using Some s'(1) by (simp add: add_subscription_to_sub_table_def)
  then show ?thesis using tab_inv_put [OF inv s'(2,3)] same by (auto simp: tab_subs_put s'(4))
qed

lemma tab_remove_spec:
  assumes inv: "tab_inv BV table" and held: "tab_subs table (ag_type a) (ag_id a) c l"
  shows "\<exists>table'. remove_subscription_from_sub_table BV a c l table = Some (Inr (), table') \<and> tab_inv BV table' \<and>
    (\<forall>t i c' l'. tab_subs table' t i c' l' \<longleftrightarrow>
       tab_subs table t i c' l' \<and> \<not> (agent_type_eq (ag_type a) t \<and> i = ag_id a \<and> c' = c \<and> l' = l))"
proof -
  obtain s where s: "hm_get agent_type_eq (ag_type a) table = Some s" "ats_holds s l (ag_id a) c"
    using held by (auto simp: tab_subs_def)
  then have "ats_inv BV s" using inv by (auto simp: tab_inv_def)
  then obtain s' where s': "ats_remove BV s (ag_id a) c l = Some (Inr (), s')" "ats_inv BV s'"
      "\<And>l' i' c'. ats_holds s' l' i' c' \<longleftrightarrow> ats_holds s l' i' c' \<and> \<not> (l' = l \<and> i' = ag_id a \<and> c' = c)"
    using ats_remove_spec s(2) by blast
  let ?put = "hm_insert agent_type_eq (ag_type a) s' table"
  let ?t = "if ats_ids s' = [] then hm_remove agent_type_eq (ag_type a) ?put else ?put"
  have eq: "remove_subscription_from_sub_table BV a c l table = Some (Inr (), ?t)"
    using s(1) s'(1) by (simp add: remove_subscription_from_sub_table_def Let_def)
  have same: "tab_subs table t i c' l' \<longleftrightarrow> ats_holds s l' i c'" if "agent_type_eq (ag_type a) t" for t i c' l'
    using s(1) by (simp add: tab_subs_def at_eq.hm_get_cong [OF that, symmetric])
  have subs: "tab_subs ?t t i c' l' \<longleftrightarrow> (if agent_type_eq (ag_type a) t then ats_holds s' l' i c' else tab_subs table t i c' l')"
    for t i c' l'
    using ats_holds_ids [of s' l' i c'] by (auto simp: tab_subs_put tab_subs_drop)
  have "tab_inv BV ?t"
  proof (cases "ats_ids s' = []")
    case True
    have "hm_remove agent_type_eq (ag_type a) ?put = hm_remove agent_type_eq (ag_type a) table"
      by (rule at_eq.hm_remove_insert)
    then show ?thesis using True tab_inv_drop [OF inv] by simp
  qed (use tab_inv_put [OF inv s'(2)] in simp)
  then show ?thesis using eq subs same s'(3) by auto
qed

lemma remove_agents_spec:
  assumes "tab_inv BV table" "hs_wf agent_eq as" "\<forall>a\<in>set as. tab_subs table (ag_type a) (ag_id a) c l"
  shows "\<exists>table'. remove_agents BV c l as table = Some (Inr (), table') \<and> tab_inv BV table' \<and>
    (\<forall>t i c' l'. tab_subs table' t i c' l' \<longleftrightarrow>
       tab_subs table t i c' l' \<and> \<not> (hs_contains agent_eq (agent_new t i) as \<and> c' = c \<and> l' = l))"
  using assms
proof (induction as arbitrary: table)
  case Nil
  then show ?case by (simp add: hs_contains_iff)
next
  case (Cons a as)
  have contains: "hs_contains agent_eq (agent_new t i) (a # as) \<longleftrightarrow>
      agent_type_eq (ag_type a) t \<and> i = ag_id a \<or> hs_contains agent_eq (agent_new t i) as" for t i
    by (auto simp: hs_contains_iff agent_eq_def agent_new_def)
  obtain table1 where t1: "remove_subscription_from_sub_table BV a c l table = Some (Inr (), table1)" "tab_inv BV table1"
      "\<And>t i c' l'. tab_subs table1 t i c' l' \<longleftrightarrow>
         tab_subs table t i c' l' \<and> \<not> (agent_type_eq (ag_type a) t \<and> i = ag_id a \<and> c' = c \<and> l' = l)"
    using tab_remove_spec [OF Cons.prems(1), of a c l] Cons.prems(3) by auto
  have "tab_subs table1 (ag_type b) (ag_id b) c l" if "b \<in> set as" for b
    using Cons.prems(2,3) that by (auto simp: t1(3) agent_eq_def)
  then obtain table' where "remove_agents BV c l as table1 = Some (Inr (), table')" "tab_inv BV table'"
      "\<And>t i c' l'. tab_subs table' t i c' l' \<longleftrightarrow>
         tab_subs table1 t i c' l' \<and> \<not> (hs_contains agent_eq (agent_new t i) as \<and> c' = c \<and> l' = l)"
    using Cons.IH [OF t1(2)] Cons.prems(2) by (metis hs_wf.simps(2))
  then show ?case using t1(1) unfolding contains by (auto simp: t1(3))
qed

end

section \<open>The subscription table\<close>

text \<open>
  The abstract state of the table: which agent (type and id) is subscribed on which connection, on
  the local or the remote side. The second table, from connections to agents, lists the same
  subscriptions, and no agent is subscribed on both sides of one connection.
\<close>

definition st_subs :: "'b subscription_table \<Rightarrow> agent_type \<Rightarrow> u64 \<Rightarrow> u64 \<Rightarrow> bool \<Rightarrow> bool" where
  "st_subs st = tab_subs (st_table st)"

definition st_known :: "(u64, agent hset) hmap \<Rightarrow> u64 \<Rightarrow> agent \<Rightarrow> bool" where
  "st_known m c a \<longleftrightarrow> (\<exists>s. hm_get (=) c m = Some s \<and> hs_contains agent_eq a s)"

definition sets_inv :: "(u64, agent hset) hmap \<Rightarrow> bool" where
  "sets_inv m \<longleftrightarrow> hm_wf (=) m \<and> (\<forall>c s. hm_get (=) c m = Some s \<longrightarrow> hs_wf agent_eq s \<and> s \<noteq> [])"

definition st_inv :: "'b bitvec_ops \<Rightarrow> 'b subscription_table \<Rightarrow> bool" where
  "st_inv BV st \<longleftrightarrow>
     tab_inv BV (st_table st) \<and> sets_inv (st_connections st) \<and>
     (\<forall>c a. st_known (st_connections st) c a \<longleftrightarrow> (\<exists>l. st_subs st (ag_type a) (ag_id a) c l)) \<and>
     (\<forall>t i c. \<not> (st_subs st t i c True \<and> st_subs st t i c False))"

lemma st_inv_one_side: "st_inv BV st \<Longrightarrow> st_subs st t i c l \<Longrightarrow> st_subs st t i c l' \<Longrightarrow> l = l'"
  unfolding st_inv_def by (cases l; cases l') auto

lemma add_to_connection_spec:
  assumes "sets_inv m"
  shows "\<exists>m'. add_subscription_to_connection a c m = (Inr (), m') \<and> sets_inv m' \<and>
    (\<forall>c' a'. st_known m' c' a' \<longleftrightarrow> c' = c \<and> agent_eq a a' \<or> st_known m c' a')"
proof -
  define s where "s = (case hm_get (=) c m of None \<Rightarrow> [] | Some s \<Rightarrow> s)"
  let ?m = "hm_insert (=) c (hs_insert agent_eq a s) m"
  have "add_subscription_to_connection a c m = (Inr (), ?m)"
    by (cases "hm_get (=) c m") (simp_all add: add_subscription_to_connection_def s_def)
  moreover have "hs_wf agent_eq s" using assms by (auto simp: s_def sets_inv_def split: option.splits)
  then have "sets_inv ?m" using assms by (simp add: sets_inv_def)
  moreover have "hs_contains agent_eq a' s \<longleftrightarrow> st_known m c a'" for a'
    by (cases "hm_get (=) c m") (simp_all add: s_def st_known_def hs_contains_iff)
  then have "st_known ?m c' a' \<longleftrightarrow> c' = c \<and> agent_eq a a' \<or> st_known m c' a'" for c' a'
    by (auto simp: st_known_def)
  ultimately show ?thesis by blast
qed

lemma remove_from_connection_spec:
  assumes inv: "sets_inv m" and known: "st_known m c a"
  shows "\<exists>m'. remove_subscription_from_connection a c m = (Inr (), m') \<and> sets_inv m' \<and>
    (\<forall>c' a'. st_known m' c' a' \<longleftrightarrow> st_known m c' a' \<and> \<not> (c' = c \<and> agent_eq a a'))"
proof -
  obtain s where s: "hm_get (=) c m = Some s" "hs_contains agent_eq a s"
    using known by (auto simp: st_known_def)
  let ?r = "hs_remove agent_eq a s"
  let ?m = "if ?r = [] then hm_remove (=) c m else hm_insert (=) c ?r m"
  have "remove_subscription_from_connection a c m = (Inr (), ?m)"
    using s by (simp add: remove_subscription_from_connection_def Let_def)
  moreover have "sets_inv ?m" using inv s(1) by (auto simp: sets_inv_def split: if_splits)
  moreover have "st_known ?m c' a' \<longleftrightarrow> st_known m c' a' \<and> \<not> (c' = c \<and> agent_eq a a')" for c' a'
  proof (cases "c' = c")
    case True
    have "st_known ?m c a' \<longleftrightarrow> hs_contains agent_eq a' ?r"
      by (cases "?r = []") (simp_all add: st_known_def hs_contains_iff)
    then show ?thesis using True s(1) by (auto simp: st_known_def)
  qed (simp add: st_known_def)
  ultimately show ?thesis by blast
qed

context bit_vec
begin

lemma st_inv_default [simp]: "st_inv BV subscription_table_default"
  by (simp add: st_inv_def subscription_table_default_def tab_inv_def sets_inv_def st_known_def
      st_subs_def tab_subs_def)

lemma add_subscription_spec:
  assumes inv: "st_inv BV st"
  shows "\<exists>st'. add_subscription BV st t uid c l = Some (Inr (), st') \<and> st_inv BV st' \<and>
    (\<forall>t' i c' l'. st_subs st' t' i c' l' \<longleftrightarrow> st_subs st t' i c' l' \<or>
       agent_type_eq t t' \<and> i = uid_or_default uid \<and> c' = c \<and> l' = l \<and>
       (\<forall>k. \<not> st_subs st t (uid_or_default uid) c k))"
proof -
  let ?a = "agent_new t (uid_or_default uid)"
  have agent [simp]: "ag_type ?a = t" "ag_id ?a = uid_or_default uid" by (simp_all add: agent_new_def)
  have tests: "(case hm_get (=) c (st_connections st) of None \<Rightarrow> False | Some s \<Rightarrow> hs_contains agent_eq ?a s)
      \<longleftrightarrow> st_known (st_connections st) c ?a"
    by (simp add: st_known_def split: option.split)
  have known: "st_known (st_connections st) c a \<longleftrightarrow> (\<exists>l. st_subs st (ag_type a) (ag_id a) c l)" for c a
    using inv by (simp add: st_inv_def)
  show ?thesis
  proof (cases "st_known (st_connections st) c ?a")
    case True
    then have "add_subscription BV st t uid c l = Some (Inr (), st)"
      unfolding add_subscription_def Let_def tests by simp
    then show ?thesis using inv True known [of c ?a] by auto
  next
    case False
    then have none: "\<not> st_subs st t (uid_or_default uid) c k" for k using known [of c ?a] by simp
    obtain table where table: "add_subscription_to_sub_table BV ?a c l (st_table st) = Some table" "tab_inv BV table"
        "\<And>t' i c' l'. tab_subs table t' i c' l' \<longleftrightarrow>
          agent_type_eq t t' \<and> i = uid_or_default uid \<and> c' = c \<and> l' = l \<or> tab_subs (st_table st) t' i c' l'"
      using tab_add_spec [of "st_table st" ?a c l] inv none [of l] by (auto simp: st_inv_def st_subs_def)
    obtain m where m: "add_subscription_to_connection ?a c (st_connections st) = (Inr (), m)" "sets_inv m"
        "\<And>c' a'. st_known m c' a' \<longleftrightarrow> c' = c \<and> agent_eq ?a a' \<or> st_known (st_connections st) c' a'"
      using add_to_connection_spec [of "st_connections st" ?a c] inv by (auto simp: st_inv_def)
    let ?st = "st\<lparr>st_table := table, st_connections := m\<rparr>"
    have eq: "add_subscription BV st t uid c l = Some (Inr (), ?st)"
      using False table(1) m(1) unfolding add_subscription_def Let_def tests by simp
    have subs: "st_subs ?st t' i c' l' \<longleftrightarrow> agent_type_eq t t' \<and> i = uid_or_default uid \<and> c' = c \<and> l' = l \<or> st_subs st t' i c' l'"
      for t' i c' l' by (simp add: st_subs_def table(3))
    have none': "\<not> st_subs st t' (uid_or_default uid) c k" if "agent_type_eq t t'" for t' k
      using none [of k] by (simp add: st_subs_def tab_subs_cong [OF that, symmetric])
    have "st_inv BV ?st"
      unfolding st_inv_def
    proof (intro conjI allI)
      show "st_known (st_connections ?st) c' a \<longleftrightarrow> (\<exists>l. st_subs ?st (ag_type a) (ag_id a) c' l)" for c' a
        using known [of c' a] by (auto simp: m(3) subs agent_eq_def)
      show "\<not> (st_subs ?st t' i c' True \<and> st_subs ?st t' i c' False)" for t' i c'
        using inv none' unfolding subs by (auto simp: st_inv_def)
    qed (use table(2) m(2) in simp_all)
    then show ?thesis using eq subs none by auto
  qed
qed

end

text \<open>
  When is a removal harmless? When the subscription exists, when no agent of the type is subscribed
  on the connection, or when the agent id is not subscribed anywhere.
\<close>

definition removable ::
    "(agent_type \<Rightarrow> u64 \<Rightarrow> u64 \<Rightarrow> bool \<Rightarrow> bool) \<Rightarrow> agent_type \<Rightarrow> u64 \<Rightarrow> u64 \<Rightarrow> bool \<Rightarrow> bool" where
  "removable P t i c l \<longleftrightarrow> P t i c l \<or> (\<forall>j. \<not> P t j c l) \<or> (\<forall>c' l'. \<not> P t i c' l')"

lemma ats_id_held:
  assumes "ats_inv BV s" and "hm_get (=) i (ats_ids s) = Some v"
  obtains l c where "ats_holds s l i c"
proof -
  have "vec_ok v" using assms unfolding ats_inv_def by blast
  then obtain l where "side l v \<noteq> []" by (auto simp: vec_ok_def)
  then obtain c where "c \<in> set (side l v)" by (cases "side l v") auto
  then show ?thesis using that [of l c] by (simp add: ats_holds_def ats_vec_Some [OF assms(2)])
qed

context bit_vec
begin

lemma tab_remove_unknown:
  assumes inv: "tab_inv BV table"
    and none: "(\<forall>j. \<not> tab_subs table (ag_type a) j c l) \<or> (\<forall>c' l'. \<not> tab_subs table (ag_type a) (ag_id a) c' l')"
  shows "\<exists>e. remove_subscription_from_sub_table BV a c l table = Some (Inl e, table)"
proof (cases "hm_get agent_type_eq (ag_type a) table")
  case None
  then show ?thesis by (simp add: remove_subscription_from_sub_table_def)
next
  case (Some s)
  have s: "ats_inv BV s" using inv Some by (simp add: tab_inv_def)
  have none': "(\<forall>j. \<not> ats_holds s l j c) \<or> (\<forall>c' l'. \<not> ats_holds s l' (ag_id a) c')"
    using none Some by (simp add: tab_subs_def)
  have "\<exists>e. ats_remove BV s (ag_id a) c l = Some (Inl e, s)"
  proof (cases "hm_get (=) (ag_id a) (ats_ids s)")
    case (Some v)
    then have "\<forall>j. \<not> ats_holds s l j c" using none' ats_id_held [OF s Some] by metis
    then show ?thesis using ats_remove_unknown(2) [OF s] Some by auto
  qed (use ats_remove_unknown(1) [OF s] in auto)
  then obtain e where "ats_remove BV s (ag_id a) c l = Some (Inl e, s)" by blast
  then show ?thesis using Some hm_insert_same [OF Some]
    by (simp add: remove_subscription_from_sub_table_def Let_def)
qed

lemma remove_subscription_spec:
  assumes inv: "st_inv BV st" and ok: "removable (st_subs st) t (uid_or_default uid) c l"
  shows "\<exists>r st'. remove_subscription BV st t uid c l = Some (r, st') \<and> st_inv BV st' \<and>
    (r = Inr () \<longleftrightarrow> st_subs st t (uid_or_default uid) c l) \<and>
    (\<forall>t' i c' l'. st_subs st' t' i c' l' \<longleftrightarrow> st_subs st t' i c' l' \<and>
       \<not> (agent_type_eq t t' \<and> i = uid_or_default uid \<and> c' = c \<and> l' = l))"
proof -
  let ?i = "uid_or_default uid" and ?a = "agent_new t (uid_or_default uid)"
  have agent [simp]: "ag_type ?a = t" "ag_id ?a = ?i" by (simp_all add: agent_new_def)
  have cong: "st_subs st t' = st_subs st t" if "agent_type_eq t t'" for t'
    by (simp add: st_subs_def tab_subs_cong [OF that, symmetric])
  have known: "st_known (st_connections st) c a \<longleftrightarrow> (\<exists>l. st_subs st (ag_type a) (ag_id a) c l)" for c a
    using inv by (simp add: st_inv_def)
  show ?thesis
  proof (cases "st_subs st t ?i c l")
    case True
    obtain table where table: "remove_subscription_from_sub_table BV ?a c l (st_table st) = Some (Inr (), table)"
        "tab_inv BV table"
        "\<And>t' i c' l'. tab_subs table t' i c' l' \<longleftrightarrow>
          tab_subs (st_table st) t' i c' l' \<and> \<not> (agent_type_eq t t' \<and> i = ?i \<and> c' = c \<and> l' = l)"
      using tab_remove_spec [of "st_table st" ?a c l] inv True by (auto simp: st_inv_def st_subs_def)
    have "st_known (st_connections st) c ?a" using known True by auto
    then obtain m where m: "remove_subscription_from_connection ?a c (st_connections st) = (Inr (), m)" "sets_inv m"
        "\<And>c' a'. st_known m c' a' \<longleftrightarrow> st_known (st_connections st) c' a' \<and> \<not> (c' = c \<and> agent_eq ?a a')"
      using remove_from_connection_spec [of "st_connections st" c ?a] inv by (auto simp: st_inv_def)
    let ?st = "st\<lparr>st_table := table, st_connections := m\<rparr>"
    have eq: "remove_subscription BV st t uid c l = Some (Inr (), ?st)"
      using table(1) m(1) by (simp add: remove_subscription_def Let_def)
    have subs: "st_subs ?st t' i c' l' \<longleftrightarrow> st_subs st t' i c' l' \<and> \<not> (agent_type_eq t t' \<and> i = ?i \<and> c' = c \<and> l' = l)"
      for t' i c' l' by (simp add: st_subs_def table(3))
    have "st_inv BV ?st"
      unfolding st_inv_def
    proof (intro conjI allI)
      fix c' and a :: agent
      have side: "st_subs st (ag_type a) ?i c k \<Longrightarrow> k = l" if "agent_type_eq t (ag_type a)" for k
        using True st_inv_one_side [OF inv, of t ?i c l k] cong [OF that] by simp
      show "st_known (st_connections ?st) c' a \<longleftrightarrow> (\<exists>l. st_subs ?st (ag_type a) (ag_id a) c' l)"
      proof (cases "c' = c \<and> agent_eq ?a a")
        case True
        then have a: "c' = c" "agent_type_eq t (ag_type a)" "ag_id a = ?i" by (auto simp: agent_eq_def)
        then have "\<not> st_subs ?st (ag_type a) (ag_id a) c' k" for k using side [of k] by (auto simp: subs)
        then show ?thesis using True by (simp add: m(3))
      next
        case False
        then show ?thesis using known [of c' a] by (auto simp: m(3) subs agent_eq_def)
      qed
    next
      show "\<not> (st_subs ?st t' i c' True \<and> st_subs ?st t' i c' False)" for t' i c'
        using inv unfolding subs st_inv_def by blast
    qed (use table(2) m(2) in simp_all)
    then show ?thesis using eq subs True by auto
  next
    case False
    then have "(\<forall>j. \<not> tab_subs (st_table st) t j c l) \<or> (\<forall>c' l'. \<not> tab_subs (st_table st) t ?i c' l')"
      using ok by (auto simp: removable_def st_subs_def)
    then obtain e where "remove_subscription_from_sub_table BV ?a c l (st_table st) = Some (Inl e, st_table st)"
      using tab_remove_unknown [of "st_table st" ?a c l] inv by (auto simp: st_inv_def)
    then have "remove_subscription BV st t uid c l = Some (Inl e, st)"
      by (simp add: remove_subscription_def Let_def)
    moreover have "\<not> (agent_type_eq t t' \<and> i = ?i \<and> c' = c \<and> l' = l)" if "st_subs st t' i c' l'" for t' i c' l'
    proof
      assume "agent_type_eq t t' \<and> i = ?i \<and> c' = c \<and> l' = l"
      then show False using that False cong [of t'] by simp
    qed
    ultimately show ?thesis using inv False by (intro exI [of _ "Inl e"] exI [of _ st]) blast
  qed
qed

lemma remove_connection_spec:
  assumes inv: "st_inv BV st" and ok: "\<forall>t i l'. st_subs st t i c l' \<longrightarrow> l' = l"
  shows "\<exists>r st'. remove_connection BV st c l = Some (r, st') \<and> st_inv BV st' \<and>
    (r = Inr () \<longleftrightarrow> (\<exists>t i l. st_subs st t i c l)) \<and>
    (\<forall>t' i c' l'. st_subs st' t' i c' l' \<longleftrightarrow> st_subs st t' i c' l' \<and> c' \<noteq> c)"
proof (cases "hm_get (=) c (st_connections st)")
  case None
  then have "\<not> st_known (st_connections st) c (agent_new t i)" for t i by (simp add: st_known_def)
  then have none: "\<not> st_subs st t i c l" for t i l using inv by (auto simp: st_inv_def agent_new_def)
  have "remove_connection BV st c l = Some (Inl ConnectionIdNotFound, st)"
    using None by (simp add: remove_connection_def)
  then show ?thesis using inv none by (intro exI conjI) auto
next
  case (Some as)
  have known: "st_known (st_connections st) c' a \<longleftrightarrow> (\<exists>l. st_subs st (ag_type a) (ag_id a) c' l)" for c' a
    using inv by (simp add: st_inv_def)
  have as: "hs_wf agent_eq as" "as \<noteq> []" using inv Some by (auto simp: st_inv_def sets_inv_def)
  have agents: "hs_contains agent_eq a as \<longleftrightarrow> (\<exists>l. st_subs st (ag_type a) (ag_id a) c l)" for a
    using known [of c a] Some by (simp add: st_known_def)
  have held: "tab_subs (st_table st) (ag_type a) (ag_id a) c l" if "a \<in> set as" for a
  proof -
    have "hs_contains agent_eq a as" using that by (auto simp: hs_contains_iff intro: bexI [of _ a])
    then show ?thesis using agents [of a] ok by (auto simp: st_subs_def)
  qed
  obtain table where table: "remove_agents BV c l as (st_table st) = Some (Inr (), table)" "tab_inv BV table"
      "\<And>t i c' l'. tab_subs table t i c' l' \<longleftrightarrow>
         tab_subs (st_table st) t i c' l' \<and> \<not> (hs_contains agent_eq (agent_new t i) as \<and> c' = c \<and> l' = l)"
    using remove_agents_spec [of "st_table st" as c l] inv as(1) held by (auto simp: st_inv_def)
  let ?st = "st\<lparr>st_table := table, st_connections := hm_remove (=) c (st_connections st)\<rparr>"
  have eq: "remove_connection BV st c l = Some (Inr (), ?st)"
    using Some table(1) by (simp add: remove_connection_def Let_def)
  have subs: "st_subs ?st t i c' l' \<longleftrightarrow> st_subs st t i c' l' \<and> c' \<noteq> c" for t i c' l'
    using agents [of "agent_new t i"] ok by (auto simp: st_subs_def table(3) agent_new_def)
  obtain a where "a \<in> set as" using as(2) by (cases as) auto
  then have some: "\<exists>t i l. st_subs st t i c l" using held by (auto simp: st_subs_def)
  have "sets_inv (hm_remove (=) c (st_connections st))"
    using inv by (auto simp: st_inv_def sets_inv_def split: if_splits)
  moreover have "st_known (hm_remove (=) c (st_connections st)) c' a \<longleftrightarrow> st_known (st_connections st) c' a \<and> c' \<noteq> c" for c' a
    by (auto simp: st_known_def)
  ultimately have "st_inv BV ?st"
    unfolding st_inv_def subs using table(2) known inv by (auto simp: st_inv_def)
  then show ?thesis using eq subs some by blast
qed

end

section \<open>Matching\<close>

text \<open>The connections of one side that a message for a name, received on a connection, may take.\<close>

definition sub_targets ::
    "(agent_type \<Rightarrow> u64 \<Rightarrow> u64 \<Rightarrow> bool \<Rightarrow> bool) \<Rightarrow> bool \<Rightarrow> agent_type \<Rightarrow> u64 option \<Rightarrow> u64 \<Rightarrow> u64 set" where
  "sub_targets P l t agent_id incoming_conn =
     {c. c \<noteq> incoming_conn \<and> (case agent_id of None \<Rightarrow> \<exists>i. P t i c l | Some i \<Rightarrow> P t i c l)}"

lemma sub_targets_ats:
  "hm_get agent_type_eq t (st_table st) = Some s \<Longrightarrow>
   sub_targets (st_subs st) l t agent_id e = ats_targets s l agent_id e"
  by (cases agent_id) (simp_all add: sub_targets_def ats_targets_def st_subs_def tab_subs_def)

lemma sub_targets_unknown:
  "hm_get agent_type_eq t (st_table st) = None \<Longrightarrow> sub_targets (st_subs st) l t agent_id e = {}"
  by (simp add: sub_targets_def st_subs_def tab_subs_def split: option.split)

lemma st_inv_ats: "st_inv BV st \<Longrightarrow> hm_get agent_type_eq t (st_table st) = Some s \<Longrightarrow> ats_inv BV s"
  by (auto simp: st_inv_def tab_inv_def)

lemma match_all_spec:
  assumes inv: "st_inv BV st"
  shows "case match_all st t agent_id e of
      Inl err \<Rightarrow> err = no_match t agent_id \<and> (\<forall>l. sub_targets (st_subs st) l t agent_id e = {})
    | Inr out \<Rightarrow> out \<noteq> [] \<and> distinct out \<and>
        set out = (if sub_targets (st_subs st) True t agent_id e \<noteq> {}
                   then sub_targets (st_subs st) True t agent_id e
                   else sub_targets (st_subs st) False t agent_id e)"
proof (cases "hm_get agent_type_eq t (st_table st)")
  case None
  then show ?thesis by (simp add: match_all_def sub_targets_unknown)
next
  case (Some s)
  note all = get_all_connections_spec [OF st_inv_ats [OF inv Some], where agent_id = agent_id and e = e]
  show ?thesis
  proof (cases "get_all_connections s agent_id e True")
    case (Some out)
    then show ?thesis using all [of True] \<open>hm_get agent_type_eq t (st_table st) = Some s\<close>
      by (auto simp: match_all_def sub_targets_ats)
  next
    case None
    then show ?thesis using all [of True] all [of False] Some
      by (cases "get_all_connections s agent_id e False")
        (simp_all add: match_all_def sub_targets_ats all_bool_eq)
  qed
qed

lemma ats_unknown_id: "hm_get (=) i (ats_ids s) = None \<Longrightarrow> \<not> ats_holds s l i c"
  by (simp add: ats_holds_def ats_vec_def)

text \<open>
  The connections \<open>match_one\<close> may choose on a side: a target, or, when the agent id is not
  subscribed anywhere, the only connection of the type on that side.
\<close>

definition may_take ::
    "(agent_type \<Rightarrow> u64 \<Rightarrow> u64 \<Rightarrow> bool \<Rightarrow> bool) \<Rightarrow> bool \<Rightarrow> agent_type \<Rightarrow> u64 option \<Rightarrow> u64 \<Rightarrow> u64 \<Rightarrow> bool" where
  "may_take P l t agent_id e c \<longleftrightarrow>
     c \<in> sub_targets P l t agent_id e \<or>
     (\<exists>i. agent_id = Some i \<and> (\<forall>c' l'. \<not> P t i c' l') \<and> sub_targets P l t None e = {c})"

lemma get_one_connection_may_take:
  assumes inv: "st_inv BV st" and s: "hm_get agent_type_eq t (st_table st) = Some s" and rng: "rng_in_range rng"
  shows "\<exists>r. get_one_connection rng s agent_id e l = Some r \<and>
    (\<forall>c. r = Some c \<longrightarrow> may_take (st_subs st) l t agent_id e c)"
proof -
  obtain r where r: "get_one_connection rng s agent_id e l = Some r"
      "\<And>c. r = Some c \<Longrightarrow> c \<in> ats_targets s l agent_id e \<or>
         (\<exists>i. agent_id = Some i \<and> hm_get (=) i (ats_ids s) = None \<and> ats_targets s l None e = {c})"
    using get_one_connection_spec [OF st_inv_ats [OF inv s] rng] by blast
  have none: "\<not> st_subs st t i c' l'" if "hm_get (=) i (ats_ids s) = None" for i c' l'
    using s ats_unknown_id [OF that] by (simp add: st_subs_def tab_subs_def)
  have "may_take (st_subs st) l t agent_id e c" if "r = Some c" for c
    using r(2) [OF that] unfolding may_take_def sub_targets_ats [OF s] using none by blast
  then show ?thesis using r(1) by blast
qed

lemma match_one_spec:
  assumes inv: "st_inv BV st" and rng: "rng_in_range rng_l" "rng_in_range rng_r"
  shows "\<exists>r. match_one rng_l rng_r st t agent_id e = Some r \<and>
    (case r of Inl err \<Rightarrow> err = no_match t agent_id | Inr c \<Rightarrow> \<exists>l. may_take (st_subs st) l t agent_id e c)"
proof (cases "hm_get agent_type_eq t (st_table st)")
  case None
  then show ?thesis by (simp add: match_one_def)
next
  case (Some s)
  obtain r1 where r1: "get_one_connection rng_l s agent_id e True = Some r1"
      "\<And>c. r1 = Some c \<Longrightarrow> may_take (st_subs st) True t agent_id e c"
    using get_one_connection_may_take [OF inv Some rng(1)] by blast
  obtain r2 where r2: "get_one_connection rng_r s agent_id e False = Some r2"
      "\<And>c. r2 = Some c \<Longrightarrow> may_take (st_subs st) False t agent_id e c"
    using get_one_connection_may_take [OF inv Some rng(2)] by blast
  have eq: "match_one rng_l rng_r st t agent_id e =
      (case r1 of Some c \<Rightarrow> Ok c | None \<Rightarrow> (case r2 of Some c \<Rightarrow> Ok c | None \<Rightarrow> Err (no_match t agent_id)))"
    using Some r1(1) r2(1) by (simp add: match_one_def)
  show ?thesis unfolding eq using r1(2) r2(2) by (cases r1; cases r2) auto
qed

lemma match_one_id_spec:
  assumes inv: "st_inv BV st" and rng: "rng_in_range rng_l" "rng_in_range rng_r"
    and e: "\<And>l. \<not> st_subs st t i e l" and some: "sub_targets (st_subs st) k t (Some i) e \<noteq> {}"
  shows "\<exists>c. match_one rng_l rng_r st t (Some i) e = Ok c \<and>
    c \<in> (if sub_targets (st_subs st) True t (Some i) e \<noteq> {}
         then sub_targets (st_subs st) True t (Some i) e else sub_targets (st_subs st) False t (Some i) e)"
proof -
  obtain s where s: "hm_get agent_type_eq t (st_table st) = Some s"
    using some sub_targets_unknown [of t st] by (cases "hm_get agent_type_eq t (st_table st)") auto
  obtain c where "st_subs st t i c k" using some by (auto simp: sub_targets_def)
  then have only: "may_take (st_subs st) l t (Some i) e c' \<Longrightarrow> c' \<in> sub_targets (st_subs st) l t (Some i) e" for l c'
    by (auto simp: may_take_def)
  have e': "\<not> ats_holds s l i e" for l using e [of l] s by (simp add: st_subs_def tab_subs_def)
  note found = get_one_connection_id_found [OF _ e', folded sub_targets_ats [OF s]]
  show ?thesis
  proof (cases "sub_targets (st_subs st) True t (Some i) e = {}")
    case False
    then obtain c where "get_one_connection rng_l s (Some i) e True = Some (Some c)" "c \<in> sub_targets (st_subs st) True t (Some i) e"
      using found [OF rng(1) False] by blast
    then show ?thesis using False s by (simp add: match_one_def)
  next
    case True
    then have "sub_targets (st_subs st) False t (Some i) e \<noteq> {}" using some by (cases k) auto
    then obtain c where c: "get_one_connection rng_r s (Some i) e False = Some (Some c)"
        "c \<in> sub_targets (st_subs st) False t (Some i) e"
      using found [OF rng(2)] by blast
    obtain r where r: "get_one_connection rng_l s (Some i) e True = Some r"
        "\<And>c. r = Some c \<Longrightarrow> may_take (st_subs st) True t (Some i) e c"
      using get_one_connection_may_take [OF inv s rng(1)] by blast
    have "r = None" using r(2) only [of True] True by (cases r) auto
    then show ?thesis using True s c r(1) by (simp add: match_one_def)
  qed
qed

text \<open>The pools of a type list their connections up to \<open>max_set\<close>.\<close>

definition st_covered :: "'b subscription_table \<Rightarrow> agent_type \<Rightarrow> bool" where
  "st_covered st t \<longleftrightarrow>
     (\<forall>s l. hm_get agent_type_eq t (st_table st) = Some s \<longrightarrow>
        pool_covered (cx_pool (side l (ats_connections s))))"

lemma match_one_any_spec:
  assumes inv: "st_inv BV st" and rng: "rng_in_range rng_l" "rng_in_range rng_r" and cov: "st_covered st t"
  shows "\<exists>r. match_one rng_l rng_r st t None e = Some r \<and>
    (case r of
       Inl _ \<Rightarrow> \<forall>l. sub_targets (st_subs st) l t None e = {}
     | Inr c \<Rightarrow> c \<in> (if sub_targets (st_subs st) True t None e \<noteq> {}
                     then sub_targets (st_subs st) True t None e
                     else sub_targets (st_subs st) False t None e))"
proof (cases "hm_get agent_type_eq t (st_table st)")
  case None
  then show ?thesis by (simp add: match_one_def sub_targets_unknown)
next
  case (Some s)
  have ats: "ats_inv BV s" by (rule st_inv_ats [OF inv Some])
  have tgt: "sub_targets (st_subs st) l t None e = {c. c \<noteq> e \<and> 0 < conn_refs (side l (ats_connections s)) c}" for l
    unfolding sub_targets_ats [OF Some] ats_targets_def using ats_refs_pos [OF ats] by simp
  have one: "\<exists>r. get_one_connection rng s None e l = Some r \<and>
      (case r of Some c \<Rightarrow> c \<in> sub_targets (st_subs st) l t None e | None \<Rightarrow> sub_targets (st_subs st) l t None e = {})"
    if "rng_in_range rng" for rng l
  proof -
    have "connections_inv BV (side l (ats_connections s))" "pool_covered (cx_pool (side l (ats_connections s)))"
      using ats cov Some by (simp_all add: ats_inv_def st_covered_def)
    then show ?thesis
      using connections_get_one_spec [OF _ that, of BV "side l (ats_connections s)" e]
      unfolding tgt get_one_connection_def by (auto split: option.splits)
  qed
  show ?thesis
    using one [OF rng(1), of True] one [OF rng(2), of False] Some
    by (auto simp: match_one_def all_bool_eq split: option.splits)
qed

section \<open>Connections without a reference\<close>

text \<open>
  The table in which the counted connections of one side of a type are \<open>cx\<close>. When connection
  \<open>c\<close> has lost its reference there but still has an agent, searches for that agent go on as before,
  but searches for any agent of the type do not see the connection, and it cannot be unsubscribed.
\<close>

definition uncounted ::
    "'b subscription_table \<Rightarrow> agent_type \<Rightarrow> 'b agent_type_state \<Rightarrow> bool \<Rightarrow> 'b connections \<Rightarrow> 'b subscription_table" where
  "uncounted st t s l cx =
     st\<lparr>st_table := hm_insert agent_type_eq t (s\<lparr>ats_connections := set_side l cx (ats_connections s)\<rparr>) (st_table st)\<rparr>"



context bit_vec
begin

lemma uncounted_remove:
  assumes cx: "connections_inv BV cx" "\<And>d. 0 < conn_refs cx d \<longleftrightarrow> d \<noteq> c \<and> (\<exists>i. ats_holds s l i d)"
    and holds: "\<And>k i. ats_holds s k i c \<longleftrightarrow> i = j \<and> k = l"
  shows "remove_subscription BV (uncounted st t s l cx) t (Some j) c l = Some (Inl ConnectionIdNotFound, uncounted st t s l cx)"
proof -
  let ?s = "s\<lparr>ats_connections := set_side l cx (ats_connections s)\<rparr>"
  have "hm_get (=) j (ats_ids s) \<noteq> None"
    using holds [of l j] by (auto simp: ats_holds_def ats_vec_def split: option.splits)
  moreover have "connections_remove BV cx c = Some (Inl ConnectionIdNotFound, cx)"
    using connections_remove_absent [OF cx(1)] cx(2) [of c] by simp
  ultimately have "ats_remove BV ?s j c l = Some (Inl ConnectionIdNotFound, ?s)"
    by (auto simp: ats_remove_def set_side_def side_def)
  moreover have "hm_insert agent_type_eq t ?s (hm_insert agent_type_eq t ?s (st_table st)) = hm_insert agent_type_eq t ?s (st_table st)"
    by (rule hm_insert_same) simp
  ultimately show ?thesis
    by (simp add: uncounted_def remove_subscription_def remove_subscription_from_sub_table_def uid_or_default_def agent_new_def Let_def)
qed

lemma remove_stray:
  assumes inv: "st_inv BV st" and only: "\<forall>j' k. st_subs st t j' c k \<longleftrightarrow> j' = j \<and> k = l"
    and other: "st_subs st t (uid_or_default uid) c' k'" and "c' \<noteq> c" and ne: "uid_or_default uid \<noteq> j"
  obtains s cx where "hm_get agent_type_eq t (st_table st) = Some s" "connections_inv BV cx"
    "\<And>c'. 0 < conn_refs cx c' \<longleftrightarrow> c' \<noteq> c \<and> (\<exists>i. ats_holds s l i c')"
    "remove_subscription BV st t uid c l = Some (Inl SubscriptionNotFound, uncounted st t s l cx)"
proof -
  let ?i = "uid_or_default uid" and ?a = "agent_new t (uid_or_default uid)"
  obtain s where s: "hm_get agent_type_eq t (st_table st) = Some s" "ats_holds s k' ?i c'"
    using other by (auto simp: st_subs_def tab_subs_def)
  have ats: "ats_inv BV s" by (rule st_inv_ats [OF inv s(1)])
  have holds: "ats_holds s k i c \<longleftrightarrow> i = j \<and> k = l" for i k
    using only s by (simp add: st_subs_def tab_subs_def)
  obtain cx where cx: "ats_remove BV s ?i c l = Some (Inr (), s\<lparr>ats_connections := set_side l cx (ats_connections s)\<rparr>)"
      "connections_inv BV cx"
      "conn_refs cx = (conn_refs (side l (ats_connections s)))(c := conn_refs (side l (ats_connections s)) c - 1)"
    using ats_remove_stray [OF ats s(2), of l c j] holds ne by auto
  have refs: "0 < conn_refs cx d \<longleftrightarrow> d \<noteq> c \<and> (\<exists>i. ats_holds s l i d)" for d
    using ats_only_holder [OF ats, of l c j] holds ats_refs_pos [OF ats, of l d] by (simp add: cx(3))
  have known: "st_known (st_connections st) c a \<longleftrightarrow> (\<exists>l. st_subs st (ag_type a) (ag_id a) c l)" for a
    using inv by (simp add: st_inv_def)
  have "st_known (st_connections st) c (agent_new t j)" "\<not> st_known (st_connections st) c ?a"
    using only ne unfolding known by (auto simp: agent_new_def)
  then obtain set where "hm_get (=) c (st_connections st) = Some set" "\<not> hs_contains agent_eq ?a set"
    by (auto simp: st_known_def)
  moreover have "ats_ids s \<noteq> []" using s(2) by (rule ats_holds_ids)
  ultimately have "remove_subscription BV st t uid c l = Some (Inl SubscriptionNotFound, uncounted st t s l cx)"
    using s(1) cx(1) by (simp add: uncounted_def remove_subscription_def remove_subscription_from_sub_table_def
        remove_subscription_from_connection_def agent_new_def Let_def)
  then show thesis by (rule that [OF s(1) cx(2) refs])
qed

end

section \<open>The contract of a subscription table\<close>

text \<open>
  The trait \<open>SubscriptionTable\<close> of \<^verbatim>\<open>datapath/src/tables.rs\<close>, as the forwarder
  relies on it, over the abstract state: a relation between agents, connections and sides.
\<close>

type_synonym subs = "agent_type \<Rightarrow> u64 \<Rightarrow> u64 \<Rightarrow> bool \<Rightarrow> bool"

datatype sub_op =
  Sub_Add agent_type "u64 option" u64 bool
| Sub_Remove agent_type "u64 option" u64 bool
| Sub_Drop u64 bool

text \<open>The operation on the abstract state, when it may be applied, and whether it succeeds.\<close>

fun sub_step :: "sub_op \<Rightarrow> subs \<Rightarrow> subs" where
  "sub_step (Sub_Add t u c l) P = (\<lambda>t' i c' l'. P t' i c' l' \<or>
     agent_type_eq t t' \<and> i = uid_or_default u \<and> c' = c \<and> l' = l \<and> (\<forall>k. \<not> P t (uid_or_default u) c k))"
| "sub_step (Sub_Remove t u c l) P = (\<lambda>t' i c' l'. P t' i c' l' \<and>
     \<not> (agent_type_eq t t' \<and> i = uid_or_default u \<and> c' = c \<and> l' = l))"
| "sub_step (Sub_Drop c l) P = (\<lambda>t' i c' l'. P t' i c' l' \<and> c' \<noteq> c)"

fun sub_legal :: "sub_op \<Rightarrow> subs \<Rightarrow> bool" where
  "sub_legal (Sub_Add t u c l) P \<longleftrightarrow> True"
| "sub_legal (Sub_Remove t u c l) P \<longleftrightarrow> removable P t (uid_or_default u) c l"
| "sub_legal (Sub_Drop c l) P \<longleftrightarrow> (\<forall>t i l'. P t i c l' \<longrightarrow> l' = l)"

fun sub_succeeds :: "sub_op \<Rightarrow> subs \<Rightarrow> bool" where
  "sub_succeeds (Sub_Add t u c l) P \<longleftrightarrow> True"
| "sub_succeeds (Sub_Remove t u c l) P \<longleftrightarrow> P t (uid_or_default u) c l"
| "sub_succeeds (Sub_Drop c l) P \<longleftrightarrow> (\<exists>t i l. P t i c l)"

fun subs_after :: "sub_op list \<Rightarrow> subs \<Rightarrow> subs" where
  "subs_after [] P = P"
| "subs_after (op # ops) P = subs_after ops (sub_step op P)"

fun subs_legal :: "sub_op list \<Rightarrow> subs \<Rightarrow> bool" where
  "subs_legal [] P \<longleftrightarrow> True"
| "subs_legal (op # ops) P \<longleftrightarrow> sub_legal op P \<and> subs_legal ops (sub_step op P)"

fun subs_results :: "sub_op list \<Rightarrow> subs \<Rightarrow> bool list" where
  "subs_results [] P = []"
| "subs_results (op # ops) P = sub_succeeds op P # subs_results ops (sub_step op P)"

fun sub_run ::
    "('s \<Rightarrow> sub_op \<Rightarrow> ((subscription_table_error + unit) \<times> 's) option) \<Rightarrow> sub_op list \<Rightarrow> 's \<Rightarrow> (bool list \<times> 's) option" where
  "sub_run exec [] s = Some ([], s)"
| "sub_run exec (op # ops) s = do {
     (r, s) \<leftarrow> exec s op;
     (rs, s) \<leftarrow> sub_run exec ops s;
     Some ((r = Inr ()) # rs, s)
   }"

locale subscription_table_contract =
  fixes invar :: "'s \<Rightarrow> bool"
    and subs :: "'s \<Rightarrow> subs"
    and exec :: "'s \<Rightarrow> sub_op \<Rightarrow> ((subscription_table_error + unit) \<times> 's) option"
    and match_every :: "'s \<Rightarrow> agent_type \<Rightarrow> u64 option \<Rightarrow> u64 \<Rightarrow> subscription_table_error + u64 list"
  assumes exec_refines: "invar s \<Longrightarrow> sub_legal op (subs s) \<Longrightarrow>
      \<exists>r s'. exec s op = Some (r, s') \<and> invar s' \<and> subs s' = sub_step op (subs s) \<and>
        (r = Inr () \<longleftrightarrow> sub_succeeds op (subs s))"
    and match_every_targets: "invar s \<Longrightarrow> match_every s t agent_id e = Inr out \<Longrightarrow>
      out \<noteq> [] \<and> distinct out \<and> (\<exists>l. set out = sub_targets (subs s) l t agent_id e)"
    and match_every_none: "invar s \<Longrightarrow> match_every s t agent_id e = Inl err \<Longrightarrow>
      sub_targets (subs s) l t agent_id e = {}"
begin

lemma run_refines:
  "invar s \<Longrightarrow> subs_legal ops (subs s) \<Longrightarrow>
   \<exists>s'. sub_run exec ops s = Some (subs_results ops (subs s), s') \<and> invar s' \<and>
     subs s' = subs_after ops (subs s)"
proof (induction ops arbitrary: s)
  case (Cons op ops)
  then obtain r s1 where s1: "exec s op = Some (r, s1)" "invar s1" "subs s1 = sub_step op (subs s)"
      "r = Inr () \<longleftrightarrow> sub_succeeds op (subs s)"
    using exec_refines [of s op] by auto
  then show ?case using Cons.IH [of s1] Cons.prems by (auto simp: s1(4))
qed simp

lemma dropped_connection_unmatched:
  assumes "invar s" "sub_legal (Sub_Drop c l) (subs s)" "exec s (Sub_Drop c l) = Some (r, s')"
    and "match_every s' t agent_id e = Inr out"
  shows "c \<notin> set out"
proof -
  have s': "invar s'" "subs s' = sub_step (Sub_Drop c l) (subs s)"
    using exec_refines [OF assms(1,2)] assms(3) by auto
  show ?thesis using match_every_targets [OF s'(1) assms(4)] unfolding s'(2)
    by (auto simp: sub_targets_def split: option.splits)
qed

end

definition st_exec ::
    "'b bitvec_ops \<Rightarrow> 'b subscription_table \<Rightarrow> sub_op \<Rightarrow>
     ((subscription_table_error + unit) \<times> 'b subscription_table) option" where
  "st_exec BV st op =
     (case op of
        Sub_Add t u c l \<Rightarrow> add_subscription BV st t u c l
      | Sub_Remove t u c l \<Rightarrow> remove_subscription BV st t u c l
      | Sub_Drop c l \<Rightarrow> remove_connection BV st c l)"

sublocale bit_vec \<subseteq> st: subscription_table_contract "st_inv BV" st_subs "st_exec BV" match_all
proof (unfold_locales, goal_cases)
  case (1 s op)
  show ?case
  proof (cases op)
    case (Sub_Add t u c l)
    then show ?thesis using add_subscription_spec [OF 1(1), of t u c l]
      by (auto simp: st_exec_def fun_eq_iff)
  next
    case (Sub_Remove t u c l)
    then obtain r s' where "remove_subscription BV s t u c l = Some (r, s')" "st_inv BV s'"
        "r = Inr () \<longleftrightarrow> st_subs s t (uid_or_default u) c l"
        "\<And>t' i c' l'. st_subs s' t' i c' l' \<longleftrightarrow> st_subs s t' i c' l' \<and>
          \<not> (agent_type_eq t t' \<and> i = uid_or_default u \<and> c' = c \<and> l' = l)"
      using remove_subscription_spec [OF 1(1), of t u c l] 1(2) by auto
    then show ?thesis using Sub_Remove by (intro exI [of _ r] exI [of _ s']) (simp add: st_exec_def fun_eq_iff)
  next
    case (Sub_Drop c l)
    then have ok: "\<forall>t i l'. st_subs s t i c l' \<longrightarrow> l' = l" using 1(2) by simp
    obtain r s' where "remove_connection BV s c l = Some (r, s')" "st_inv BV s'"
        "r = Inr () \<longleftrightarrow> (\<exists>t i l. st_subs s t i c l)"
        "\<And>t' i c' l'. st_subs s' t' i c' l' \<longleftrightarrow> st_subs s t' i c' l' \<and> c' \<noteq> c"
      using remove_connection_spec [OF 1(1) ok] by blast
    then show ?thesis using Sub_Drop by (intro exI [of _ r] exI [of _ s']) (simp add: st_exec_def fun_eq_iff)
  qed
next
  case (2 s t agent_id e out)
  then show ?case using match_all_spec [OF 2(1), of t agent_id e] by auto
next
  case (3 s t agent_id e err l)
  then show ?case using match_all_spec [OF 3(1), of t agent_id e] by auto
qed

context bit_vec
begin

lemma st_run_from_empty:
  assumes "subs_legal ops (\<lambda>_ _ _ _. False)"
  shows "\<exists>st. sub_run (st_exec BV) ops subscription_table_default = Some (subs_results ops (\<lambda>_ _ _ _. False), st) \<and>
    st_inv BV st \<and> st_subs st = subs_after ops (\<lambda>_ _ _ _. False)"
proof -
  have "st_subs (subscription_table_default :: 'b subscription_table) = (\<lambda>_ _ _ _. False)"
    by (simp add: fun_eq_iff st_subs_def tab_subs_def subscription_table_default_def)
  then show ?thesis using st.run_refines [OF st_inv_default, of ops] assms by simp
qed

lemmas st_dropped_unmatched = st.dropped_connection_unmatched

end

section \<open>Properties of the subscription table\<close>

text \<open>Agents 1 and 2 of a type, on the local connection 10 and the remote connection 11.\<close>

definition demo_type :: agent_type where
  "demo_type = \<lparr>at_organization = 1, at_namespace = 2, at_agent_type = 3, at_strings = None\<rparr>"

definition demo_ops :: "sub_op list" where
  "demo_ops = [Sub_Add demo_type (Some 1) 10 True, Sub_Add demo_type (Some 2) 11 False]"

lemma demo_ops_run:
  obtains st where "sub_run (st_exec list_bitvec) demo_ops subscription_table_default = Some ([True, True], st)"
    "st_inv list_bitvec st"
    "st_subs st = (\<lambda>t i c l. agent_type_eq demo_type t \<and> (i = 1 \<and> c = 10 \<and> l \<or> i = 2 \<and> c = 11 \<and> \<not> l))"
proof -
  have "subs_legal demo_ops (\<lambda>_ _ _ _. False)" by (simp add: demo_ops_def)
  moreover have "subs_results demo_ops (\<lambda>_ _ _ _. False) = [True, True]" by (simp add: demo_ops_def)
  moreover have "subs_after demo_ops (\<lambda>_ _ _ _. False) =
      (\<lambda>t i c l. agent_type_eq demo_type t \<and> (i = 1 \<and> c = 10 \<and> l \<or> i = 2 \<and> c = 11 \<and> \<not> l))"
    by (auto simp: demo_ops_def uid_or_default_def fun_eq_iff)
  ultimately show thesis using that list_bv.st_run_from_empty [of demo_ops] by auto
qed

lemma demo_ops_covered:
  assumes "sub_run (st_exec list_bitvec) demo_ops subscription_table_default = Some (rs, st)"
  shows "st_covered st demo_type"
proof -
  have "map_option (\<lambda>(_, st). map_option (\<lambda>s. list_all (\<lambda>l. pool_covered_upto (cx_pool (side l (ats_connections s)))) [True, False])
        (hm_get agent_type_eq demo_type (st_table st)))
      (sub_run (st_exec list_bitvec) demo_ops subscription_table_default) = Some (Some True)"
    by code_simp
  then show ?thesis using assms by (auto simp: st_covered_def pool_covered_upto all_bool_eq)
qed

text \<open>
  C1: starting from the empty table, any sequence of subscriptions, unsubscriptions and connection
  removals runs without a panic, keeps both tables and all reference counts consistent, and acts
  as the relation between agents, connections and sides: an operation succeeds or fails as the
  relation says, and the table holds exactly the subscriptions of the relation. A connection is
  removed under the side its subscriptions were made with, and an unsubscription names an existing
  subscription, an agent that is not subscribed, or a connection without an agent of the type.
\<close>

theorem subscription_table_refines_relation:
  assumes "bit_vec BV" and "subs_legal ops (\<lambda>_ _ _ _. False)"
  shows "\<exists>st. sub_run (st_exec BV) ops subscription_table_default =
      Some (subs_results ops (\<lambda>_ _ _ _. False), st) \<and>
    st_inv BV st \<and> st_subs st = subs_after ops (\<lambda>_ _ _ _. False)"
  using assms by (rule bit_vec.st_run_from_empty)

theorem subscription_table_refines_relation_witness:
  "\<exists>st. sub_run (st_exec list_bitvec)
      [Sub_Add demo_type (Some 1) 10 True, Sub_Add demo_type None 11 False,
       Sub_Remove demo_type (Some 1) 10 True, Sub_Drop 11 False]
      subscription_table_default = Some ([True, True, True, True], st)"
proof -
  let ?ops = "[Sub_Add demo_type (Some 1) 10 True, Sub_Add demo_type None 11 False,
    Sub_Remove demo_type (Some 1) 10 True, Sub_Drop 11 False]"
  have "subs_legal ?ops (\<lambda>_ _ _ _. False)" by (auto simp: removable_def uid_or_default_def)
  moreover have "subs_results ?ops (\<lambda>_ _ _ _. False) = [True, True, True, True]"
    by (auto simp: uid_or_default_def intro: exI [of _ demo_type])
  ultimately show ?thesis
    using subscription_table_refines_relation [OF list_bv.bit_vec_axioms, of ?ops] by auto
qed

text \<open>
  C9: matching all connections is exact. It returns, without duplicates, all connections on which a
  matching agent is subscribed except the one the message came from: the local ones if there are
  any, otherwise the remote ones; and it reports no match exactly when there are none at all.
\<close>

theorem match_all_exact:
  assumes "st_inv BV st"
  shows "case match_all st t agent_id e of
      Inl err \<Rightarrow> err = no_match t agent_id \<and> (\<forall>l. sub_targets (st_subs st) l t agent_id e = {})
    | Inr out \<Rightarrow> out \<noteq> [] \<and> distinct out \<and>
        set out = (if sub_targets (st_subs st) True t agent_id e \<noteq> {}
                   then sub_targets (st_subs st) True t agent_id e
                   else sub_targets (st_subs st) False t agent_id e)"
  using assms by (rule match_all_spec)

theorem match_all_exact_witness:
  "\<exists>st out. sub_run (st_exec list_bitvec) demo_ops subscription_table_default = Some ([True, True], st) \<and>
     match_all st demo_type None 10 = Inr out \<and> set out = {11}"
proof -
  obtain st where st: "sub_run (st_exec list_bitvec) demo_ops subscription_table_default = Some ([True, True], st)"
      "st_inv list_bitvec st"
      "st_subs st = (\<lambda>t i c l. agent_type_eq demo_type t \<and> (i = 1 \<and> c = 10 \<and> l \<or> i = 2 \<and> c = 11 \<and> \<not> l))"
    using demo_ops_run .
  have "sub_targets (st_subs st) True demo_type None 10 = {}" "sub_targets (st_subs st) False demo_type None 10 = {11}"
    by (auto simp: st(3) sub_targets_def)
  then show ?thesis using match_all_exact [OF st(2), of demo_type None 10] st(1)
    by (auto simp: all_bool_eq split: sum.splits)
qed

text \<open>
  C11: matching one connection always returns. A connection it returns carries a subscription of
  the type, for the requested agent id if that id is subscribed anywhere, and is never the one the
  message came from; an error is always the no-match error.
\<close>

theorem match_one_sound:
  assumes "st_inv BV st" and "rng_in_range rng_l" and "rng_in_range rng_r"
  shows "\<exists>r. match_one rng_l rng_r st t agent_id e = Some r \<and>
    (case r of Inl err \<Rightarrow> err = no_match t agent_id | Inr c \<Rightarrow> \<exists>l. may_take (st_subs st) l t agent_id e c)"
  using assms by (rule match_one_spec)

theorem match_one_sound_witness:
  "\<exists>st r. sub_run (st_exec list_bitvec) demo_ops subscription_table_default = Some ([True, True], st) \<and>
     match_one (\<lambda>_. 0) (\<lambda>_. 0) st demo_type (Some 1) 11 = Some r \<and>
     (\<forall>c. r = Inr c \<longrightarrow> c = 10)"
proof -
  obtain st where st: "sub_run (st_exec list_bitvec) demo_ops subscription_table_default = Some ([True, True], st)"
      "st_inv list_bitvec st"
      "st_subs st = (\<lambda>t i c l. agent_type_eq demo_type t \<and> (i = 1 \<and> c = 10 \<and> l \<or> i = 2 \<and> c = 11 \<and> \<not> l))"
    using demo_ops_run .
  have rng: "rng_in_range (\<lambda>_. 0)" by (simp add: rng_in_range_def)
  have "may_take (st_subs st) l demo_type (Some 1) 11 c \<Longrightarrow> c = 10" for l c
    by (auto simp: st(3) may_take_def sub_targets_def)
  then show ?thesis using match_one_sound [OF st(2) rng rng, of demo_type "Some 1" 11] st(1) by auto
qed

text \<open>
  C13: for a message to any agent of a type, as long as \<open>max_set\<close> bounds the occupied slots of
  the two pools, matching one connection is exact: it fails only if no other connection has a
  subscription of the type, and it takes a remote connection only if there is no local one.
\<close>

theorem match_one_any_exact:
  assumes "st_inv BV st" and "rng_in_range rng_l" and "rng_in_range rng_r" and "st_covered st t"
  shows "\<exists>r. match_one rng_l rng_r st t None e = Some r \<and>
    (case r of
       Inl _ \<Rightarrow> \<forall>l. sub_targets (st_subs st) l t None e = {}
     | Inr c \<Rightarrow> c \<in> (if sub_targets (st_subs st) True t None e \<noteq> {}
                     then sub_targets (st_subs st) True t None e
                     else sub_targets (st_subs st) False t None e))"
  using assms by (rule match_one_any_spec)

theorem match_one_any_exact_witness:
  "\<exists>st. sub_run (st_exec list_bitvec) demo_ops subscription_table_default = Some ([True, True], st) \<and>
     match_one (\<lambda>_. 0) (\<lambda>_. 0) st demo_type None 7 = Ok 10 \<and> match_one (\<lambda>_. 0) (\<lambda>_. 0) st demo_type None 10 = Ok 11"
proof -
  obtain st where st: "sub_run (st_exec list_bitvec) demo_ops subscription_table_default = Some ([True, True], st)"
      "st_inv list_bitvec st"
      "st_subs st = (\<lambda>t i c l. agent_type_eq demo_type t \<and> (i = 1 \<and> c = 10 \<and> l \<or> i = 2 \<and> c = 11 \<and> \<not> l))"
    using demo_ops_run .
  have rng: "rng_in_range (\<lambda>_. 0)" by (simp add: rng_in_range_def)
  have cov: "st_covered st demo_type" by (rule demo_ops_covered [OF st(1)])
  have "sub_targets (st_subs st) True demo_type None 7 = {10}" "sub_targets (st_subs st) True demo_type None 10 = {}"
      "sub_targets (st_subs st) False demo_type None 10 = {11}"
    by (auto simp: st(3) sub_targets_def)
  then have "match_one (\<lambda>_. 0) (\<lambda>_. 0) st demo_type None 7 = Ok 10" "match_one (\<lambda>_. 0) (\<lambda>_. 0) st demo_type None 10 = Ok 11"
    using match_one_any_exact [OF st(2) rng rng cov, of 7] match_one_any_exact [OF st(2) rng rng cov, of 10]
    by (force simp: all_bool_eq split: sum.splits)+
  then show ?thesis using st(1) by blast
qed

text \<open>
  after a connection has been removed under its side, no message is matched to it any more.
\<close>

theorem removed_connection_never_matched:
  assumes "bit_vec BV" and "st_inv BV st" and "\<forall>t i l'. st_subs st t i c l' \<longrightarrow> l' = l"
    and "remove_connection BV st c l = Some (r, st')" and "match_all st' t agent_id e = Inr out"
  shows "c \<notin> set out"
  using bit_vec.st_dropped_unmatched [OF assms(1,2), of c l r st' t agent_id e out] assms(3-5)
  by (simp add: st_exec_def)

theorem removed_connection_never_matched_witness:
  "\<exists>st st' out. st_inv list_bitvec st \<and> remove_connection list_bitvec st 10 True = Some (Inr (), st') \<and>
     match_all st' demo_type None 7 = Inr out \<and> 10 \<notin> set out"
proof -
  obtain st where "sub_run (st_exec list_bitvec) demo_ops subscription_table_default = Some ([True, True], st)"
    and st: "st_inv list_bitvec st"
      "st_subs st = (\<lambda>t i c l. agent_type_eq demo_type t \<and> (i = 1 \<and> c = 10 \<and> l \<or> i = 2 \<and> c = 11 \<and> \<not> l))"
    using demo_ops_run .
  have side: "\<forall>t i l'. st_subs st t i 10 l' \<longrightarrow> l' = True" by (simp add: st(2))
  obtain r st' where st': "remove_connection list_bitvec st 10 True = Some (r, st')" "st_inv list_bitvec st'"
      "r = Inr () \<longleftrightarrow> (\<exists>t i l. st_subs st t i 10 l)"
      "\<And>t i c l. st_subs st' t i c l \<longleftrightarrow> st_subs st t i c l \<and> c \<noteq> 10"
    using list_bv.remove_connection_spec [OF st(1) side] by blast
  have "\<exists>t i l. st_subs st t i 10 l"
    by (intro exI [of _ demo_type] exI [of _ 1] exI [of _ True]) (simp add: st(2))
  then have "r = Inr ()" using st'(3) by simp
  have "11 \<in> sub_targets (st_subs st') False demo_type None 7" by (auto simp: sub_targets_def st'(4) st(2))
  then obtain out where out: "match_all st' demo_type None 7 = Inr out"
    using match_all_spec [OF st'(2), of demo_type None 7] by (auto split: sum.splits)
  show ?thesis
    using removed_connection_never_matched [OF list_bv.bit_vec_axioms st(1) side st'(1) out] st(1) st'(1) out
      \<open>r = Inr ()\<close> by blast
qed



end
