(* ===== verification/Remote_Subscriptions.thy ===== *)
theory Remote_Subscriptions
  imports Names
begin

text \<open>
  \<^verbatim>\<open>datapath/src/tables/remote_subscription_table.rs\<close>: the subscriptions forwarded on each
  connection, kept so that they can be sent again after a reconnection.
\<close>

record subscription_info =
  si_source :: agent
  si_name :: agent

definition subscription_info_eq :: "subscription_info \<Rightarrow> subscription_info \<Rightarrow> bool" where
  "subscription_info_eq a b \<longleftrightarrow> agent_eq (si_source a) (si_source b) \<and> agent_eq (si_name a) (si_name b)"

type_synonym remote_subscriptions = "(u64, subscription_info hset) hmap"

definition remote_add_subscription :: "agent \<Rightarrow> agent \<Rightarrow> u64 \<Rightarrow> remote_subscriptions \<Rightarrow> remote_subscriptions" where
  "remote_add_subscription source name conn m =
     (let info = \<lparr>si_source = source, si_name = name\<rparr>
      in case hm_get (=) conn m of
           None \<Rightarrow> hm_insert (=) conn (hs_insert subscription_info_eq info []) m
         | Some s \<Rightarrow> hm_insert (=) conn (hs_insert subscription_info_eq info s) m)"

definition remote_remove_subscription :: "agent \<Rightarrow> agent \<Rightarrow> u64 \<Rightarrow> remote_subscriptions \<Rightarrow> remote_subscriptions" where
  "remote_remove_subscription source name conn m =
     (let info = \<lparr>si_source = source, si_name = name\<rparr>
      in case hm_get (=) conn m of
           None \<Rightarrow> m
         | Some s \<Rightarrow>
             (let s = hs_remove subscription_info_eq info s
              in if s = [] then hm_remove (=) conn m else hm_insert (=) conn s m))"

definition get_subscriptions_on_connection :: "u64 \<Rightarrow> remote_subscriptions \<Rightarrow> subscription_info hset" where
  "get_subscriptions_on_connection conn m = (case hm_get (=) conn m of None \<Rightarrow> [] | Some s \<Rightarrow> s)"

definition remote_remove_connection :: "u64 \<Rightarrow> remote_subscriptions \<Rightarrow> remote_subscriptions" where
  "remote_remove_connection conn m = hm_remove (=) conn m"

interpretation si_eq: rust_eq subscription_info_eq
  by unfold_locales (auto simp: subscription_info_eq_def intro: ag_eq.eq_sym ag_eq.eq_trans)

section \<open>Laws\<close>

definition remote_has :: "remote_subscriptions \<Rightarrow> u64 \<Rightarrow> subscription_info \<Rightarrow> bool" where
  "remote_has m c info = hs_contains subscription_info_eq info (get_subscriptions_on_connection c m)"

definition remote_inv :: "remote_subscriptions \<Rightarrow> bool" where
  "remote_inv m \<longleftrightarrow> hm_wf (=) m \<and> (\<forall>c s. hm_get (=) c m = Some s \<longrightarrow> hs_wf subscription_info_eq s \<and> s \<noteq> [])"

lemma remote_has_add:
  "remote_has (remote_add_subscription source name conn m) c info \<longleftrightarrow>
     c = conn \<and> subscription_info_eq \<lparr>si_source = source, si_name = name\<rparr> info \<or> remote_has m c info"
  by (cases "hm_get (=) conn m")
    (auto simp: remote_has_def remote_add_subscription_def get_subscriptions_on_connection_def Let_def)

lemma remote_has_remove:
  "remote_has (remote_remove_subscription source name conn m) c info \<longleftrightarrow>
     remote_has m c info \<and> \<not> (c = conn \<and> subscription_info_eq \<lparr>si_source = source, si_name = name\<rparr> info)"
proof (cases "hm_get (=) conn m")
  case None
  then show ?thesis
    by (auto simp: remote_has_def remote_remove_subscription_def get_subscriptions_on_connection_def)
next
  case (Some s)
  let ?i = "\<lparr>si_source = source, si_name = name\<rparr>"
  show ?thesis
  proof (cases "c = conn")
    case True
    have "get_subscriptions_on_connection conn (remote_remove_subscription source name conn m) =
        hs_remove subscription_info_eq ?i s"
      using Some by (simp add: remote_remove_subscription_def get_subscriptions_on_connection_def Let_def)
    then show ?thesis using True Some
      by (auto simp: remote_has_def get_subscriptions_on_connection_def)
  next
    case False
    then show ?thesis using Some
      by (simp add: remote_has_def remote_remove_subscription_def get_subscriptions_on_connection_def Let_def)
  qed
qed

lemma remote_has_drop: "remote_has (remote_remove_connection conn m) c info \<longleftrightarrow> c \<noteq> conn \<and> remote_has m c info"
  by (auto simp: remote_has_def remote_remove_connection_def get_subscriptions_on_connection_def)

lemma remote_inv_add: "remote_inv m \<Longrightarrow> remote_inv (remote_add_subscription source name conn m)"
  by (cases "hm_get (=) conn m")
    (auto simp: remote_inv_def remote_add_subscription_def Let_def si_eq.hs_wf_insert split: if_splits)

lemma remote_inv_remove: "remote_inv m \<Longrightarrow> remote_inv (remote_remove_subscription source name conn m)"
  by (cases "hm_get (=) conn m")
    (auto simp: remote_inv_def remote_remove_subscription_def Let_def split: if_splits)

lemma remote_inv_drop: "remote_inv m \<Longrightarrow> remote_inv (remote_remove_connection conn m)"
  by (auto simp: remote_inv_def remote_remove_connection_def split: if_splits)

text \<open>The stored names: what holds of every name added, and of those stored before, still holds.\<close>

lemma remote_names_add:
  "info \<in> set (get_subscriptions_on_connection c (remote_add_subscription source name conn m)) \<Longrightarrow>
   info = \<lparr>si_source = source, si_name = name\<rparr> \<or> info \<in> set (get_subscriptions_on_connection c m)"
  by (cases "hm_get (=) conn m")
    (auto simp: get_subscriptions_on_connection_def remote_add_subscription_def Let_def hs_insert_def
      split: if_splits)

lemma remote_names_remove:
  "info \<in> set (get_subscriptions_on_connection c (remote_remove_subscription source name conn m)) \<Longrightarrow>
   info \<in> set (get_subscriptions_on_connection c m)"
  by (cases "hm_get (=) conn m")
    (auto simp: get_subscriptions_on_connection_def remote_remove_subscription_def Let_def hs_remove_def
      split: if_splits)

lemma remote_names_drop:
  "info \<in> set (get_subscriptions_on_connection c (remote_remove_connection conn m)) \<Longrightarrow>
   info \<in> set (get_subscriptions_on_connection c m)"
  by (auto simp: get_subscriptions_on_connection_def remote_remove_connection_def split: if_splits)

section \<open>Properties of the remote subscriptions\<close>

text \<open>
  the table of forwarded subscriptions is a set per connection: an addition, a removal and a
  connection removal change exactly the named entries, up to \<open>Eq\<close> of names, and they keep the
  table well formed.
\<close>

theorem remote_subscriptions_correct:
  assumes "remote_inv m"
  shows "remote_inv (remote_add_subscription s n c m) \<and>
    remote_inv (remote_remove_subscription s n c m) \<and> remote_inv (remote_remove_connection c m) \<and>
    (\<forall>c' i. remote_has (remote_add_subscription s n c m) c' i \<longleftrightarrow>
       c' = c \<and> subscription_info_eq \<lparr>si_source = s, si_name = n\<rparr> i \<or> remote_has m c' i) \<and>
    (\<forall>c' i. remote_has (remote_remove_subscription s n c m) c' i \<longleftrightarrow>
       remote_has m c' i \<and> \<not> (c' = c \<and> subscription_info_eq \<lparr>si_source = s, si_name = n\<rparr> i)) \<and>
    (\<forall>c' i. remote_has (remote_remove_connection c m) c' i \<longleftrightarrow> c' \<noteq> c \<and> remote_has m c' i)"
  using assms remote_inv_add remote_inv_remove remote_inv_drop remote_has_add remote_has_remove remote_has_drop
  by (intro conjI allI) simp_all

theorem remote_subscriptions_correct_witness:
  "remote_inv (remote_add_subscription
     (agent_new \<lparr>at_organization = 1, at_namespace = 2, at_agent_type = 3, at_strings = None\<rparr> 4)
     (agent_new \<lparr>at_organization = 1, at_namespace = 2, at_agent_type = 3, at_strings = None\<rparr> 5) 7 [])"
  using remote_subscriptions_correct [of "[]"] by (simp add: remote_inv_def)

end
