(* ===== verification/Forwarder.thy ===== *)
theory Forwarder
  imports Connection_Table Subscription_Table Remote_Subscriptions
begin

text \<open>
  The forwarder of \<^verbatim>\<open>datapath/src/forwarder.rs\<close>: the connection table, the subscription
  table and the table of forwarded subscriptions, updated together. Connections are of any type
  \<open>'c\<close>; the function \<open>loc\<close> tells the local ones, as \<open>is_local_connection\<close> does.
\<close>

record ('b, 'c) forwarder =
  fw_subscription_table :: "'b subscription_table"
  fw_remote_subscription_table :: remote_subscriptions
  fw_connection_table :: "('b, 'c) connection_table"

definition forwarder_new :: "'b bitvec_ops \<Rightarrow> ('b, 'c) forwarder" where
  "forwarder_new BV = \<lparr>
     fw_subscription_table = subscription_table_default,
     fw_remote_subscription_table = [],
     fw_connection_table = connection_table_with_capacity BV 100\<rparr>"

definition on_connection_established ::
    "'b bitvec_ops \<Rightarrow> ('b, 'c) forwarder \<Rightarrow> 'c \<Rightarrow> u64 option \<Rightarrow> (u64 option \<times> ('b, 'c) forwarder) option" where
  "on_connection_established BV fw conn existing_index =
     (case existing_index of
        None \<Rightarrow> do {
          (x, ct) \<leftarrow> connection_table_insert BV (fw_connection_table fw) conn;
          Some (Some (of_nat x), fw\<lparr>fw_connection_table := ct\<rparr>)
        }
      | Some x \<Rightarrow> do {
          (done, ct) \<leftarrow> connection_table_insert_at BV (fw_connection_table fw) conn (unat x);
          Some (if done then existing_index else None, fw\<lparr>fw_connection_table := ct\<rparr>)
        })"

definition on_connection_drop ::
    "'b bitvec_ops \<Rightarrow> ('b, 'c) forwarder \<Rightarrow> u64 \<Rightarrow> bool \<Rightarrow> ('b, 'c) forwarder option" where
  "on_connection_drop BV fw conn_index is_local = do {
     (_, ct) \<leftarrow> connection_table_remove BV (fw_connection_table fw) (unat conn_index);
     (_, st) \<leftarrow> remove_connection BV (fw_subscription_table fw) conn_index is_local;
     Some \<lparr>fw_subscription_table = st,
           fw_remote_subscription_table = remote_remove_connection conn_index (fw_remote_subscription_table fw),
           fw_connection_table = ct\<rparr>
   }"

definition get_connection :: "('b, 'c) forwarder \<Rightarrow> u64 \<Rightarrow> 'c option" where
  "get_connection fw conn_index = connection_table_get (fw_connection_table fw) (unat conn_index)"

definition get_subscriptions_forwarded_on_connection ::
    "('b, 'c) forwarder \<Rightarrow> u64 \<Rightarrow> subscription_info hset" where
  "get_subscriptions_forwarded_on_connection fw conn_index =
     get_subscriptions_on_connection conn_index (fw_remote_subscription_table fw)"

definition on_subscription_msg ::
    "'b bitvec_ops \<Rightarrow> ('b, 'c) forwarder \<Rightarrow> agent_type \<Rightarrow> u64 option \<Rightarrow> u64 \<Rightarrow> bool \<Rightarrow> bool \<Rightarrow>
     ((subscription_table_error + unit) \<times> ('b, 'c) forwarder) option" where
  "on_subscription_msg BV fw agent_type agent_id conn_index is_local add = do {
     (r, st) \<leftarrow> (if add
        then add_subscription BV (fw_subscription_table fw) agent_type agent_id conn_index is_local
        else remove_subscription BV (fw_subscription_table fw) agent_type agent_id conn_index is_local);
     Some (r, fw\<lparr>fw_subscription_table := st\<rparr>)
   }"

definition on_forwarded_subscription ::
    "('b, 'c) forwarder \<Rightarrow> agent \<Rightarrow> agent_type \<Rightarrow> u64 option \<Rightarrow> u64 \<Rightarrow> bool \<Rightarrow> ('b, 'c) forwarder" where
  "on_forwarded_subscription fw source name_type name_agent_id conn_index add =
     (let name = agent_new name_type (uid_or_default name_agent_id)
      in if add
         then fw\<lparr>fw_remote_subscription_table :=
                remote_add_subscription source name conn_index (fw_remote_subscription_table fw)\<rparr>
         else fw\<lparr>fw_remote_subscription_table :=
                remote_remove_subscription source name conn_index (fw_remote_subscription_table fw)\<rparr>)"

definition on_publish_msg_match ::
    "(nat \<Rightarrow> nat) \<Rightarrow> (nat \<Rightarrow> nat) \<Rightarrow> ('b, 'c) forwarder \<Rightarrow> agent_type \<Rightarrow> u64 option \<Rightarrow> u64 \<Rightarrow> u32 \<Rightarrow>
     (subscription_table_error, u64 list) rust" where
  "on_publish_msg_match rng_local rng_remote fw agent_type agent_id incoming_conn fanout =
     (if fanout = 1
      then do {
        r \<leftarrow> match_one rng_local rng_remote (fw_subscription_table fw) agent_type agent_id incoming_conn;
        case r of Inr out \<Rightarrow> Ok [out] | Inl e \<Rightarrow> Err e
      }
      else Some (match_all (fw_subscription_table fw) agent_type agent_id incoming_conn))"

section \<open>Invariant\<close>

text \<open>
  The three tables are well formed and agree: every subscription is on a connection of the
  connection table, on the side of that connection, and every remembered forwarded subscription is
  on a connection of the connection table.
\<close>

definition fw_inv :: "'b bitvec_ops \<Rightarrow> ('c \<Rightarrow> bool) \<Rightarrow> ('b, 'c) forwarder \<Rightarrow> bool" where
  "fw_inv BV loc fw \<longleftrightarrow>
     pool_inv BV (fw_connection_table fw) \<and> 0 < pool_capacity (fw_connection_table fw) \<and>
     st_inv BV (fw_subscription_table fw) \<and> remote_inv (fw_remote_subscription_table fw) \<and>
     (\<forall>t i c l. st_subs (fw_subscription_table fw) t i c l \<longrightarrow>
        (\<exists>conn. get_connection fw c = Some conn \<and> loc conn = l)) \<and>
     (\<forall>c info. remote_has (fw_remote_subscription_table fw) c info \<longrightarrow> get_connection fw c \<noteq> None)"

lemma fw_inv_remembered:
  "fw_inv BV loc fw \<Longrightarrow> remote_has (fw_remote_subscription_table fw) c info \<Longrightarrow> get_connection fw c \<noteq> None"
  unfolding fw_inv_def by blast

lemma fw_inv_placed:
  "fw_inv BV loc fw \<Longrightarrow> st_subs (fw_subscription_table fw) t i c l \<Longrightarrow>
   \<exists>conn. get_connection fw c = Some conn \<and> loc conn = l"
  unfolding fw_inv_def by blast

lemma get_connection_simps [simp]:
  "get_connection (fw\<lparr>fw_subscription_table := st\<rparr>) = get_connection fw"
  "get_connection (fw\<lparr>fw_remote_subscription_table := m\<rparr>) = get_connection fw"
  by (auto simp: get_connection_def fun_eq_iff)

text \<open>The steps of the forwarder, with what the callers guarantee.\<close>

inductive fw_step :: "'b bitvec_ops \<Rightarrow> ('c \<Rightarrow> bool) \<Rightarrow> ('b, 'c) forwarder \<Rightarrow> ('b, 'c) forwarder \<Rightarrow> bool"
  for BV loc where
  connect: "on_connection_established BV fw conn None = Some (r, fw') \<Longrightarrow> fw_step BV loc fw fw'"
| reconnect: "get_connection fw x = Some old \<Longrightarrow> loc old = loc conn \<Longrightarrow>
    on_connection_established BV fw conn (Some x) = Some (r, fw') \<Longrightarrow> fw_step BV loc fw fw'"
| subscription: "get_connection fw c = Some conn \<Longrightarrow>
    add \<or> removable (st_subs (fw_subscription_table fw)) t (uid_or_default i) c (loc conn) \<Longrightarrow>
    on_subscription_msg BV fw t i c (loc conn) add = Some (r, fw') \<Longrightarrow> fw_step BV loc fw fw'"
| forwarded: "get_connection fw c \<noteq> None \<Longrightarrow> fw_step BV loc fw (on_forwarded_subscription fw source t i c add)"
| disconnect: "get_connection fw c = Some conn \<Longrightarrow>
    on_connection_drop BV fw c (loc conn) = Some fw' \<Longrightarrow> fw_step BV loc fw fw'"

inductive_cases fw_stepE: "fw_step BV loc fw fw'"

inductive fw_reachable :: "'b bitvec_ops \<Rightarrow> ('c \<Rightarrow> bool) \<Rightarrow> ('b, 'c) forwarder \<Rightarrow> bool"
  for BV loc where
  start: "fw_reachable BV loc (forwarder_new BV)"
| step: "fw_reachable BV loc fw \<Longrightarrow> fw_step BV loc fw fw' \<Longrightarrow> fw_reachable BV loc fw'"

context bit_vec
begin

lemma fw_inv_new: "fw_inv BV loc (forwarder_new BV)"
  using pool_inv_with_capacity [of 100] st_inv_default
  by (simp add: fw_inv_def forwarder_new_def connection_table_with_capacity_def remote_inv_def
      pool_with_capacity_def [of _ 100] st_subs_def tab_subs_def subscription_table_default_def
      remote_has_def get_subscriptions_on_connection_def hs_contains_iff)

lemma fw_connect_spec:
  assumes inv: "fw_inv BV loc fw"
  shows "\<exists>x fw'. on_connection_established BV fw conn None = Some (Some (of_nat x), fw') \<and> fw_inv BV loc fw' \<and>
    fw_subscription_table fw' = fw_subscription_table fw \<and>
    pool_get (fw_connection_table fw) x = None \<and> (\<forall>j<x. pool_get (fw_connection_table fw) j \<noteq> None) \<and>
    pool_get (fw_connection_table fw') = (pool_get (fw_connection_table fw))(x \<mapsto> conn)"
proof -
  obtain x ct where ct: "pool_insert BV (fw_connection_table fw) conn = Some (x, ct)" "pool_inv BV ct"
      "pool_get (fw_connection_table fw) x = None" "pool_get ct = (pool_get (fw_connection_table fw))(x \<mapsto> conn)"
      "pool_capacity (fw_connection_table fw) \<le> pool_capacity ct" "\<forall>j<x. pool_get (fw_connection_table fw) j \<noteq> None"
    using inv pool_insert_spec [of "fw_connection_table fw" conn] by (auto simp: fw_inv_def)
  let ?fw = "fw\<lparr>fw_connection_table := ct\<rparr>"
  have get: "get_connection fw c = Some k \<Longrightarrow> get_connection ?fw c = Some k" for c k
    using ct(3,4) by (auto simp: get_connection_def connection_table_get_def)
  have get': "get_connection fw c \<noteq> None \<Longrightarrow> get_connection ?fw c \<noteq> None" for c using get by auto
  have "fw_inv BV loc ?fw"
    using inv ct(2,5) fw_inv_placed [OF inv] fw_inv_remembered [OF inv] get get' unfolding fw_inv_def
    by simp (meson less_le_trans)
  then show ?thesis using ct
    by (auto simp: on_connection_established_def connection_table_insert_def)
qed

lemma fw_reconnect_spec:
  assumes inv: "fw_inv BV loc fw" and old: "get_connection fw x = Some old" and "loc old = loc conn"
  shows "\<exists>fw'. on_connection_established BV fw conn (Some x) = Some (Some x, fw') \<and> fw_inv BV loc fw' \<and>
    fw_subscription_table fw' = fw_subscription_table fw \<and>
    fw_remote_subscription_table fw' = fw_remote_subscription_table fw \<and>
    get_connection fw' = (get_connection fw)(x \<mapsto> conn)"
proof -
  have x: "unat x < pool_capacity (fw_connection_table fw)"
    using inv old pool_get_SomeD [of "fw_connection_table fw" "unat x" old]
    by (auto simp: fw_inv_def pool_inv_def get_connection_def connection_table_get_def)
  obtain ct where ct: "pool_insert_at BV (fw_connection_table fw) conn (unat x) = Some (True, ct)" "pool_inv BV ct"
      "pool_get ct = (pool_get (fw_connection_table fw))(unat x \<mapsto> conn)"
      "pool_capacity ct = pool_capacity (fw_connection_table fw)"
    using inv pool_insert_at_in_range [OF _ x, of conn] by (auto simp: fw_inv_def)
  let ?fw = "fw\<lparr>fw_connection_table := ct\<rparr>"
  have get: "get_connection ?fw = (get_connection fw)(x \<mapsto> conn)"
    using ct(3) by (auto simp: get_connection_def connection_table_get_def fun_eq_iff unsigned_word_eqI)
  have placed: "\<exists>k. ((get_connection fw)(x \<mapsto> conn)) c = Some k \<and> loc k = l"
    if "st_subs (fw_subscription_table fw) t i c l" for t i c l
    using fw_inv_placed [OF inv that] assms(2,3) by auto
  have "fw_inv BV loc ?fw"
    using inv ct(2,4) placed unfolding fw_inv_def get by simp
  then show ?thesis using ct(1) get
    by (auto simp: on_connection_established_def connection_table_insert_at_def)
qed

lemma fw_subscription_spec:
  assumes inv: "fw_inv BV loc fw" and conn: "get_connection fw c = Some conn"
    and legal: "add \<or> removable (st_subs (fw_subscription_table fw)) t (uid_or_default i) c (loc conn)"
  shows "\<exists>r fw'. on_subscription_msg BV fw t i c (loc conn) add = Some (r, fw') \<and> fw_inv BV loc fw' \<and>
    fw_connection_table fw' = fw_connection_table fw \<and>
    fw_remote_subscription_table fw' = fw_remote_subscription_table fw \<and>
    st_subs (fw_subscription_table fw') =
      sub_step (if add then Sub_Add t i c (loc conn) else Sub_Remove t i c (loc conn)) (st_subs (fw_subscription_table fw))"
proof -
  let ?op = "if add then Sub_Add t i c (loc conn) else Sub_Remove t i c (loc conn)"
  have st: "st_inv BV (fw_subscription_table fw)" using inv by (simp add: fw_inv_def)
  obtain r st' where st': "st_exec BV (fw_subscription_table fw) ?op = Some (r, st')" "st_inv BV st'"
      "st_subs st' = sub_step ?op (st_subs (fw_subscription_table fw))"
    using st.exec_refines [OF st, of ?op] legal by (cases add) auto
  let ?fw = "fw\<lparr>fw_subscription_table := st'\<rparr>"
  have eq: "on_subscription_msg BV fw t i c (loc conn) add = Some (r, ?fw)"
    using st'(1) by (cases add) (auto simp: on_subscription_msg_def st_exec_def)
  have "\<exists>k. get_connection fw c' = Some k \<and> loc k = l" if "st_subs st' t' i' c' l" for t' i' c' l
    using that conn fw_inv_placed [OF inv] unfolding st'(3) by (cases add) (simp, blast)+
  then have "fw_inv BV loc ?fw" using inv st'(2) by (simp add: fw_inv_def)
  then show ?thesis using eq st'(3) by auto
qed

lemma fw_drop_spec:
  assumes inv: "fw_inv BV loc fw" and conn: "get_connection fw c = Some conn"
  shows "\<exists>fw'. on_connection_drop BV fw c (loc conn) = Some fw' \<and> fw_inv BV loc fw' \<and>
    get_connection fw' = (get_connection fw)(c := None) \<and>
    (\<forall>t i c' l. st_subs (fw_subscription_table fw') t i c' l \<longleftrightarrow>
       st_subs (fw_subscription_table fw) t i c' l \<and> c' \<noteq> c) \<and>
    (\<forall>c' info. remote_has (fw_remote_subscription_table fw') c' info \<longleftrightarrow>
       c' \<noteq> c \<and> remote_has (fw_remote_subscription_table fw) c' info)"
proof -
  have p: "pool_inv BV (fw_connection_table fw)" "pool_get (fw_connection_table fw) (unat c) = Some conn"
    using inv conn by (simp_all add: fw_inv_def get_connection_def connection_table_get_def)
  obtain ct where ct: "pool_remove BV (fw_connection_table fw) (unat c) = Some (True, ct)" "pool_inv BV ct"
      "pool_get ct = (pool_get (fw_connection_table fw))(unat c := None)"
      "pool_capacity ct = pool_capacity (fw_connection_table fw)"
    using pool_remove_present [OF p] by blast
  have st: "st_inv BV (fw_subscription_table fw)" using inv by (simp add: fw_inv_def)
  have side: "\<forall>t i l. st_subs (fw_subscription_table fw) t i c l \<longrightarrow> l = loc conn"
    using inv conn unfolding fw_inv_def by (metis option.inject)
  obtain r st' where st': "remove_connection BV (fw_subscription_table fw) c (loc conn) = Some (r, st')" "st_inv BV st'"
      "\<And>t i c' l. st_subs st' t i c' l \<longleftrightarrow> st_subs (fw_subscription_table fw) t i c' l \<and> c' \<noteq> c"
    using remove_connection_spec [OF st side] by blast
  let ?fw = "\<lparr>fw_subscription_table = st',
    fw_remote_subscription_table = remote_remove_connection c (fw_remote_subscription_table fw),
    fw_connection_table = ct\<rparr>"
  have eq: "on_connection_drop BV fw c (loc conn) = Some ?fw"
    using ct(1) st'(1) by (simp add: on_connection_drop_def connection_table_remove_def)
  have get: "get_connection ?fw = (get_connection fw)(c := None)"
    using ct(3) by (auto simp: get_connection_def connection_table_get_def fun_eq_iff unsigned_word_eqI)
  have "fw_inv BV loc ?fw"
    using inv ct(2,4) st'(2) remote_inv_drop fw_inv_placed [OF inv] fw_inv_remembered [OF inv] unfolding fw_inv_def get
    by (simp add: st'(3) remote_has_drop) blast
  then show ?thesis using eq get st'(3) remote_has_drop by auto
qed

lemma fw_forwarded_inv:
  "fw_inv BV loc fw \<Longrightarrow> get_connection fw c \<noteq> None \<Longrightarrow> fw_inv BV loc (on_forwarded_subscription fw source t i c add)"
  using remote_inv_add remote_inv_remove
  by (auto simp: fw_inv_def on_forwarded_subscription_def Let_def remote_has_add remote_has_remove)

lemma fw_step_inv: "fw_step BV loc fw fw' \<Longrightarrow> fw_inv BV loc fw \<Longrightarrow> fw_inv BV loc fw'"
proof (induction rule: fw_step.induct)
  case (connect fw conn r fw')
  then show ?case using fw_connect_spec [of loc fw conn] by auto
next
  case (reconnect fw x old conn r fw')
  then show ?case using fw_reconnect_spec [of loc fw x old conn] by auto
next
  case (subscription fw c conn add t i r fw')
  then show ?case using fw_subscription_spec [of loc fw c conn add t i] by fastforce
next
  case (forwarded fw c source t i add)
  then show ?case using fw_forwarded_inv by blast
next
  case (disconnect fw c conn fw')
  then show ?case using fw_drop_spec [of loc fw c conn] by auto
qed

lemma fw_reachable_inv: "fw_reachable BV loc fw \<Longrightarrow> fw_inv BV loc fw"
  by (induction rule: fw_reachable.induct) (auto intro: fw_inv_new fw_step_inv)

end

lemma may_take_subs: "may_take P l t agent_id e c \<Longrightarrow> c \<noteq> e \<and> (\<exists>i. P t i c l)"
  by (cases agent_id) (auto simp: may_take_def sub_targets_def)

lemma sub_targets_subs: "c \<in> sub_targets P l t agent_id e \<Longrightarrow> c \<noteq> e \<and> (\<exists>i. P t i c l)"
  by (cases agent_id) (auto simp: sub_targets_def)

text \<open>
  The connections a publication for a name is matched to. With a fan-out other than one they are
  exactly the local connections with a matching agent, or the remote ones if there is no local
  one, never the connection of the sender. With a fan-out of one there is at most one, with a
  matching agent or, for an agent that is subscribed nowhere, the only other connection of the
  type on its side. One is found whenever there is a matching agent, and then one of the preferred
  side, if the sender is not subscribed for the agent itself or, for a message to any agent, the
  pools list all their connections.
\<close>

definition preferred_targets :: "'b subscription_table \<Rightarrow> agent_type \<Rightarrow> u64 option \<Rightarrow> u64 \<Rightarrow> u64 set" where
  "preferred_targets st t agent_id e =
     (if sub_targets (st_subs st) True t agent_id e \<noteq> {}
      then sub_targets (st_subs st) True t agent_id e else sub_targets (st_subs st) False t agent_id e)"

definition publish_targets ::
    "'b subscription_table \<Rightarrow> agent_type \<Rightarrow> u64 option \<Rightarrow> u64 \<Rightarrow> u32 \<Rightarrow> u64 list \<Rightarrow> bool" where
  "publish_targets st t agent_id e fanout out \<longleftrightarrow>
     distinct out \<and>
     (if fanout = 1
      then length out \<le> 1 \<and> (\<forall>c\<in>set out. \<exists>l. may_take (st_subs st) l t agent_id e c) \<and>
        ((case agent_id of None \<Rightarrow> st_covered st t | Some i \<Rightarrow> \<forall>l. \<not> st_subs st t i e l) \<longrightarrow>
           preferred_targets st t agent_id e \<noteq> {} \<longrightarrow> out \<noteq> [] \<and> set out \<subseteq> preferred_targets st t agent_id e)
      else set out = preferred_targets st t agent_id e)"

definition matched :: "subscription_table_error + u64 list \<Rightarrow> u64 list" where
  "matched r = (case r of Inl _ \<Rightarrow> [] | Inr out \<Rightarrow> out)"

lemma match_one_targets:
  assumes inv: "st_inv BV st" and rng: "rng_in_range rng_l" "rng_in_range rng_r"
    and r: "match_one rng_l rng_r st t agent_id e = Some r"
  shows "publish_targets st t agent_id e 1 (case r of Inl _ \<Rightarrow> [] | Inr c \<Rightarrow> [c])"
proof -
  have take: "\<exists>l. may_take (st_subs st) l t agent_id e c" if "r = Inr c" for c
    using match_one_spec [OF inv rng, of t agent_id e] r that by auto
  have "\<exists>c. r = Inr c \<and> c \<in> preferred_targets st t agent_id e"
    if ok: "case agent_id of None \<Rightarrow> st_covered st t | Some i \<Rightarrow> \<forall>l. \<not> st_subs st t i e l"
      and some: "preferred_targets st t agent_id e \<noteq> {}"
  proof (cases agent_id)
    case None
    then show ?thesis using match_one_any_spec [OF inv rng, of t e] ok some r
      by (auto simp: preferred_targets_def split: if_splits sum.splits)
  next
    case (Some i)
    obtain k where "sub_targets (st_subs st) k t (Some i) e \<noteq> {}"
      using some Some by (auto simp: preferred_targets_def split: if_splits)
    then obtain c where "match_one rng_l rng_r st t (Some i) e = Ok c" "c \<in> preferred_targets st t (Some i) e"
      using match_one_id_spec [OF inv rng, of t i e k] ok Some unfolding preferred_targets_def by auto
    then show ?thesis using Some r by auto
  qed
  then show ?thesis using take unfolding publish_targets_def by (cases r) auto
qed

lemma publish_match_targets:
  assumes inv: "fw_inv BV loc fw" and rng: "rng_in_range rng_l" "rng_in_range rng_r"
    and r: "on_publish_msg_match rng_l rng_r fw t agent_id e fanout = Some r"
  shows "publish_targets (fw_subscription_table fw) t agent_id e fanout (matched r)"
proof (cases "fanout = 1")
  case True
  have st: "st_inv BV (fw_subscription_table fw)" using inv by (simp add: fw_inv_def)
  obtain q where q: "match_one rng_l rng_r (fw_subscription_table fw) t agent_id e = Some q"
    using match_one_spec [OF st rng] by blast
  then have "matched r = (case q of Inl _ \<Rightarrow> [] | Inr c \<Rightarrow> [c])"
    using r True by (auto simp: on_publish_msg_match_def matched_def split: sum.splits)
  then show ?thesis using match_one_targets [OF st rng q] True by simp
next
  case False
  then have "r = match_all (fw_subscription_table fw) t agent_id e" using r by (simp add: on_publish_msg_match_def)
  then show ?thesis using False match_all_spec [of BV "fw_subscription_table fw" t agent_id e] inv
    by (auto simp: publish_targets_def preferred_targets_def matched_def fw_inv_def all_bool_eq split: sum.splits)
qed

lemma publish_match_spec:
  assumes inv: "fw_inv BV loc fw" and rng: "rng_in_range rng_l" "rng_in_range rng_r"
  shows "\<exists>r. on_publish_msg_match rng_l rng_r fw t agent_id e fanout = Some r \<and>
    (\<forall>out. r = Inr out \<longrightarrow> out \<noteq> [] \<and> distinct out \<and> (fanout = 1 \<longrightarrow> length out = 1) \<and>
       (\<forall>c\<in>set out. c \<noteq> e \<and> (\<exists>conn i. get_connection fw c = Some conn \<and>
          st_subs (fw_subscription_table fw) t i c (loc conn))))"
proof -
  have st: "st_inv BV (fw_subscription_table fw)" using inv by (simp add: fw_inv_def)
  have live: "\<exists>conn i. get_connection fw c = Some conn \<and> st_subs (fw_subscription_table fw) t i c (loc conn)"
    if "st_subs (fw_subscription_table fw) t i c l" for i c l
    using fw_inv_placed [OF inv that] that by blast
  show ?thesis
  proof (cases "fanout = 1")
    case True
    obtain r where r: "match_one rng_l rng_r (fw_subscription_table fw) t agent_id e = Some r"
        "case r of Inl err \<Rightarrow> err = no_match t agent_id
         | Inr c \<Rightarrow> \<exists>l. may_take (st_subs (fw_subscription_table fw)) l t agent_id e c"
      using match_one_spec [OF st rng] by blast
    show ?thesis
    proof (cases r)
      case (Inl err)
      then show ?thesis using True r(1) by (simp add: on_publish_msg_match_def)
    next
      case (Inr c)
      then obtain l where "may_take (st_subs (fw_subscription_table fw)) l t agent_id e c" using r(2) by auto
      then have "c \<noteq> e" "\<exists>conn i. get_connection fw c = Some conn \<and> st_subs (fw_subscription_table fw) t i c (loc conn)"
        using may_take_subs live by blast+
      then show ?thesis using True r(1) Inr by (simp add: on_publish_msg_match_def)
    qed
  next
    case False
    then have eq: "on_publish_msg_match rng_l rng_r fw t agent_id e fanout =
        Some (match_all (fw_subscription_table fw) t agent_id e)"
      by (simp add: on_publish_msg_match_def)
    have "out \<noteq> [] \<and> distinct out \<and> (\<forall>c\<in>set out. c \<noteq> e \<and>
        (\<exists>conn i. get_connection fw c = Some conn \<and> st_subs (fw_subscription_table fw) t i c (loc conn)))"
      if out: "match_all (fw_subscription_table fw) t agent_id e = Inr out" for out
    proof -
      obtain l where l: "out \<noteq> []" "distinct out" "set out = sub_targets (st_subs (fw_subscription_table fw)) l t agent_id e"
        using match_all_spec [OF st, of t agent_id e] unfolding out by (auto split: if_splits)
      show ?thesis using l sub_targets_subs live by blast
    qed
    then show ?thesis using eq False by auto
  qed
qed

section \<open>Properties of the forwarder\<close>

text \<open>
  C2: in every state the forwarder can reach, the three tables are well formed and agree: every
  subscription is on a connection of the connection table and on that connection's side, and every
  remembered forwarded subscription is on a connection of the connection table. The sequences
  cover new connections, reconnections, subscriptions, forwarded subscriptions and dropped
  connections in any order, and the unsubscriptions that name an existing subscription, an agent
  that is not subscribed, or a connection without an agent of the type.
\<close>

theorem forwarder_reachable_consistent:
  assumes "bit_vec BV" and "fw_reachable BV loc fw"
  shows "fw_inv BV loc fw"
  using assms by (rule bit_vec.fw_reachable_inv)

lemma first_connection:
  fixes conn :: 'c
  obtains fw where "on_connection_established list_bitvec (forwarder_new list_bitvec) conn None = Some (Some 0, fw)"
    "fw_inv list_bitvec loc fw" "get_connection fw 0 = Some conn"
    "fw_subscription_table fw = subscription_table_default" "fw_remote_subscription_table fw = []"
proof -
  obtain x fw where fw: "on_connection_established list_bitvec (forwarder_new list_bitvec) conn None = Some (Some (of_nat x), fw)"
      "fw_inv list_bitvec loc fw"
      "fw_subscription_table fw = fw_subscription_table (forwarder_new list_bitvec :: (bool list, 'c) forwarder)"
      "pool_get (fw_connection_table fw) = (pool_get (fw_connection_table (forwarder_new list_bitvec)))(x \<mapsto> conn)"
      "\<forall>j<x. pool_get (fw_connection_table (forwarder_new list_bitvec :: (bool list, 'c) forwarder)) j \<noteq> None"
    using list_bv.fw_connect_spec [OF list_bv.fw_inv_new, where loc = loc and conn = conn] by blast
  have x: "x = 0"
    using fw(5) list_bv.pool_get_with_capacity [of 100 0]
    by (simp add: forwarder_new_def connection_table_with_capacity_def) (metis gr0I)
  then have "get_connection fw 0 = Some conn"
    using fw(4) by (simp add: get_connection_def connection_table_get_def)
  moreover have "fw_remote_subscription_table fw = []"
    using fw(1) by (auto simp: on_connection_established_def forwarder_new_def bind_eq_Some_conv)
  ultimately show thesis using that fw(1-3) x by (simp add: forwarder_new_def)
qed

theorem forwarder_reachable_consistent_witness:
  "\<exists>fw1 fw2 fw3 fw4 r.
     on_connection_established list_bitvec (forwarder_new list_bitvec) True None = Some (Some 0, fw1) \<and>
     on_subscription_msg list_bitvec fw1 demo_type (Some 1) 0 True True = Some (r, fw2) \<and>
     fw3 = on_forwarded_subscription fw2 (agent_new demo_type 1) demo_type (Some 1) 0 True \<and>
     on_connection_drop list_bitvec fw3 0 True = Some fw4 \<and>
     st_subs (fw_subscription_table fw3) demo_type 1 0 True \<and>
     remote_has (fw_remote_subscription_table fw3) 0 \<lparr>si_source = agent_new demo_type 1, si_name = agent_new demo_type 1\<rparr> \<and>
     fw_inv list_bitvec (\<lambda>local. local) fw3 \<and> fw_inv list_bitvec (\<lambda>local. local) fw4"
proof -
  let ?loc = "\<lambda>local. local" and ?P = "\<lambda>_ _ _ _. False" and ?a = "agent_new demo_type 1"
  obtain fw1 where 1: "on_connection_established list_bitvec (forwarder_new list_bitvec) True None = Some (Some 0, fw1)"
      "fw_inv list_bitvec ?loc fw1" "get_connection fw1 0 = Some True" "fw_subscription_table fw1 = subscription_table_default"
    using first_connection [where loc = ?loc and conn = True] by blast
  obtain r fw2 where 2: "on_subscription_msg list_bitvec fw1 demo_type (Some 1) 0 True True = Some (r, fw2)"
      "fw_connection_table fw2 = fw_connection_table fw1"
      "st_subs (fw_subscription_table fw2) = sub_step (Sub_Add demo_type (Some 1) 0 True) (st_subs (fw_subscription_table fw1))"
    using list_bv.fw_subscription_spec [OF 1(2,3), of True demo_type "Some 1"] by auto
  let ?fw3 = "on_forwarded_subscription fw2 ?a demo_type (Some 1) 0 True"
  have conn: "get_connection fw2 0 = Some True" "get_connection ?fw3 0 = Some True"
    using 1(3) 2(2) by (simp_all add: get_connection_def on_forwarded_subscription_def)
  have r2: "fw_reachable list_bitvec ?loc fw2"
    using fw_reachable.step [OF fw_reachable.step [OF fw_reachable.start fw_step.connect [OF 1(1)]]
        fw_step.subscription [OF 1(3), where loc = ?loc, OF disjI1 [OF TrueI] 2(1)]] by simp
  have r3: "fw_reachable list_bitvec ?loc ?fw3"
    by (rule fw_reachable.step [OF r2 fw_step.forwarded]) (simp add: conn(1))
  obtain fw4 where 4: "on_connection_drop list_bitvec ?fw3 0 True = Some fw4"
    using list_bv.fw_drop_spec [OF list_bv.fw_reachable_inv [OF r3] conn(2)] by auto
  have r4: "fw_reachable list_bitvec ?loc fw4"
    by (rule fw_reachable.step [OF r3 fw_step.disconnect [OF conn(2)]]) (simp add: 4)
  have "st_subs (fw_subscription_table ?fw3) demo_type 1 0 True"
    using 2(3) 1(4) by (simp add: on_forwarded_subscription_def uid_or_default_def st_subs_def tab_subs_def subscription_table_default_def)
  moreover have "remote_has (fw_remote_subscription_table ?fw3) 0 \<lparr>si_source = ?a, si_name = ?a\<rparr>"
    by (simp add: on_forwarded_subscription_def remote_has_add uid_or_default_def)
  ultimately show ?thesis
    using 1(1) 2(1) 4 forwarder_reachable_consistent [OF list_bv.bit_vec_axioms r3]
      forwarder_reachable_consistent [OF list_bv.bit_vec_axioms r4] by blast
qed

text \<open>
  in a consistent state, dropping a connection never panics and removes every trace of it: the
  connection table has no entry for it, no subscription is on it, no forwarded subscription is
  remembered for it, and nothing else changes in the three tables.
\<close>

theorem connection_drop_clears_state:
  assumes "bit_vec BV" and "fw_inv BV loc fw" and "get_connection fw c = Some conn"
  shows "\<exists>fw'. on_connection_drop BV fw c (loc conn) = Some fw' \<and> fw_inv BV loc fw' \<and>
    get_connection fw' = (get_connection fw)(c := None) \<and>
    (\<forall>t i c' l. st_subs (fw_subscription_table fw') t i c' l \<longleftrightarrow>
       st_subs (fw_subscription_table fw) t i c' l \<and> c' \<noteq> c) \<and>
    (\<forall>c' info. remote_has (fw_remote_subscription_table fw') c' info \<longleftrightarrow>
       c' \<noteq> c \<and> remote_has (fw_remote_subscription_table fw) c' info)"
  using assms by (rule bit_vec.fw_drop_spec)

theorem connection_drop_clears_state_witness:
  "\<exists>r fw fw'. on_connection_established list_bitvec (forwarder_new list_bitvec) True None = Some (r, fw) \<and>
     get_connection fw 0 = Some True \<and>
     on_connection_drop list_bitvec fw 0 True = Some fw' \<and> get_connection fw' 0 = None"
proof -
  obtain fw where fw: "on_connection_established list_bitvec (forwarder_new list_bitvec) True None = Some (Some 0, fw)"
      "fw_inv list_bitvec (\<lambda>local. local) fw" "get_connection fw 0 = Some True"
    using first_connection [where loc = "\<lambda>local. local" and conn = True] by blast
  then show ?thesis
    using connection_drop_clears_state [OF list_bv.bit_vec_axioms fw(2), of 0 True] fw(1) by fastforce
qed

text \<open>
  matching a publication never panics. The connections it returns are live, carry a
  subscription of the requested type, are distinct and are never the one the message came from;
  there is at least one, and exactly one for a fan-out of one.
\<close>

theorem publish_match_live_connections:
  assumes "fw_inv BV loc fw" and "rng_in_range rng_l" and "rng_in_range rng_r"
  shows "\<exists>r. on_publish_msg_match rng_l rng_r fw t agent_id e fanout = Some r \<and>
    (\<forall>out. r = Inr out \<longrightarrow> out \<noteq> [] \<and> distinct out \<and> (fanout = 1 \<longrightarrow> length out = 1) \<and>
       (\<forall>c\<in>set out. c \<noteq> e \<and> (\<exists>conn i. get_connection fw c = Some conn \<and>
          st_subs (fw_subscription_table fw) t i c (loc conn))))"
  using assms by (rule publish_match_spec)

theorem publish_match_live_connections_witness:
  "\<exists>r. on_publish_msg_match (\<lambda>_. 0) (\<lambda>_. 0) (forwarder_new list_bitvec :: (bool list, bool) forwarder) demo_type None 3 1 = Some r"
  using publish_match_live_connections [OF list_bv.fw_inv_new, of "\<lambda>_. 0" "\<lambda>_. 0" demo_type None 3 1 "\<lambda>b. b"]
  by (auto simp: rng_in_range_def)

end
