(* ===== verification/Message_Processing.thy ===== *)
theory Message_Processing
  imports Messages Forwarder
begin

text \<open>
  The message processor of \<^verbatim>\<open>datapath/src/message_processing.rs\<close>, with the connections of
  \<^verbatim>\<open>datapath/src/connection.rs\<close> and the errors of \<^verbatim>\<open>datapath/src/errors.rs\<close>.

  What the processor calls outside this repository is in the environment \<open>mp_env\<close>: the hash
  function, the random numbers, whether spans are recorded (a recorded span evaluates its fields),
  the propagator that writes the trace context into the metadata, and which channels still have a
  receiver. Sending on a channel appends to the log \<open>mp_sent\<close>; a channel is named by a number.
  The tasks the code spawns run one stream event at a time.
\<close>

section \<open>Connections and errors\<close>

record socket_addr =
  sa_ip :: string
  sa_port :: "16 word"

datatype channel = Server nat | Client nat | Unknown_Channel

datatype connection_type = Local | Remote | Unknown_Type

record connection =
  conn_remote_addr :: "socket_addr option"
  conn_local_addr :: "socket_addr option"
  conn_channel :: channel
  conn_connection_type :: connection_type
  conn_cancellation_token :: "nat option"

definition connection_new :: "connection_type \<Rightarrow> connection" where
  "connection_new t = \<lparr>conn_remote_addr = None, conn_local_addr = None, conn_channel = Unknown_Channel,
     conn_connection_type = t, conn_cancellation_token = None\<rparr>"

definition with_remote_addr :: "connection \<Rightarrow> socket_addr option \<Rightarrow> connection" where
  "with_remote_addr c a = c\<lparr>conn_remote_addr := a\<rparr>"

definition with_local_addr :: "connection \<Rightarrow> socket_addr option \<Rightarrow> connection" where
  "with_local_addr c a = c\<lparr>conn_local_addr := a\<rparr>"

definition with_channel :: "connection \<Rightarrow> channel \<Rightarrow> connection" where
  "with_channel c ch = c\<lparr>conn_channel := ch\<rparr>"

definition is_local_connection :: "connection \<Rightarrow> bool" where
  "is_local_connection c = (case conn_connection_type c of Local \<Rightarrow> True | _ \<Rightarrow> False)"

definition with_cancellation_token :: "connection \<Rightarrow> nat option \<Rightarrow> connection" where
  "with_cancellation_token c t = c\<lparr>conn_cancellation_token := t\<rparr>"

datatype data_path_error =
  ConnectionError string
| DisconnectionError string
| UnknownMsgType string
| InvalidMessage string
| ErrorSettingInConnection string
| SubscriptionError string
| UnsubscriptionError string
| PublicationError string
| CommandError string
| ConnectionNotFound string
| WrongChannelType
| MessageSendError string
| StreamError string
| ProcessingError string

definition data_path_error_display :: "data_path_error \<Rightarrow> string" where
  "data_path_error_display e =
     (case e of
        ConnectionError s \<Rightarrow> ''connection error: '' @ s
      | DisconnectionError s \<Rightarrow> ''disconnection error: '' @ s
      | UnknownMsgType s \<Rightarrow> ''unkwon message type '' @ s
      | InvalidMessage s \<Rightarrow> ''invalid message: '' @ s
      | ErrorSettingInConnection s \<Rightarrow> ''unable to set incoming connection''
      | SubscriptionError s \<Rightarrow> ''error handling subscription: '' @ s
      | UnsubscriptionError s \<Rightarrow> ''error handling unsubscription: '' @ s
      | PublicationError s \<Rightarrow> ''error handling publish: '' @ s
      | CommandError s \<Rightarrow> ''error parsing command message: '' @ s
      | ConnectionNotFound s \<Rightarrow> ''connection not found: '' @ s
      | WrongChannelType \<Rightarrow> ''wrong channel type''
      | MessageSendError s \<Rightarrow> ''error sending message: '' @ s
      | StreamError s \<Rightarrow> ''stream error: '' @ s
      | ProcessingError s \<Rightarrow> ''error processing message: '' @ s)"

definition subscription_table_error_display :: "subscription_table_error \<Rightarrow> string" where
  "subscription_table_error_display e =
     (case e of
        NoMatch s \<Rightarrow> ''no matching found for '' @ s
      | SubscriptionNotFound \<Rightarrow> ''subscription not fund''
      | AgentIdNotFound \<Rightarrow> ''agent id not fund''
      | ConnectionIdNotFound \<Rightarrow> ''connection id not fund'')"

section \<open>The processor\<close>

datatype wire_item = Item message | Item_Status data_path_error

record 'b processor =
  mp_forwarder :: "('b, connection) forwarder"
  mp_sent :: "(nat \<times> wire_item) list"
  mp_cancelled :: "nat list"

record mp_env =
  env_hash :: "u8 list \<Rightarrow> u64"
  env_rng_local :: "nat \<Rightarrow> nat"
  env_rng_remote :: "nat \<Rightarrow> nat"
  env_span_enabled :: bool
  env_inject :: "(string, string) hmap \<Rightarrow> (string, string) hmap"
  env_chan_open :: "nat \<Rightarrow> bool"

definition processor_new :: "'b bitvec_ops \<Rightarrow> 'b processor" where
  "processor_new BV = \<lparr>mp_forwarder = forwarder_new BV, mp_sent = [], mp_cancelled = []\<rparr>"

text \<open>Sending on a channel fails exactly when its receiver is gone.\<close>

definition chan_send :: "mp_env \<Rightarrow> 'b processor \<Rightarrow> nat \<Rightarrow> wire_item \<Rightarrow> (string + unit) \<times> 'b processor" where
  "chan_send env st ch item =
     (if env_chan_open env ch then (Inr (), st\<lparr>mp_sent := mp_sent st @ [(ch, item)]\<rparr>)
      else (Inl ''channel closed'', st))"

definition inject_current_context :: "mp_env \<Rightarrow> message \<Rightarrow> message" where
  "inject_current_context env msg = msg\<lparr>msg_metadata := env_inject env (msg_metadata msg)\<rparr>"

definition create_span :: "mp_env \<Rightarrow> message \<Rightarrow> unit option" where
  "create_span env msg = do {
     _ \<leftarrow> (if env_span_enabled env
          then do { _ \<leftarrow> msg_get_source msg; _ \<leftarrow> msg_get_name_as_agent msg; _ \<leftarrow> msg_type msg; Some () }
          else Some ());
     t \<leftarrow> msg_type msg;
     case t of
       Publish _ \<Rightarrow> do { _ \<leftarrow> msg_get_header_type msg; _ \<leftarrow> get_session_header msg; Some () }
     | _ \<Rightarrow> Some ()
   }"

definition send_msg ::
    "mp_env \<Rightarrow> 'b processor \<Rightarrow> message \<Rightarrow> u64 \<Rightarrow> ((data_path_error + unit) \<times> 'b processor) option" where
  "send_msg env st msg out_conn =
     (case get_connection (mp_forwarder st) out_conn of
        Some conn \<Rightarrow> do {
          msg \<leftarrow> msg_clear_slim_header msg;
          _ \<leftarrow> create_span env msg;
          let msg = inject_current_context env msg;
          Some (case conn_channel conn of
              Server ch \<Rightarrow> apfst (map_sum MessageSendError id) (chan_send env st ch (Item msg))
            | Client ch \<Rightarrow> apfst (map_sum MessageSendError id) (chan_send env st ch (Item msg))
            | Unknown_Channel \<Rightarrow> (Inl (MessageSendError ''connection not found''), st))
        }
      | None \<Rightarrow>
          Some (Inl (MessageSendError (''connection '' @ show_dec out_conn @ '' not found'')), st))"

definition as_publication_error :: "data_path_error + unit \<Rightarrow> data_path_error + unit" where
  "as_publication_error = map_sum (\<lambda>e. PublicationError (data_path_error_display e)) id"

text \<open>The loop that sends to every matched connection; it ends at the first error. An empty vector would make the index underflow.\<close>

fun forward_all ::
    "mp_env \<Rightarrow> 'b processor \<Rightarrow> message \<Rightarrow> u64 list \<Rightarrow> ((data_path_error + unit) \<times> 'b processor) option" where
  "forward_all env st msg [] = None"
| "forward_all env st msg [c] = map_option (apfst as_publication_error) (send_msg env st msg c)"
| "forward_all env st msg (c # cs) = do {
     (r, st) \<leftarrow> send_msg env st msg c;
     case as_publication_error r of
       Inl e \<Rightarrow> Some (Inl e, st)
     | Inr _ \<Rightarrow> forward_all env st msg cs
   }"

definition match_and_forward_msg ::
    "mp_env \<Rightarrow> 'b processor \<Rightarrow> message \<Rightarrow> agent_type \<Rightarrow> u64 \<Rightarrow> u32 \<Rightarrow> u64 option \<Rightarrow>
     ((data_path_error + unit) \<times> 'b processor) option" where
  "match_and_forward_msg env st msg agent_type in_connection fanout agent_id = do {
     forward_to \<leftarrow> msg_get_forward_to msg;
     case forward_to of
       Some val \<Rightarrow> map_option (apfst as_publication_error) (send_msg env st msg val)
     | None \<Rightarrow> do {
         r \<leftarrow> on_publish_msg_match (env_rng_local env) (env_rng_remote env) (mp_forwarder st)
                agent_type agent_id in_connection fanout;
         case r of
           Inr out_vec \<Rightarrow> forward_all env st msg out_vec
         | Inl e \<Rightarrow> Some (Inl (PublicationError (subscription_table_error_display e)), st)
       }
   }"

definition process_publish ::
    "mp_env \<Rightarrow> 'b processor \<Rightarrow> message \<Rightarrow> u64 \<Rightarrow> ((data_path_error + unit) \<times> 'b processor) option" where
  "process_publish env st msg in_connection = do {
     header \<leftarrow> get_slim_header msg;
     (agent_type, agent_id) \<leftarrow> slim_header_get_dst header;
     fanout \<leftarrow> msg_get_fanout msg;
     match_and_forward_msg env st msg agent_type in_connection fanout agent_id
   }"

definition process_subscription ::
    "'b bitvec_ops \<Rightarrow> mp_env \<Rightarrow> 'b processor \<Rightarrow> message \<Rightarrow> bool \<Rightarrow>
     ((data_path_error + unit) \<times> 'b processor) option" where
  "process_subscription BV env st msg add = do {
     (agent_type, agent_id) \<leftarrow> msg_get_name (env_hash env) msg;
     header \<leftarrow> get_slim_header msg;
     (conn, forward) \<leftarrow> get_in_out_connections header;
     case get_connection (mp_forwarder st) conn of
       None \<Rightarrow> Some (Inl (SubscriptionError ''connection not found''), st)
     | Some connection \<Rightarrow> do {
         (r, fw) \<leftarrow> on_subscription_msg BV (mp_forwarder st) agent_type agent_id conn
                      (is_local_connection connection) add;
         let st = st\<lparr>mp_forwarder := fw\<rparr>;
         case r of
           Inl e \<Rightarrow> Some (Inl (SubscriptionError (subscription_table_error_display e)), st)
         | Inr _ \<Rightarrow>
             (case forward of
                None \<Rightarrow> Some (Inr (), st)
              | Some out_conn \<Rightarrow> do {
                  source_agent \<leftarrow> msg_get_source msg;
                  (r, st) \<leftarrow> send_msg env st msg out_conn;
                  case r of
                    Inr _ \<Rightarrow> Some (Inr (), st\<lparr>mp_forwarder :=
                      on_forwarded_subscription (mp_forwarder st) source_agent agent_type agent_id out_conn add\<rparr>)
                  | Inl e \<Rightarrow> Some (Inl (UnsubscriptionError (data_path_error_display e)), st)
                })
       }
   }"

definition process_message ::
    "'b bitvec_ops \<Rightarrow> mp_env \<Rightarrow> 'b processor \<Rightarrow> message \<Rightarrow> u64 \<Rightarrow>
     ((data_path_error + unit) \<times> 'b processor) option" where
  "process_message BV env st msg in_connection = do {
     t \<leftarrow> msg_type msg;
     case t of
       Subscribe _ \<Rightarrow> process_subscription BV env st msg True
     | Unsubscribe _ \<Rightarrow> process_subscription BV env st msg False
     | Publish _ \<Rightarrow> process_publish env st msg in_connection
   }"

text \<open>The two branches on \<open>is_local\<close> differ in the parent of the span only.\<close>

definition handle_new_message ::
    "'b bitvec_ops \<Rightarrow> mp_env \<Rightarrow> 'b processor \<Rightarrow> u64 \<Rightarrow> message \<Rightarrow>
     ((data_path_error + unit) \<times> 'b processor) option" where
  "handle_new_message BV env st conn_index msg = do {
     v \<leftarrow> message_validate msg;
     case v of
       Inl err \<Rightarrow> Some (Inl (InvalidMessage (message_error_display err)), st)
     | Inr _ \<Rightarrow> do {
         msg \<leftarrow> msg_set_incoming_conn (Some conn_index) msg;
         _ \<leftarrow> create_span env msg;
         let msg = inject_current_context env msg;
         (r, st) \<leftarrow> process_message BV env st msg conn_index;
         Some (map_sum (\<lambda>e. ProcessingError (data_path_error_display e)) id r, st)
       }
   }"

definition send_error_to_local_app :: "mp_env \<Rightarrow> 'b processor \<Rightarrow> u64 \<Rightarrow> data_path_error \<Rightarrow> 'b processor" where
  "send_error_to_local_app env st conn_index err =
     (case get_connection (mp_forwarder st) conn_index of
        Some conn \<Rightarrow>
          (case conn_channel conn of
             Server tx \<Rightarrow> snd (chan_send env st tx (Item_Status err))
           | _ \<Rightarrow> st)
      | None \<Rightarrow> st)"

section \<open>Connecting, disconnecting and the receiving loop\<close>

text \<open>
  \<open>attempts i\<close> is the outcome of the \<open>i\<close>-th call of \<open>open_channel\<close>: the sending channel
  and the cancellation token of the new stream, or a failure. The receiving task of the new
  connection starts with no event received.
\<close>

fun try_to_connect ::
    "'b bitvec_ops \<Rightarrow> 'b processor \<Rightarrow> socket_addr option \<Rightarrow> socket_addr option \<Rightarrow> u64 option \<Rightarrow>
     (nat \<Rightarrow> (nat \<times> nat) option) \<Rightarrow> nat \<Rightarrow> nat \<Rightarrow> ((data_path_error + u64) \<times> 'b processor) option" where
  "try_to_connect BV st local remote existing_conn_index attempts i 0 =
     Some (Inl (ConnectionError ''reached max connection retries''), st)"
| "try_to_connect BV st local remote existing_conn_index attempts i (Suc left) =
     (case attempts i of
        Some (tx, token) \<Rightarrow> do {
          let connection = with_cancellation_token (with_channel (with_remote_addr (with_local_addr
                (connection_new Remote) local) remote) (Client tx)) (Some token);
          (opt, fw) \<leftarrow> on_connection_established BV (mp_forwarder st) connection existing_conn_index;
          let st = st\<lparr>mp_forwarder := fw\<rparr>;
          case opt of
            None \<Rightarrow> Some (Inl (ConnectionError ''error adding connection to the connection tables''), st)
          | Some conn_index \<Rightarrow> Some (Inr conn_index, st)
        }
      | None \<Rightarrow> try_to_connect BV st local remote existing_conn_index attempts (i + 1) left)"

definition mp_connect ::
    "'b bitvec_ops \<Rightarrow> 'b processor \<Rightarrow> socket_addr option \<Rightarrow> socket_addr option \<Rightarrow>
     (nat \<Rightarrow> (nat \<times> nat) option) \<Rightarrow> ((data_path_error + u64) \<times> 'b processor) option" where
  "mp_connect BV st local remote attempts = try_to_connect BV st local remote None attempts 0 10"

definition mp_disconnect :: "'b processor \<Rightarrow> u64 \<Rightarrow> (data_path_error + unit) \<times> 'b processor" where
  "mp_disconnect st conn =
     (case get_connection (mp_forwarder st) conn of
        None \<Rightarrow> (Inl (DisconnectionError ''connection not found''), st)
      | Some c \<Rightarrow>
          (case conn_cancellation_token c of
             None \<Rightarrow> (Inr (), st)
           | Some t \<Rightarrow> (Inr (), st\<lparr>mp_cancelled := t # mp_cancelled st\<rparr>)))"

text \<open>\<open>tx2\<close> and \<open>token\<close> are the channel and the token the function creates.\<close>

definition register_local_connection ::
    "'b bitvec_ops \<Rightarrow> 'b processor \<Rightarrow> nat \<Rightarrow> nat \<Rightarrow> (u64 \<times> 'b processor) option" where
  "register_local_connection BV st tx2 token = do {
     let connection = with_cancellation_token (with_channel (connection_new Local) (Server tx2)) (Some token);
     (opt, fw) \<leftarrow> on_connection_established BV (mp_forwarder st) connection None;
     conn_id \<leftarrow> opt;
     Some (conn_id, st\<lparr>mp_forwarder := fw\<rparr>)
   }"

text \<open>The service's \<open>open_channel\<close>: a remote peer connects; \<open>tx\<close> is the channel back to it.\<close>

definition mp_open_channel ::
    "'b bitvec_ops \<Rightarrow> 'b processor \<Rightarrow> socket_addr option \<Rightarrow> socket_addr option \<Rightarrow> nat \<Rightarrow> (u64 \<times> 'b processor) option" where
  "mp_open_channel BV st remote_addr local_addr tx = do {
     let connection = with_channel (with_local_addr (with_remote_addr (connection_new Remote) remote_addr)
           local_addr) (Server tx);
     (opt, fw) \<leftarrow> on_connection_established BV (mp_forwarder st) connection None;
     conn_index \<leftarrow> opt;
     Some (conn_index, st\<lparr>mp_forwarder := fw\<rparr>)
   }"

text \<open>Sending the remembered subscriptions again; a failed send is only logged.\<close>

fun restore_subscriptions ::
    "mp_env \<Rightarrow> 'b processor \<Rightarrow> u64 \<Rightarrow> subscription_info list \<Rightarrow> 'b processor option" where
  "restore_subscriptions env st conn_index [] = Some st"
| "restore_subscriptions env st conn_index (r # rs) = do {
     sub_msg \<leftarrow> new_subscribe (si_source r) (ag_type (si_name r)) (agent_id_option (si_name r)) None;
     (_, st) \<leftarrow> send_msg env st sub_msg conn_index;
     restore_subscriptions env st conn_index rs
   }"

text \<open>
  What decides a reconnection: whether the client configuration gives a channel, and which branch
  of the \<open>select!\<close> completes first.
\<close>

datatype race = Cancelled_First | Drained_First | Connect_First "nat \<Rightarrow> (nat \<times> nat) option"

definition mp_reconnect ::
    "'b bitvec_ops \<Rightarrow> mp_env \<Rightarrow> 'b processor \<Rightarrow> bool option \<Rightarrow> u64 \<Rightarrow> race \<Rightarrow> (bool \<times> 'b processor) option" where
  "mp_reconnect BV env st client_conf conn_index race = do {
     to_channel_ok \<leftarrow> client_conf;
     if \<not> to_channel_ok then Some (False, st)
     else (let remote_subscriptions = get_subscriptions_forwarded_on_connection (mp_forwarder st) conn_index
           in case race of
                Cancelled_First \<Rightarrow> Some (False, st)
              | Drained_First \<Rightarrow> Some (False, st)
              | Connect_First attempts \<Rightarrow> do {
                  (res, st) \<leftarrow> try_to_connect BV st None None (Some conn_index) attempts 0 120;
                  case res of
                    Inr _ \<Rightarrow> do {
                      st \<leftarrow> restore_subscriptions env st conn_index remote_subscriptions;
                      Some (True, st)
                    }
                  | Inl _ \<Rightarrow> Some (False, st)
                })
   }"

datatype stream_event = Stream_Msg message | Stream_Error | Stream_End | Stream_Drained | Stream_Cancelled

text \<open>
  The receiving loop. The result is the flag \<open>try_to_reconnect\<close> once the loop has ended, and
  nothing while it waits for the next event.
\<close>

fun stream_loop ::
    "'b bitvec_ops \<Rightarrow> mp_env \<Rightarrow> 'b processor \<Rightarrow> u64 \<Rightarrow> bool \<Rightarrow> stream_event list \<Rightarrow> (bool option \<times> 'b processor) option" where
  "stream_loop BV env st conn_index is_local [] = Some (None, st)"
| "stream_loop BV env st conn_index is_local (Stream_Msg msg # es) = do {
     (r, st) \<leftarrow> handle_new_message BV env st conn_index msg;
     let st = (case r of
         Inl e \<Rightarrow> if is_local then send_error_to_local_app env st conn_index e else st
       | Inr _ \<Rightarrow> st);
     stream_loop BV env st conn_index is_local es
   }"
| "stream_loop BV env st conn_index is_local (Stream_Error # es) = Some (Some True, st)"
| "stream_loop BV env st conn_index is_local (Stream_End # es) = Some (Some True, st)"
| "stream_loop BV env st conn_index is_local (Stream_Drained # es) = Some (Some False, st)"
| "stream_loop BV env st conn_index is_local (Stream_Cancelled # es) = Some (Some False, st)"

definition process_stream ::
    "'b bitvec_ops \<Rightarrow> mp_env \<Rightarrow> 'b processor \<Rightarrow> u64 \<Rightarrow> bool option \<Rightarrow> bool \<Rightarrow> stream_event list \<Rightarrow> race \<Rightarrow>
     'b processor option" where
  "process_stream BV env st conn_index client_config is_local events race = do {
     (ended, st) \<leftarrow> stream_loop BV env st conn_index is_local events;
     case ended of
       None \<Rightarrow> Some st
     | Some try_to_reconnect \<Rightarrow> do {
         (connected, st) \<leftarrow>
           (if try_to_reconnect \<and> client_config \<noteq> None
            then mp_reconnect BV env st client_config conn_index race
            else Some (False, st));
         if \<not> connected
         then do {
           fw \<leftarrow> on_connection_drop BV (mp_forwarder st) conn_index is_local;
           Some (st\<lparr>mp_forwarder := fw\<rparr>)
         }
         else Some st
       }
   }"

section \<open>Sending\<close>

lemma inject_accessors [simp]:
  "msg_type (inject_current_context env m) = msg_type m"
  "get_slim_header (inject_current_context env m) = get_slim_header m"
  "get_session_header (inject_current_context env m) = get_session_header m"
  "msg_get_name xx (inject_current_context env m) = msg_get_name xx m"
  "msg_get_source (inject_current_context env m) = msg_get_source m"
  "msg_get_payload (inject_current_context env m) = msg_get_payload m"
  "msg_get_forward_to (inject_current_context env m) = msg_get_forward_to m"
  "msg_get_fanout (inject_current_context env m) = msg_get_fanout m"
  "create_span env' (inject_current_context env m) = create_span env' m"
  by (simp_all add: inject_current_context_def get_slim_header_def get_session_header_def msg_get_name_def
      msg_get_source_def msg_get_payload_def create_span_def msg_get_forward_to_def msg_get_fanout_def
      msg_get_name_as_agent_def msg_get_header_type_def cong: option.case_cong)

text \<open>A write to the header that keeps source and destination does not affect the span.\<close>

lemma create_span_mut:
  assumes "get_slim_header_mut f m = Some m'"
    and "\<And>h. sh_source (f h) = sh_source h" "\<And>h. sh_destination (f h) = sh_destination h"
  shows "create_span env m' = create_span env m"
  using assms
  by (cases "msg_type m" rule: message_kinds)
    (auto simp: get_slim_header_mut_def create_span_def message_accessors bind_eq_Some_conv)

definition wire_form :: "mp_env \<Rightarrow> message \<Rightarrow> message option" where
  "wire_form env m = map_option (inject_current_context env) (msg_clear_slim_header m)"

definition conn_chan :: "('b, connection) forwarder \<Rightarrow> u64 \<Rightarrow> nat option" where
  "conn_chan fw c =
     (case get_connection fw c of
        None \<Rightarrow> None
      | Some conn \<Rightarrow> (case conn_channel conn of Server ch \<Rightarrow> Some ch | Client ch \<Rightarrow> Some ch | Unknown_Channel \<Rightarrow> None))"

text \<open>The connections a message can be sent on: known, and the receiver is still there.\<close>

definition can_send :: "mp_env \<Rightarrow> ('b, connection) forwarder \<Rightarrow> u64 \<Rightarrow> bool" where
  "can_send env fw c = (case conn_chan fw c of None \<Rightarrow> False | Some ch \<Rightarrow> env_chan_open env ch)"

lemma can_send_known: "can_send env fw c \<Longrightarrow> get_connection fw c \<noteq> None"
  by (auto simp: can_send_def conn_chan_def split: option.splits)

lemma send_msg_result:
  assumes w: "wire_form env m = Some m'" and span: "create_span env m = Some ()"
  shows "if can_send env (mp_forwarder st) c
    then send_msg env st m c = Some (Inr (), st\<lparr>mp_sent := mp_sent st @ [(the (conn_chan (mp_forwarder st) c), Item m')]\<rparr>)
    else \<exists>e. send_msg env st m c = Some (Inl e, st)"
proof (cases "get_connection (mp_forwarder st) c")
  case None
  then show ?thesis by (simp add: can_send_def conn_chan_def send_msg_def)
next
  case (Some conn)
  obtain m1 where m1: "msg_clear_slim_header m = Some m1" "m' = inject_current_context env m1"
    using w by (auto simp: wire_form_def)
  have "create_span env m1 = Some ()"
    using span create_span_mut [of slim_header_clear m m1 env] m1(1)
    by (simp add: msg_clear_slim_header_def slim_header_clear_def)
  then show ?thesis
    using Some m1 by (cases "conn_channel conn")
      (auto simp: can_send_def conn_chan_def send_msg_def chan_send_def)
qed

lemma forward_all_spec:
  assumes w: "wire_form env m = Some m'" and span: "create_span env m = Some ()"
  shows "cs \<noteq> [] \<Longrightarrow> \<exists>r. forward_all env st m cs = Some (r, st\<lparr>mp_sent := mp_sent st @
      map (\<lambda>c. (the (conn_chan (mp_forwarder st) c), Item m')) (takeWhile (can_send env (mp_forwarder st)) cs)\<rparr>) \<and>
    (r = Inr () \<longleftrightarrow> (\<forall>c\<in>set cs. can_send env (mp_forwarder st) c))"
proof (induction cs arbitrary: st rule: induct_list012)
  case (2 c)
  show ?case using send_msg_result [OF w span, of st c]
    by (auto simp: as_publication_error_def split: if_splits)
next
  case (3 c d cs)
  show ?case
  proof (cases "can_send env (mp_forwarder st) c")
    case True
    let ?st = "st\<lparr>mp_sent := mp_sent st @ [(the (conn_chan (mp_forwarder st) c), Item m')]\<rparr>"
    have "forward_all env st m (c # d # cs) = forward_all env ?st m (d # cs)"
      using True send_msg_result [OF w span, of st c] by (simp add: as_publication_error_def)
    then show ?thesis using 3(2) [of ?st] True by auto
  next
    case False
    then show ?thesis using send_msg_result [OF w span, of st c] by (auto simp: as_publication_error_def)
  qed
qed simp

section \<open>Handling one message\<close>

lemma create_span_valid:
  assumes "message_validate m = Ok ()"
  shows "create_span env m = Some () \<longleftrightarrow> (env_span_enabled env \<longrightarrow> msg_get_source m \<noteq> None)"
proof -
  have "message_complete (msg_type m)" using assms validate_complete [of m] by simp
  then show ?thesis
    by (cases "msg_type m" rule: message_kinds)
      (auto simp: create_span_def message_accessors split: option.splits bind_splits)
qed

text \<open>The message after validation, with the incoming connection and the trace context set.\<close>

definition stamped :: "mp_env \<Rightarrow> u64 \<Rightarrow> message \<Rightarrow> message" where
  "stamped env c m = inject_current_context env (the (msg_set_incoming_conn (Some c) m))"

lemma stamped_facts:
  assumes "message_validate m = Ok ()" and "create_span env m = Some ()"
  shows "handle_new_message BV env st c m =
      do { (r, st) \<leftarrow> process_message BV env st (stamped env c m) c;
           Some (map_sum (\<lambda>e. ProcessingError (data_path_error_display e)) id r, st) }"
    and "\<exists>h. get_slim_header m = Some h \<and>
      get_slim_header (stamped env c m) = Some (h\<lparr>sh_incoming_conn := Some c\<rparr>)"
    and "create_span env (stamped env c m) = Some ()"
    and "get_session_header (stamped env c m) = get_session_header m"
    and "msg_get_payload (stamped env c m) = msg_get_payload m"
    and "msg_get_name xx (stamped env c m) = msg_get_name xx m"
    and "msg_get_source (stamped env c m) = msg_get_source m"
    and "is_publish (stamped env c m) = is_publish m"
    and "is_subscribe (stamped env c m) = is_subscribe m"
    and "is_unsubscribe (stamped env c m) = is_unsubscribe m"
proof -
  have "message_complete (msg_type m)" using assms(1) validate_complete [of m] by simp
  then obtain h where h: "get_slim_header m = Some h"
    by (cases "msg_type m" rule: message_kinds) (auto simp: get_slim_header_def split: option.splits)
  obtain m1 where m1: "msg_set_incoming_conn (Some c) m = Some m1"
      "get_slim_header m1 = Some (h\<lparr>sh_incoming_conn := Some c\<rparr>)"
    using slim_ref.wr_defined [OF h, of "slim_header_set_incoming_conn (Some c)"]
    by (auto simp: msg_set_incoming_conn_def slim_header_set_incoming_conn_def)
  note mut = m1(1) [unfolded msg_set_incoming_conn_def]
  have span: "create_span env m1 = Some ()"
    using create_span_mut [OF mut, of env] assms(2) by (simp add: slim_header_set_incoming_conn_def)
  show "handle_new_message BV env st c m =
      do { (r, st) \<leftarrow> process_message BV env st (stamped env c m) c;
           Some (map_sum (\<lambda>e. ProcessingError (data_path_error_display e)) id r, st) }"
    using assms(1) m1(1) span by (simp add: handle_new_message_def stamped_def)
  show "\<exists>h. get_slim_header m = Some h \<and>
      get_slim_header (stamped env c m) = Some (h\<lparr>sh_incoming_conn := Some c\<rparr>)"
    using h m1 by (simp add: stamped_def)
  show "create_span env (stamped env c m) = Some ()" using span m1(1) by (simp add: stamped_def)
  show "get_session_header (stamped env c m) = get_session_header m"
    "msg_get_payload (stamped env c m) = msg_get_payload m"
    "is_publish (stamped env c m) = is_publish m" "is_subscribe (stamped env c m) = is_subscribe m"
    "is_unsubscribe (stamped env c m) = is_unsubscribe m"
    using get_slim_header_mut_frame [OF mut] m1(1)
    by (simp_all add: stamped_def is_publish_def is_subscribe_def is_unsubscribe_def)
  show "msg_get_source (stamped env c m) = msg_get_source m"
    using m1 h by (simp add: stamped_def msg_get_source_def slim_header_get_source_def)
  show "msg_get_name xx (stamped env c m) = msg_get_name xx m"
    using mut m1(1) by (cases "msg_type m" rule: message_kinds)
      (auto simp: stamped_def msg_get_name_def get_slim_header_def get_slim_header_mut_def
        slim_header_get_dst_def slim_header_set_incoming_conn_def bind_eq_Some_conv)
qed

text \<open>What a connection receives of a publication that came in on \<open>c\<close>.\<close>

definition delivered_copy :: "u64 \<Rightarrow> message \<Rightarrow> message \<Rightarrow> bool" where
  "delivered_copy c m m' \<longleftrightarrow>
     get_slim_header m' = map_option (\<lambda>h. h\<lparr>sh_incoming_conn := Some c, sh_recv_from := None, sh_forward_to := None\<rparr>)
       (get_slim_header m) \<and>
     msg_get_payload m' = msg_get_payload m \<and> get_session_header m' = get_session_header m"

lemma wire_form_stamped:
  assumes "message_validate m = Ok ()" and "create_span env m = Some ()"
  obtains m' where "wire_form env (stamped env c m) = Some m'" "delivered_copy c m m'"
proof -
  note f = stamped_facts [OF assms, where c = c]
  obtain h where h: "get_slim_header m = Some h" "get_slim_header (stamped env c m) = Some (h\<lparr>sh_incoming_conn := Some c\<rparr>)"
    using f(2) by blast
  obtain m1 where m1: "msg_clear_slim_header (stamped env c m) = Some m1"
      "get_slim_header m1 = Some (slim_header_clear (h\<lparr>sh_incoming_conn := Some c\<rparr>))"
    using slim_ref.wr_defined [OF h(2), of slim_header_clear] by (auto simp: msg_clear_slim_header_def)
  note frame = get_slim_header_mut_frame [OF m1(1) [unfolded msg_clear_slim_header_def]]
  show thesis
  proof (rule that)
    show "wire_form env (stamped env c m) = Some (inject_current_context env m1)"
      using m1(1) by (simp add: wire_form_def)
    show "delivered_copy c m (inject_current_context env m1)"
      using m1(2) h(1) frame(1,2) f(4,5) by (simp add: delivered_copy_def slim_header_clear_def)
  qed
qed

text \<open>
  The connections a publication received on \<open>c\<close> is sent to: the one its header names, if it names
  one, and the ones matched for its destination otherwise, which are live and subscribed.
\<close>

definition publish_to ::
    "('b, connection) forwarder \<Rightarrow> u64 \<Rightarrow> slim_header \<Rightarrow> agent_type \<Rightarrow> u64 option \<Rightarrow> u64 list \<Rightarrow> bool" where
  "publish_to fw c h t i out \<longleftrightarrow>
     (case sh_forward_to h of
        Some v \<Rightarrow> out = [v]
      | None \<Rightarrow> publish_targets (fw_subscription_table fw) t i c (sh_fanout h) out \<and> c \<notin> set out \<and>
          (\<forall>o'\<in>set out. \<exists>conn j. get_connection fw o' = Some conn \<and>
             st_subs (fw_subscription_table fw) t j o' (is_local_connection conn)))"

lemma publish_to_incoming [simp]: "publish_to fw c (h\<lparr>sh_incoming_conn := x\<rparr>) t i out = publish_to fw c h t i out"
  by (simp add: publish_to_def split: option.split)

lemma process_publish_spec:
  assumes inv: "fw_inv BV is_local_connection (mp_forwarder st)"
    and rng: "rng_in_range (env_rng_local env)" "rng_in_range (env_rng_remote env)"
    and w: "wire_form env m = Some m'" and span: "create_span env m = Some ()"
    and hdr: "get_slim_header m = Some h" and dst: "slim_header_get_dst h = Some (t, i)"
  shows "\<exists>r out. process_publish env st m c = Some (r, st\<lparr>mp_sent := mp_sent st @
        map (\<lambda>o'. (the (conn_chan (mp_forwarder st) o'), Item m')) (takeWhile (can_send env (mp_forwarder st)) out)\<rparr>) \<and>
      publish_to (mp_forwarder st) c h t i out \<and>
      (r = Inr () \<longleftrightarrow> out \<noteq> [] \<and> (\<forall>o'\<in>set out. can_send env (mp_forwarder st) o'))"
proof (cases "sh_forward_to h")
  case None
  obtain r where r: "on_publish_msg_match (env_rng_local env) (env_rng_remote env) (mp_forwarder st) t i c (sh_fanout h) = Some r"
      "\<And>out. r = Inr out \<Longrightarrow> out \<noteq> [] \<and> (\<forall>o'\<in>set out. o' \<noteq> c \<and>
         (\<exists>conn j. get_connection (mp_forwarder st) o' = Some conn \<and>
            st_subs (fw_subscription_table (mp_forwarder st)) t j o' (is_local_connection conn)))"
    using publish_match_spec [OF inv rng, of t i c "sh_fanout h"] by fastforce
  have eq: "process_publish env st m c = (case r of Inr out_vec \<Rightarrow> forward_all env st m out_vec
      | Inl e \<Rightarrow> Some (Inl (PublicationError (subscription_table_error_display e)), st))"
    using hdr dst None r(1) by (simp add: process_publish_def msg_get_fanout_def match_and_forward_msg_def msg_get_forward_to_def)
  have to: "publish_to (mp_forwarder st) c h t i (matched r)"
    using publish_match_targets [OF inv rng r(1)] None r(2) by (cases r) (auto simp: publish_to_def matched_def)
  show ?thesis
  proof (cases r)
    case (Inl e)
    then show ?thesis using eq to by (intro exI [of _ "Inl (PublicationError (subscription_table_error_display e))"] exI [of _ "[]"])
        (simp add: matched_def)
  next
    case (Inr out)
    then show ?thesis using eq to forward_all_spec [OF w span, of out st] r(2) [OF Inr] by (auto simp: matched_def)
  qed
next
  case (Some v)
  then have "process_publish env st m c = map_option (apfst as_publication_error) (send_msg env st m v)"
    using hdr dst by (simp add: process_publish_def msg_get_fanout_def match_and_forward_msg_def msg_get_forward_to_def)
  then show ?thesis using send_msg_result [OF w span, of st v] Some
    by (cases "can_send env (mp_forwarder st) v")
      (auto simp: publish_to_def as_publication_error_def intro!: exI [of _ "[v]"])
qed

lemma publication_spec:
  assumes inv: "fw_inv BV is_local_connection (mp_forwarder st)"
    and rng: "rng_in_range (env_rng_local env)" "rng_in_range (env_rng_remote env)"
    and valid: "message_validate m = Ok ()" and pub: "is_publish m = Some True"
    and source: "env_span_enabled env \<longrightarrow> msg_get_source m \<noteq> None"
    and hdr: "get_slim_header m = Some h" and dst: "slim_header_get_dst h = Some (t, i)"
  shows "\<exists>r out m'. handle_new_message BV env st c m = Some (r, st\<lparr>mp_sent := mp_sent st @
        map (\<lambda>o'. (the (conn_chan (mp_forwarder st) o'), Item m')) (takeWhile (can_send env (mp_forwarder st)) out)\<rparr>) \<and>
      delivered_copy c m m' \<and> publish_to (mp_forwarder st) c h t i out \<and>
      (r = Inr () \<longleftrightarrow> out \<noteq> [] \<and> (\<forall>o'\<in>set out. can_send env (mp_forwarder st) o'))"
proof -
  have span: "create_span env m = Some ()" using create_span_valid [OF valid] source by simp
  note f = stamped_facts [OF valid span, where c = c]
  let ?m = "stamped env c m"
  obtain m' where m': "wire_form env ?m = Some m'" "delivered_copy c m m'"
    using wire_form_stamped [OF valid span] .
  have h: "get_slim_header ?m = Some (h\<lparr>sh_incoming_conn := Some c\<rparr>)" using f(2) hdr by auto
  have fwd: "msg_get_forward_to ?m = Some (sh_forward_to h)" using h by (simp add: msg_get_forward_to_def)
  have d: "slim_header_get_dst (h\<lparr>sh_incoming_conn := Some c\<rparr>) = Some (t, i)"
    using dst by (simp add: slim_header_get_dst_def)
  obtain p where p: "msg_type ?m = Some (Publish p)"
    using pub f(8) by (cases "msg_type ?m" rule: message_kinds) (auto simp: is_publish_def)
  have pm: "process_message BV env st ?m c = process_publish env st ?m c" using p by (simp add: process_message_def)
  obtain r out where r: "process_publish env st ?m c = Some (r, st\<lparr>mp_sent := mp_sent st @
        map (\<lambda>o'. (the (conn_chan (mp_forwarder st) o'), Item m')) (takeWhile (can_send env (mp_forwarder st)) out)\<rparr>)"
      "publish_to (mp_forwarder st) c h t i out" "r = Inr () \<longleftrightarrow> out \<noteq> [] \<and> (\<forall>o'\<in>set out. can_send env (mp_forwarder st) o')"
    using process_publish_spec [OF inv rng m'(1) f(3) h d, of c] unfolding publish_to_incoming by blast
  obtain r' where "r' = Inr () \<longleftrightarrow> r = Inr ()" "handle_new_message BV env st c m = Some (r', st\<lparr>mp_sent := mp_sent st @
        map (\<lambda>o'. (the (conn_chan (mp_forwarder st) o'), Item m')) (takeWhile (can_send env (mp_forwarder st)) out)\<rparr>)"
    using f(1) [of BV st] pm r(1) by (cases r) auto
  then show ?thesis using r(2,3) m'(2)
    by (intro exI [of _ r'] exI [of _ out] exI [of _ m'] conjI) simp_all
qed

section \<open>The invariant of the processor\<close>

text \<open>
  The tables are consistent, and every remembered subscription can be sent again: its name carries
  its strings and its source has an identifier that survives the wire format.
\<close>

definition resendable :: "subscription_info \<Rightarrow> bool" where
  "resendable info \<longleftrightarrow> at_strings (ag_type (si_name info)) \<noteq> None \<and> ag_id (si_source info) \<noteq> DEFAULT_AGENT_ID"

definition mp_inv :: "'b bitvec_ops \<Rightarrow> 'b processor \<Rightarrow> bool" where
  "mp_inv BV st \<longleftrightarrow> fw_inv BV is_local_connection (mp_forwarder st) \<and>
     (\<forall>c. \<forall>info\<in>set (get_subscriptions_on_connection c (fw_remote_subscription_table (mp_forwarder st))). resendable info)"

lemma mp_inv_fw: "mp_inv BV st \<Longrightarrow> fw_inv BV is_local_connection (mp_forwarder st)"
  by (simp add: mp_inv_def)

lemma mp_inv_frame [simp]:
  "mp_inv BV (st\<lparr>mp_sent := log\<rparr>) = mp_inv BV st" "mp_inv BV (st\<lparr>mp_cancelled := ts\<rparr>) = mp_inv BV st"
  by (simp_all add: mp_inv_def)

text \<open>
  What the processor relies on in the messages of its peers: the source has an identifier, other
  than the one that stands for none, and a subscription is only withdrawn where it was made.
\<close>

definition sub_conn :: "u64 \<Rightarrow> message \<Rightarrow> u64" where
  "sub_conn c m = (case get_slim_header m of
      None \<Rightarrow> c | Some h \<Rightarrow> (case sh_recv_from h of None \<Rightarrow> c | Some v \<Rightarrow> v))"

definition sender_known :: "message \<Rightarrow> bool" where
  "sender_known m = (case msg_get_source m of None \<Rightarrow> False | Some a \<Rightarrow> ag_id a \<noteq> DEFAULT_AGENT_ID)"

definition msg_legal :: "mp_env \<Rightarrow> 'b processor \<Rightarrow> u64 \<Rightarrow> message \<Rightarrow> bool" where
  "msg_legal env st c m \<longleftrightarrow> sender_known m \<and>
     (is_unsubscribe m = Some True \<longrightarrow> (\<forall>conn t i. get_connection (mp_forwarder st) (sub_conn c m) = Some conn \<longrightarrow>
        msg_get_name (env_hash env) m = Some (t, i) \<longrightarrow>
        removable (st_subs (fw_subscription_table (mp_forwarder st))) t (uid_or_default i) (sub_conn c m) (is_local_connection conn)))"

lemma process_publish_total:
  assumes inv: "fw_inv BV is_local_connection (mp_forwarder st)"
    and rng: "rng_in_range (env_rng_local env)" "rng_in_range (env_rng_remote env)"
    and w: "wire_form env m = Some m'" and span: "create_span env m = Some ()"
    and hdr: "get_slim_header m = Some h" and dst: "slim_header_get_dst h = Some (t, i)"
  shows "\<exists>r log. process_publish env st m c = Some (r, st\<lparr>mp_sent := log\<rparr>)"
  using process_publish_spec [OF assms] by blast

lemma process_subscription_spec:
  assumes bv: "bit_vec BV" and inv: "mp_inv BV st"
    and w: "wire_form env m = Some m'" and span: "create_span env m = Some ()"
    and hdr: "get_slim_header m = Some h" and inc: "sh_incoming_conn h = Some c"
    and name: "msg_get_name (env_hash env) m = Some (t, i)" "add \<longrightarrow> at_strings t \<noteq> None"
    and src: "msg_get_source m = Some a" "ag_id a \<noteq> DEFAULT_AGENT_ID"
    and legal: "\<And>conn. get_connection (mp_forwarder st) (sub_conn c m) = Some conn \<Longrightarrow> add \<or>
      removable (st_subs (fw_subscription_table (mp_forwarder st))) t (uid_or_default i) (sub_conn c m) (is_local_connection conn)"
  shows "\<exists>r st'. process_subscription BV env st m add = Some (r, st') \<and> mp_inv BV st' \<and>
    get_connection (mp_forwarder st') = get_connection (mp_forwarder st)"
proof -
  obtain fwd where io: "get_in_out_connections h = Some (sub_conn c m, fwd)"
    using inc hdr by (cases "sh_recv_from h"; cases "sh_forward_to h")
      (auto simp: get_in_out_connections_def sub_conn_def)
  show ?thesis
  proof (cases "get_connection (mp_forwarder st) (sub_conn c m)")
    case None
    then show ?thesis using hdr io name(1) inv by (simp add: process_subscription_def)
  next
    case (Some conn)
    obtain r fw where fw: "on_subscription_msg BV (mp_forwarder st) t i (sub_conn c m) (is_local_connection conn) add = Some (r, fw)"
        "fw_inv BV is_local_connection fw" "fw_connection_table fw = fw_connection_table (mp_forwarder st)"
        "fw_remote_subscription_table fw = fw_remote_subscription_table (mp_forwarder st)"
      using bit_vec.fw_subscription_spec [OF bv mp_inv_fw [OF inv] Some legal [OF Some]] by blast
    have fw': "mp_inv BV (st\<lparr>mp_forwarder := fw\<rparr>)" "get_connection fw = get_connection (mp_forwarder st)"
      using fw inv by (simp_all add: mp_inv_def get_connection_def fun_eq_iff)
    have fwd_inv: "mp_inv BV (st\<lparr>mp_sent := log, mp_forwarder := on_forwarded_subscription fw a t i o' add\<rparr>)"
      if "can_send env fw o'" for o' log
      using fw'(1) bit_vec.fw_forwarded_inv [OF bv fw(2) can_send_known [OF that]] name(2) src(2)
      by (auto simp: mp_inv_def on_forwarded_subscription_def Let_def resendable_def agent_new_def
          dest!: remote_names_add remote_names_remove)
    have get: "get_connection (on_forwarded_subscription fw a t i o' add) = get_connection fw" for o'
      by (simp add: on_forwarded_subscription_def Let_def)
    show ?thesis
      using hdr io name(1) Some fw(1) fw' fwd_inv get src(1)
        send_msg_result [OF w span, of "st\<lparr>mp_forwarder := fw\<rparr>" "the fwd"]
      by (cases r; cases fwd) (auto simp: process_subscription_def split: if_splits)
  qed
qed

lemma validated_header:
  assumes "message_validate m = Ok ()"
  obtains h t i where "get_slim_header m = Some h" "slim_header_get_dst h = Some (t, i)"
proof -
  have "message_complete (msg_type m)" using assms validate_complete [of m] by simp
  then show thesis using that
    by (cases "msg_type m" rule: message_kinds) (auto simp: get_slim_header_def slim_header_get_dst_def split: option.splits)
qed

lemma handle_new_message_spec:
  assumes bv: "bit_vec BV" and inv: "mp_inv BV st"
    and rng: "rng_in_range (env_rng_local env)" "rng_in_range (env_rng_remote env)"
    and legal: "msg_legal env st c m"
  shows "\<exists>r st'. handle_new_message BV env st c m = Some (r, st') \<and> mp_inv BV st' \<and>
    get_connection (mp_forwarder st') = get_connection (mp_forwarder st)"
proof (cases "message_validate m = Ok ()")
  case False
  then show ?thesis using validate_complete [of m] inv
    by (auto simp: handle_new_message_def split: sum.splits)
next
  case valid: True
  obtain a where a: "msg_get_source m = Some a" "ag_id a \<noteq> DEFAULT_AGENT_ID"
    using legal by (auto simp: msg_legal_def sender_known_def split: option.splits)
  have span: "create_span env m = Some ()" using create_span_valid [OF valid] a(1) by simp
  note f = stamped_facts [OF valid span, where c = c]
  let ?m = "stamped env c m"
  obtain m' where w: "wire_form env ?m = Some m'" using wire_form_stamped [OF valid span] .
  obtain h t i where h: "get_slim_header m = Some h" "slim_header_get_dst h = Some (t, i)"
    using validated_header [OF valid] .
  have h': "get_slim_header ?m = Some (h\<lparr>sh_incoming_conn := Some c\<rparr>)" using f(2) h(1) by auto
  have d': "slim_header_get_dst (h\<lparr>sh_incoming_conn := Some c\<rparr>) = Some (t, i)"
    using h(2) by (simp add: slim_header_get_dst_def)
  have sub: "sub_conn c ?m = sub_conn c m" using h(1) h' by (simp add: sub_conn_def)
  have "\<exists>r st'. process_message BV env st ?m c = Some (r, st') \<and> mp_inv BV st' \<and>
    get_connection (mp_forwarder st') = get_connection (mp_forwarder st)"
  proof (cases "msg_type ?m" rule: message_kinds)
    case 1
    then show ?thesis using h' by (simp add: get_slim_header_def)
  next
    case (2 p)
    then show ?thesis using process_publish_total [OF mp_inv_fw [OF inv] rng w f(3) h' d', of c] inv
      by (auto simp: process_message_def)
  next
    case (3 s)
    obtain t' where t': "msg_get_name (env_hash env) ?m = Some (t', i)" "at_strings t' \<noteq> None"
      using 3 h' d' by (simp add: msg_get_name_def)
    show ?thesis using 3 process_subscription_spec [OF bv inv w f(3) h' _ t'(1), where add = True and c = c and a = a] t'(2) a f(7)
      by (simp add: process_message_def)
  next
    case (4 u)
    have t': "msg_get_name (env_hash env) ?m = Some (t, i)"
      using 4 h' d' by (simp add: msg_get_name_def)
    have "is_unsubscribe m = Some True" using f(10) 4 by (simp add: is_unsubscribe_def)
    then show ?thesis using 4 legal t' a f(6,7)
        process_subscription_spec [OF bv inv w f(3) h' _ t', where add = False and c = c and a = a]
      by (simp add: process_message_def sub msg_legal_def)
  qed
  then show ?thesis using f(1) [of BV st] by auto
qed

text \<open>A subscription or unsubscription that is not forwarded changes the subscription table only.\<close>

lemma subscription_applied:
  assumes bv: "bit_vec BV" and inv: "mp_inv BV st" and valid: "message_validate m = Ok ()"
    and src: "msg_get_source m \<noteq> None" and name: "msg_get_name (env_hash env) m = Some (t, i)"
    and kind: "if add then is_subscribe m = Some True else is_unsubscribe m = Some True"
    and hdr: "get_slim_header m = Some h" and stays: "sh_forward_to h = None \<or> sh_recv_from h \<noteq> None"
    and conn: "get_connection (mp_forwarder st) (sub_conn e m) = Some conn"
    and legal: "add \<or> removable (st_subs (fw_subscription_table (mp_forwarder st))) t (uid_or_default i) (sub_conn e m) (is_local_connection conn)"
  shows "\<exists>r st'. handle_new_message BV env st e m = Some (r, st') \<and> mp_inv BV st' \<and>
    st_subs (fw_subscription_table (mp_forwarder st')) =
      sub_step (if add then Sub_Add t i (sub_conn e m) (is_local_connection conn) else Sub_Remove t i (sub_conn e m) (is_local_connection conn))
        (st_subs (fw_subscription_table (mp_forwarder st))) \<and>
    fw_connection_table (mp_forwarder st') = fw_connection_table (mp_forwarder st) \<and> mp_sent st' = mp_sent st"
proof -
  have span: "create_span env m = Some ()" using src create_span_valid [OF valid] by simp
  note f = stamped_facts [OF valid span, where c = e]
  let ?m = "stamped env e m"
  have "if add then is_subscribe ?m = Some True else is_unsubscribe ?m = Some True" using kind f(9,10) by simp
  then have pm: "process_message BV env st ?m e = process_subscription BV env st ?m add"
    by (cases "msg_type ?m" rule: message_kinds)
      (auto simp: process_message_def is_subscribe_def is_unsubscribe_def split: if_splits)
  have io: "get_slim_header ?m = Some (h\<lparr>sh_incoming_conn := Some e\<rparr>)"
      "get_in_out_connections (h\<lparr>sh_incoming_conn := Some e\<rparr>) = Some (sub_conn e m, None)"
    using f(2) hdr stays by (auto simp: get_in_out_connections_def sub_conn_def split: option.splits)
  obtain r fw where fw: "on_subscription_msg BV (mp_forwarder st) t i (sub_conn e m) (is_local_connection conn) add = Some (r, fw)"
      "fw_inv BV is_local_connection fw" "fw_connection_table fw = fw_connection_table (mp_forwarder st)"
      "fw_remote_subscription_table fw = fw_remote_subscription_table (mp_forwarder st)"
      "st_subs (fw_subscription_table fw) = sub_step (if add then Sub_Add t i (sub_conn e m) (is_local_connection conn)
        else Sub_Remove t i (sub_conn e m) (is_local_connection conn)) (st_subs (fw_subscription_table (mp_forwarder st)))"
    using bit_vec.fw_subscription_spec [OF bv mp_inv_fw [OF inv] conn legal] by auto
  have "mp_inv BV (st\<lparr>mp_forwarder := fw\<rparr>)" using fw inv by (simp add: mp_inv_def)
  then show ?thesis using f(1) [of BV st] pm io f(6) name conn fw(1,3,5)
    by (cases r) (auto simp: process_subscription_def)
qed

section \<open>Connecting and reconnecting\<close>

text \<open>The connection that a successful attempt of \<open>try_to_connect\<close> installs.\<close>

definition client_connection :: "socket_addr option \<Rightarrow> socket_addr option \<Rightarrow> nat \<times> nat \<Rightarrow> connection" where
  "client_connection local remote p = \<lparr>conn_remote_addr = remote, conn_local_addr = local,
     conn_channel = Client (fst p), conn_connection_type = Remote, conn_cancellation_token = Some (snd p)\<rparr>"

lemma client_connection_remote [simp]: "\<not> is_local_connection (client_connection local remote p)"
  by (simp add: client_connection_def is_local_connection_def)

text \<open>\<open>try_to_connect\<close> gives up after \<open>n\<close> attempts, or uses the first that succeeds.\<close>

fun first_attempt :: "(nat \<Rightarrow> 'a option) \<Rightarrow> nat \<Rightarrow> nat \<Rightarrow> 'a option" where
  "first_attempt attempts i 0 = None"
| "first_attempt attempts i (Suc n) =
     (case attempts i of None \<Rightarrow> first_attempt attempts (i + 1) n | Some p \<Rightarrow> Some p)"

lemma first_attempt_none: "first_attempt (\<lambda>_. None) i n = None"
  by (induction n arbitrary: i) simp_all

lemma first_attempt_at:
  "k < n \<Longrightarrow> attempts (i + k) = Some p \<Longrightarrow> (\<And>j. j < k \<Longrightarrow> attempts (i + j) = None) \<Longrightarrow>
   first_attempt attempts i n = Some p"
proof (induction n arbitrary: i k)
  case (Suc n)
  show ?case
  proof (cases k)
    case (Suc k')
    have "attempts i = None" using Suc.prems(3) [of 0] Suc by simp
    then show ?thesis using Suc.IH [of k' "i + 1"] Suc.prems(1,2) Suc.prems(3) [of "Suc _"] Suc by simp
  qed (use Suc.prems in simp)
qed simp

lemma try_to_connect_result:
  "try_to_connect BV st local remote ex attempts i n =
     (case first_attempt attempts i n of
        None \<Rightarrow> Some (Inl (ConnectionError ''reached max connection retries''), st)
      | Some p \<Rightarrow> do {
          (opt, fw) \<leftarrow> on_connection_established BV (mp_forwarder st) (client_connection local remote p) ex;
          Some (case opt of None \<Rightarrow> Inl (ConnectionError ''error adding connection to the connection tables'')
                | Some x \<Rightarrow> Inr x, st\<lparr>mp_forwarder := fw\<rparr>)
        })"
proof (induction n arbitrary: i)
  case (Suc n)
  show ?case
  proof (cases "attempts i")
    case None
    then show ?thesis using Suc.IH [of "i + 1"] by simp
  next
    case (Some p)
    obtain tx token where p: "p = (tx, token)" by fastforce
    have eq: "with_cancellation_token (with_channel (with_remote_addr (with_local_addr (connection_new Remote) local) remote)
        (Client tx)) (Some token) = client_connection local remote p"
      by (simp add: p client_connection_def with_cancellation_token_def with_channel_def with_remote_addr_def
          with_local_addr_def connection_new_def)
    show ?thesis using Some eq by (auto simp: p split: option.splits bind_splits)
  qed
qed simp

lemma resend_defined:
  assumes "resendable r"
  obtains m m' where "new_subscribe (si_source r) (ag_type (si_name r)) (agent_id_option (si_name r)) None = Some m"
    "create_span env m = Some ()" "wire_form env m = Some m'"
proof -
  obtain org ns ty where s: "at_strings (ag_type (si_name r)) = Some (org, ns, ty)"
    using assms by (auto simp: resendable_def)
  let ?h = "slim_header_new (si_source r) (ag_type (si_name r)) (agent_id_option (si_name r)) None"
  let ?m = "message_new [] (Subscribe \<lparr>sub_header = Some ?h, sub_organization = org, sub_namespace = ns, sub_agent_type = ty\<rparr>)"
  have m: "new_subscribe (si_source r) (ag_type (si_name r)) (agent_id_option (si_name r)) None = Some ?m"
    using s by (simp add: new_subscribe_def subscribe_new_def organization_string_def namespace_string_def agent_type_string_def)
  have "create_span env ?m = Some ()"
    using assms by (simp add: create_span_def message_accessors message_new_def slim_header_new_def Let_def
        proto_agent_from_agent_def agent_from_proto_def resendable_def agent_id_option_def)
  moreover have "\<exists>m'. wire_form env ?m = Some m'"
    by (simp add: wire_form_def msg_clear_slim_header_def get_slim_header_mut_def message_new_def)
  ultimately show thesis using that m by blast
qed

text \<open>What restoring sends for a remembered subscription.\<close>

definition resubscription :: "mp_env \<Rightarrow> subscription_info \<Rightarrow> message" where
  "resubscription env r = the (wire_form env (the (new_subscribe (si_source r) (ag_type (si_name r))
     (agent_id_option (si_name r)) None)))"

lemma restore_subscriptions_spec:
  assumes "\<forall>r\<in>set rs. resendable r"
  shows "\<exists>log. restore_subscriptions env st c rs = Some (st\<lparr>mp_sent := mp_sent st @ log\<rparr>) \<and>
    (can_send env (mp_forwarder st) c \<longrightarrow>
       log = map (\<lambda>r. (the (conn_chan (mp_forwarder st) c), Item (resubscription env r))) rs)"
  using assms
proof (induction rs arbitrary: st)
  case (Cons r rs)
  obtain m m' where m: "new_subscribe (si_source r) (ag_type (si_name r)) (agent_id_option (si_name r)) None = Some m"
      "create_span env m = Some ()" "wire_form env m = Some m'"
    using resend_defined Cons.prems by (metis list.set_intros(1))
  have re: "resubscription env r = m'" using m by (simp add: resubscription_def)
  show ?case
  proof (cases "can_send env (mp_forwarder st) c")
    case True
    let ?st = "st\<lparr>mp_sent := mp_sent st @ [(the (conn_chan (mp_forwarder st) c), Item m')]\<rparr>"
    have "restore_subscriptions env st c (r # rs) = restore_subscriptions env ?st c rs"
      using send_msg_result [OF m(3,2), of st c] True m(1) by simp
    then show ?thesis using Cons.IH [of ?st] Cons.prems True re by auto
  next
    case False
    then obtain e where "send_msg env st m c = Some (Inl e, st)" using send_msg_result [OF m(3,2), of st c] by auto
    then have "restore_subscriptions env st c (r # rs) = restore_subscriptions env st c rs" using m(1) by simp
    then show ?thesis using Cons.IH [of st] Cons.prems False by auto
  qed
qed (simp add: exI [of _ "[]"])

text \<open>When a task that lost its connection gets it back.\<close>

definition reconnects :: "bool option \<Rightarrow> race \<Rightarrow> bool" where
  "reconnects client_config race \<longleftrightarrow> client_config = Some True \<and>
     (case race of Connect_First attempts \<Rightarrow> first_attempt attempts 0 120 \<noteq> None | _ \<Rightarrow> False)"

lemma mp_reconnect_spec:
  assumes bv: "bit_vec BV" and inv: "mp_inv BV st"
    and old: "get_connection (mp_forwarder st) c = Some old" "\<not> is_local_connection old"
  shows "\<exists>b st'. mp_reconnect BV env st (Some conf) c race = Some (b, st') \<and> mp_inv BV st' \<and>
    fw_subscription_table (mp_forwarder st') = fw_subscription_table (mp_forwarder st) \<and>
    fw_remote_subscription_table (mp_forwarder st') = fw_remote_subscription_table (mp_forwarder st) \<and>
    (\<forall>c'. c' \<noteq> c \<longrightarrow> get_connection (mp_forwarder st') c' = get_connection (mp_forwarder st) c') \<and>
    (\<exists>conn. get_connection (mp_forwarder st') c = Some conn \<and> \<not> is_local_connection conn) \<and>
    (b \<longleftrightarrow> reconnects (Some conf) race) \<and> (\<not> b \<longrightarrow> st' = st) \<and>
    (\<forall>attempts p. conf \<longrightarrow> race = Connect_First attempts \<longrightarrow> first_attempt attempts 0 120 = Some p \<longrightarrow>
       env_chan_open env (fst p) \<longrightarrow>
       b \<and> get_connection (mp_forwarder st') c = Some (client_connection None None p) \<and>
       mp_sent st' = mp_sent st @ map (\<lambda>r. (fst p, Item (resubscription env r)))
         (get_subscriptions_forwarded_on_connection (mp_forwarder st) c))"
proof (cases "\<exists>attempts p. conf \<and> race = Connect_First attempts \<and> first_attempt attempts 0 120 = Some p")
  case False
  then have "mp_reconnect BV env st (Some conf) c race = Some (False, st)"
    by (cases race) (auto simp: mp_reconnect_def try_to_connect_result split: option.splits)
  moreover have "\<not> reconnects (Some conf) race" using False by (auto simp: reconnects_def split: race.splits)
  ultimately show ?thesis using inv old False by auto
next
  case True
  then obtain attempts p where p: "conf" "race = Connect_First attempts" "first_attempt attempts 0 120 = Some p" by blast
  let ?conn = "client_connection None None p"
  obtain fw where fw: "on_connection_established BV (mp_forwarder st) ?conn (Some c) = Some (Some c, fw)"
      "fw_inv BV is_local_connection fw" "fw_subscription_table fw = fw_subscription_table (mp_forwarder st)"
      "fw_remote_subscription_table fw = fw_remote_subscription_table (mp_forwarder st)"
      "get_connection fw = (get_connection (mp_forwarder st))(c \<mapsto> ?conn)"
    using bit_vec.fw_reconnect_spec [OF bv mp_inv_fw [OF inv] old(1), of ?conn] old(2) by auto
  let ?rs = "get_subscriptions_forwarded_on_connection (mp_forwarder st) c" and ?st = "st\<lparr>mp_forwarder := fw\<rparr>"
  have inv': "mp_inv BV ?st" using inv fw(2,4) by (simp add: mp_inv_def)
  obtain log where log: "restore_subscriptions env ?st c ?rs = Some (?st\<lparr>mp_sent := mp_sent ?st @ log\<rparr>)"
      "can_send env fw c \<longrightarrow> log = map (\<lambda>r. (the (conn_chan fw c), Item (resubscription env r))) ?rs"
    using restore_subscriptions_spec [of ?rs env ?st c] inv
    by (auto simp: mp_inv_def get_subscriptions_forwarded_on_connection_def)
  have res: "mp_reconnect BV env st (Some conf) c race = Some (True, ?st\<lparr>mp_sent := mp_sent ?st @ log\<rparr>)"
    using p fw(1) log(1) by (simp add: mp_reconnect_def try_to_connect_result)
  have chan: "conn_chan fw c = Some (fst p)"
    using fw(5) by (simp add: conn_chan_def client_connection_def)
  show ?thesis
    unfolding res using fw(3-5) p log(2) chan inv'
    by (intro exI [of _ True] exI [of _ "?st\<lparr>mp_sent := mp_sent ?st @ log\<rparr>"]) (auto simp: can_send_def reconnects_def)
qed

text \<open>A new connection takes the smallest free number.\<close>

lemma mp_established:
  assumes "bit_vec BV" and inv: "mp_inv BV st"
  shows "\<exists>x fw. on_connection_established BV (mp_forwarder st) conn None = Some (Some (of_nat x), fw) \<and>
    mp_inv BV (st\<lparr>mp_forwarder := fw\<rparr>) \<and> pool_get (fw_connection_table (mp_forwarder st)) x = None \<and>
    pool_get (fw_connection_table fw) = (pool_get (fw_connection_table (mp_forwarder st)))(x \<mapsto> conn)"
proof -
  obtain x fw where fw: "on_connection_established BV (mp_forwarder st) conn None = Some (Some (of_nat x), fw)"
      "fw_inv BV is_local_connection fw" "pool_get (fw_connection_table (mp_forwarder st)) x = None"
      "pool_get (fw_connection_table fw) = (pool_get (fw_connection_table (mp_forwarder st)))(x \<mapsto> conn)"
    using bit_vec.fw_connect_spec [OF assms(1) mp_inv_fw [OF inv], of conn] by blast
  have "fw_remote_subscription_table fw = fw_remote_subscription_table (mp_forwarder st)"
    using fw(1) by (auto simp: on_connection_established_def bind_eq_Some_conv)
  then show ?thesis using fw inv by (auto simp: mp_inv_def)
qed

lemma mp_establish_spec:
  assumes "bit_vec BV" and "mp_inv BV st"
  shows "\<exists>x st'. register_local_connection BV st tx token = Some (of_nat x, st') \<and> mp_inv BV st' \<and>
      pool_get (fw_connection_table (mp_forwarder st)) x = None"
    and "\<exists>x st'. mp_open_channel BV st ra la tx = Some (of_nat x, st') \<and> mp_inv BV st' \<and>
      pool_get (fw_connection_table (mp_forwarder st)) x = None"
    and "\<exists>r st'. mp_connect BV st la ra attempts = Some (r, st') \<and> mp_inv BV st'"
proof -
  show "\<exists>x st'. register_local_connection BV st tx token = Some (of_nat x, st') \<and> mp_inv BV st' \<and>
      pool_get (fw_connection_table (mp_forwarder st)) x = None"
    using mp_established [OF assms, of "with_cancellation_token (with_channel (connection_new Local) (Server tx)) (Some token)"]
    by (auto simp: register_local_connection_def)
  show "\<exists>x st'. mp_open_channel BV st ra la tx = Some (of_nat x, st') \<and> mp_inv BV st' \<and>
      pool_get (fw_connection_table (mp_forwarder st)) x = None"
    using mp_established [OF assms, of "with_channel (with_local_addr (with_remote_addr (connection_new Remote) ra) la) (Server tx)"]
    by (auto simp: mp_open_channel_def)
  show "\<exists>r st'. mp_connect BV st la ra attempts = Some (r, st') \<and> mp_inv BV st'"
  proof (cases "first_attempt attempts 0 10")
    case None
    then show ?thesis using assms(2) by (simp add: mp_connect_def try_to_connect_result)
  next
    case (Some p)
    then show ?thesis using mp_established [OF assms, of "client_connection la ra p"]
      by (auto simp: mp_connect_def try_to_connect_result)
  qed
qed

section \<open>The receiving loop\<close>

text \<open>Every message of a run of the loop is legal when it is handled.\<close>

definition report_error :: "mp_env \<Rightarrow> bool \<Rightarrow> u64 \<Rightarrow> (data_path_error + unit) \<times> 'b processor \<Rightarrow> 'b processor" where
  "report_error env is_local c p = (case p of
      (Inl e, st) \<Rightarrow> if is_local then send_error_to_local_app env st c e else st | (Inr _, st) \<Rightarrow> st)"

fun stream_legal :: "'b bitvec_ops \<Rightarrow> mp_env \<Rightarrow> 'b processor \<Rightarrow> u64 \<Rightarrow> bool \<Rightarrow> stream_event list \<Rightarrow> bool" where
  "stream_legal BV env st c is_local (Stream_Msg m # es) \<longleftrightarrow> msg_legal env st c m \<and>
     (case handle_new_message BV env st c m of None \<Rightarrow> True
      | Some p \<Rightarrow> stream_legal BV env (report_error env is_local c p) c is_local es)"
| "stream_legal BV env st c is_local es \<longleftrightarrow> True"

fun is_message :: "stream_event \<Rightarrow> bool" where
  "is_message (Stream_Msg m) = True"
| "is_message e = False"

text \<open>The event that ends the loop, and whether it is one after which the task tries to reconnect.\<close>

definition end_event :: "stream_event list \<Rightarrow> stream_event option" where
  "end_event es = find (\<lambda>e. \<not> is_message e) es"

fun is_lost :: "stream_event \<Rightarrow> bool" where
  "is_lost Stream_Error = True"
| "is_lost Stream_End = True"
| "is_lost e = False"

lemma report_error_frame:
  "\<exists>log. report_error env is_local c (r, st) = st\<lparr>mp_sent := log\<rparr>"
  by (cases r) (auto simp: report_error_def send_error_to_local_app_def chan_send_def
      intro: exI [of _ "mp_sent st"] split: option.splits channel.splits)

lemma stream_loop_spec:
  assumes bv: "bit_vec BV" and rng: "rng_in_range (env_rng_local env)" "rng_in_range (env_rng_remote env)"
  shows "mp_inv BV st \<Longrightarrow> stream_legal BV env st c is_local es \<Longrightarrow>
    \<exists>r st'. stream_loop BV env st c is_local es = Some (r, st') \<and> mp_inv BV st' \<and>
      get_connection (mp_forwarder st') = get_connection (mp_forwarder st) \<and>
      r = map_option is_lost (end_event es)"
proof (induction es arbitrary: st)
  case (Cons e es)
  show ?case
  proof (cases e)
    case (Stream_Msg m)
    obtain r st1 where h: "handle_new_message BV env st c m = Some (r, st1)" "mp_inv BV st1"
        "get_connection (mp_forwarder st1) = get_connection (mp_forwarder st)"
      using handle_new_message_spec [OF bv Cons.prems(1) rng, of c m] Cons.prems(2) Stream_Msg by auto
    let ?st = "report_error env is_local c (r, st1)"
    obtain log where log: "?st = st1\<lparr>mp_sent := log\<rparr>" using report_error_frame by blast
    have "stream_loop BV env st c is_local (e # es) = stream_loop BV env ?st c is_local es"
      using h(1) by (cases r) (simp_all add: Stream_Msg report_error_def)
    moreover have "stream_legal BV env ?st c is_local es" using Cons.prems(2) h(1) by (simp add: Stream_Msg)
    ultimately show ?thesis using Cons.IH [of ?st] h(2,3) log Stream_Msg by (simp add: end_event_def)
  qed (use Cons.prems in \<open>auto simp: end_event_def\<close>)
qed (simp add: end_event_def)

lemma mp_drop_spec:
  assumes bv: "bit_vec BV" and inv: "mp_inv BV st" and conn: "get_connection (mp_forwarder st) c = Some conn"
  shows "\<exists>fw. on_connection_drop BV (mp_forwarder st) c (is_local_connection conn) = Some fw \<and>
    mp_inv BV (st\<lparr>mp_forwarder := fw\<rparr>) \<and> get_connection fw = (get_connection (mp_forwarder st))(c := None) \<and>
    (\<forall>t i c' l. st_subs (fw_subscription_table fw) t i c' l \<longleftrightarrow> st_subs (fw_subscription_table (mp_forwarder st)) t i c' l \<and> c' \<noteq> c) \<and>
    (\<forall>c' info. remote_has (fw_remote_subscription_table fw) c' info \<longleftrightarrow> c' \<noteq> c \<and> remote_has (fw_remote_subscription_table (mp_forwarder st)) c' info)"
proof -
  obtain fw where fw: "on_connection_drop BV (mp_forwarder st) c (is_local_connection conn) = Some fw"
      "fw_inv BV is_local_connection fw" "get_connection fw = (get_connection (mp_forwarder st))(c := None)"
      "\<forall>t i c' l. st_subs (fw_subscription_table fw) t i c' l \<longleftrightarrow> st_subs (fw_subscription_table (mp_forwarder st)) t i c' l \<and> c' \<noteq> c"
      "\<forall>c' info. remote_has (fw_remote_subscription_table fw) c' info \<longleftrightarrow> c' \<noteq> c \<and> remote_has (fw_remote_subscription_table (mp_forwarder st)) c' info"
    using bit_vec.fw_drop_spec [OF bv mp_inv_fw [OF inv] conn] by blast
  have "fw_remote_subscription_table fw = remote_remove_connection c (fw_remote_subscription_table (mp_forwarder st))"
    using fw(1) by (auto simp: on_connection_drop_def bind_eq_Some_conv)
  then have "mp_inv BV (st\<lparr>mp_forwarder := fw\<rparr>)"
    using inv fw(2) by (auto simp: mp_inv_def dest: remote_names_drop)
  then show ?thesis using fw by auto
qed

lemma reconnect_or_not:
  assumes bv: "bit_vec BV" and inv: "mp_inv BV st" and conn: "get_connection (mp_forwarder st) c = Some conn"
    and client: "client_config \<noteq> None \<longrightarrow> \<not> is_local_connection conn"
  shows "\<exists>b st'. (if again \<and> client_config \<noteq> None then mp_reconnect BV env st client_config c race else Some (False, st)) =
      Some (b, st') \<and> mp_inv BV st' \<and> (b \<longleftrightarrow> again \<and> reconnects client_config race) \<and> (\<not> b \<longrightarrow> st' = st) \<and>
      (\<forall>c'. c' \<noteq> c \<longrightarrow> get_connection (mp_forwarder st') c' = get_connection (mp_forwarder st) c') \<and>
      fw_subscription_table (mp_forwarder st') = fw_subscription_table (mp_forwarder st) \<and>
      fw_remote_subscription_table (mp_forwarder st') = fw_remote_subscription_table (mp_forwarder st) \<and>
      (b \<longrightarrow> (\<exists>conn. get_connection (mp_forwarder st') c = Some conn \<and> \<not> is_local_connection conn))"
proof (cases "again \<and> client_config \<noteq> None")
  case True
  then obtain conf where conf: "client_config = Some conf" by auto
  obtain b st' where "mp_reconnect BV env st (Some conf) c race = Some (b, st')" "mp_inv BV st'"
      "fw_subscription_table (mp_forwarder st') = fw_subscription_table (mp_forwarder st)"
      "fw_remote_subscription_table (mp_forwarder st') = fw_remote_subscription_table (mp_forwarder st)"
      "\<forall>c'. c' \<noteq> c \<longrightarrow> get_connection (mp_forwarder st') c' = get_connection (mp_forwarder st) c'"
      "\<exists>conn. get_connection (mp_forwarder st') c = Some conn \<and> \<not> is_local_connection conn"
      "b \<longleftrightarrow> reconnects (Some conf) race" "\<not> b \<longrightarrow> st' = st"
    using mp_reconnect_spec [OF bv inv conn, of env conf race] client conf by blast
  then show ?thesis using True conf by (intro exI [of _ b] exI [of _ st']) simp
next
  case False
  then show ?thesis using inv by (auto simp: reconnects_def)
qed

text \<open>
  What is left of a connection when its task is done: after a reconnection it is a remote
  connection and the tables are as the loop left them; otherwise it is gone, and so is what the
  tables held about it, and nothing else.
\<close>

definition stream_left :: "u64 \<Rightarrow> bool \<Rightarrow> 'b processor \<Rightarrow> 'b processor \<Rightarrow> bool" where
  "stream_left c again st st' \<longleftrightarrow>
     (let old = mp_forwarder st; new = mp_forwarder st'
      in if again
         then (\<exists>conn. get_connection new c = Some conn \<and> \<not> is_local_connection conn) \<and>
           fw_subscription_table new = fw_subscription_table old \<and>
           fw_remote_subscription_table new = fw_remote_subscription_table old
         else get_connection new c = None \<and>
           (\<forall>t i c' l. st_subs (fw_subscription_table new) t i c' l \<longleftrightarrow> st_subs (fw_subscription_table old) t i c' l \<and> c' \<noteq> c) \<and>
           (\<forall>c' info. remote_has (fw_remote_subscription_table new) c' info \<longleftrightarrow>
              c' \<noteq> c \<and> remote_has (fw_remote_subscription_table old) c' info))"

lemma process_stream_spec:
  assumes bv: "bit_vec BV" and rng: "rng_in_range (env_rng_local env)" "rng_in_range (env_rng_remote env)"
    and inv: "mp_inv BV st" and conn: "get_connection (mp_forwarder st) c = Some conn"
    and client: "client_config \<noteq> None \<longrightarrow> \<not> is_local_connection conn"
    and legal: "stream_legal BV env st c (is_local_connection conn) es"
  shows "\<exists>r st1 st'. stream_loop BV env st c (is_local_connection conn) es = Some (r, st1) \<and>
    process_stream BV env st c client_config (is_local_connection conn) es race = Some st' \<and> mp_inv BV st' \<and>
    (\<forall>c'. c' \<noteq> c \<longrightarrow> get_connection (mp_forwarder st') c' = get_connection (mp_forwarder st) c') \<and>
    (case end_event es of
       None \<Rightarrow> st' = st1 \<and> get_connection (mp_forwarder st') c = Some conn
     | Some e \<Rightarrow> stream_left c (is_lost e \<and> reconnects client_config race) st1 st')"
proof -
  obtain r st1 where r: "stream_loop BV env st c (is_local_connection conn) es = Some (r, st1)" "mp_inv BV st1"
      "get_connection (mp_forwarder st1) = get_connection (mp_forwarder st)" "r = map_option is_lost (end_event es)"
    using stream_loop_spec [OF bv rng inv legal] by blast
  show ?thesis
  proof (cases "end_event es")
    case None
    then show ?thesis using r conn by (intro exI [of _ r] exI [of _ st1]) (simp add: process_stream_def)
  next
    case (Some e)
    have c1: "get_connection (mp_forwarder st1) c = Some conn" using r(3) conn by simp
    obtain b st2 where st2: "(if is_lost e \<and> client_config \<noteq> None then mp_reconnect BV env st1 client_config c race else Some (False, st1)) =
        Some (b, st2)" "mp_inv BV st2" "b \<longleftrightarrow> is_lost e \<and> reconnects client_config race" "\<not> b \<longrightarrow> st2 = st1"
        "\<forall>c'. c' \<noteq> c \<longrightarrow> get_connection (mp_forwarder st2) c' = get_connection (mp_forwarder st1) c'"
        "fw_subscription_table (mp_forwarder st2) = fw_subscription_table (mp_forwarder st1)"
        "fw_remote_subscription_table (mp_forwarder st2) = fw_remote_subscription_table (mp_forwarder st1)"
        "b \<longrightarrow> (\<exists>conn. get_connection (mp_forwarder st2) c = Some conn \<and> \<not> is_local_connection conn)"
      using reconnect_or_not [OF bv r(2) c1 client, of "is_lost e" env race] by blast
    have eq: "process_stream BV env st c client_config (is_local_connection conn) es race = (if \<not> b
        then map_option (\<lambda>fw. st2\<lparr>mp_forwarder := fw\<rparr>) (on_connection_drop BV (mp_forwarder st2) c (is_local_connection conn)) else Some st2)"
      using r(1,4) Some st2(1) by (simp add: process_stream_def map_option_case split: option.split)
    show ?thesis
    proof (cases b)
      case True
      then show ?thesis using eq st2 r(1,3) Some
        by (intro exI [of _ r] exI [of _ st1] exI [of _ st2]) (simp add: stream_left_def)
    next
      case False
      obtain fw where "on_connection_drop BV (mp_forwarder st1) c (is_local_connection conn) = Some fw"
          "mp_inv BV (st1\<lparr>mp_forwarder := fw\<rparr>)" "get_connection fw = (get_connection (mp_forwarder st1))(c := None)"
          "\<forall>t i c' l. st_subs (fw_subscription_table fw) t i c' l \<longleftrightarrow> st_subs (fw_subscription_table (mp_forwarder st1)) t i c' l \<and> c' \<noteq> c"
          "\<forall>c' info. remote_has (fw_remote_subscription_table fw) c' info \<longleftrightarrow>
             c' \<noteq> c \<and> remote_has (fw_remote_subscription_table (mp_forwarder st1)) c' info"
        using mp_drop_spec [OF bv r(2), of c conn] r(3) conn by auto
      then show ?thesis using eq st2(3,4) r(1,3) Some False
        by (intro exI [of _ r] exI [of _ st1] exI [of _ "st1\<lparr>mp_forwarder := fw\<rparr>"]) (simp add: stream_left_def)
    qed
  qed
qed

section \<open>Properties of message processing\<close>

text \<open>
  C4: a valid publication is sent to the connection its header names, if it names one. Otherwise it
  is sent, in the order of the matching result, to distinct live connections, never back to the one
  it came from: with a fan-out other than one to exactly the local connections with an agent of its
  destination, or the remote ones if there is no local one; with a fan-out of one to at most one
  connection, with an agent of the destination or, if the requested agent is subscribed nowhere, the
  only other connection of the type on its side, and to one of the preferred side whenever there is
  one, if the sender is not subscribed for that agent itself or, without an agent id, the pools list
  all connections. The copies carry the same payload and session header, the number of the incoming
  connection, and cleared routing fields. The loop stops at the first connection that cannot be sent
  to, and the result is a success exactly when there was a target and all were sent to. The tables
  do not change and nothing panics, given that the source has an identifier when spans are recorded.
\<close>

theorem publication_delivered:
  assumes "fw_inv BV is_local_connection (mp_forwarder st)"
    and "rng_in_range (env_rng_local env)" "rng_in_range (env_rng_remote env)"
    and "message_validate m = Ok ()" "is_publish m = Some True"
    and "env_span_enabled env \<longrightarrow> msg_get_source m \<noteq> None"
    and "get_slim_header m = Some h" "slim_header_get_dst h = Some (t, i)"
  shows "\<exists>r out m'. handle_new_message BV env st c m = Some (r, st\<lparr>mp_sent := mp_sent st @
        map (\<lambda>o'. (the (conn_chan (mp_forwarder st) o'), Item m')) (takeWhile (can_send env (mp_forwarder st)) out)\<rparr>) \<and>
      delivered_copy c m m' \<and> publish_to (mp_forwarder st) c h t i out \<and>
      (r = Inr () \<longleftrightarrow> out \<noteq> [] \<and> (\<forall>o'\<in>set out. can_send env (mp_forwarder st) o'))"
  using assms by (rule publication_spec)

definition demo_env :: mp_env where
  "demo_env = \<lparr>env_hash = (\<lambda>_. 9), env_rng_local = (\<lambda>_. 0), env_rng_remote = (\<lambda>_. 0), env_span_enabled = True,
     env_inject = id, env_chan_open = (\<lambda>_. True)\<rparr>"

definition demo_publish :: message where
  "demo_publish = new_publish sample_source (agent_type_from_strings (\<lambda>_. 9) ''o'' ''n'' ''t'') (Some 8) None ''text'' [1, 2]"

lemma mp_inv_new: "bit_vec BV \<Longrightarrow> mp_inv BV (processor_new BV)"
  using bit_vec.fw_inv_new [of BV is_local_connection]
  by (simp add: mp_inv_def processor_new_def) (simp add: forwarder_new_def get_subscriptions_on_connection_def)

definition demo_subscribe :: message where
  "demo_subscribe = the (new_subscribe sample_source (agent_type_from_strings (\<lambda>_. 9) ''o'' ''n'' ''t'') (Some 8) None)"

text \<open>Two local applications, the second of them subscribed.\<close>

definition demo_run :: "(bool list processor) option" where
  "demo_run = do {
     (a, st) \<leftarrow> register_local_connection list_bitvec (processor_new list_bitvec) 10 20;
     (b, st) \<leftarrow> register_local_connection list_bitvec st 11 21;
     (_, st) \<leftarrow> handle_new_message list_bitvec demo_env st b demo_subscribe;
     Some st
   }"

definition demo_state :: "bool list processor" where
  "demo_state = the demo_run"

lemma demo_run_state: "demo_run = Some demo_state"
proof -
  have "demo_run \<noteq> None" by code_simp
  then show ?thesis by (auto simp: demo_state_def)
qed

lemma demo_rng: "rng_in_range (env_rng_local demo_env)" "rng_in_range (env_rng_remote demo_env)"
  by (simp_all add: demo_env_def rng_in_range_def)

lemma demo_state_inv: "mp_inv list_bitvec demo_state"
proof -
  note bv = list_bv.bit_vec_axioms
  obtain a st1 where st1: "register_local_connection list_bitvec (processor_new list_bitvec) 10 20 = Some (a, st1)" "mp_inv list_bitvec st1"
    using mp_establish_spec(1) [OF bv mp_inv_new [OF bv], of 10 20] by auto
  obtain b st2 where st2: "register_local_connection list_bitvec st1 11 21 = Some (b, st2)" "mp_inv list_bitvec st2"
    using mp_establish_spec(1) [OF bv st1(2), of 11 21] by auto
  have "sender_known demo_subscribe \<and> is_unsubscribe demo_subscribe = Some False" by code_simp
  then have "msg_legal demo_env st2 b demo_subscribe" by (simp add: msg_legal_def)
  then show ?thesis
    using handle_new_message_spec [OF bv st2(2) demo_rng, of b demo_subscribe] demo_run_state st1(1) st2(1)
    by (auto simp: demo_run_def)
qed

definition demo_fixed :: message where
  "demo_fixed = new_publish sample_source (agent_type_from_strings (\<lambda>_. 9) ''o'' ''n'' ''t'') (Some 8)
     (Some (with_forward_to flags_default 0)) ''text'' [1, 2]"

text \<open>One publication is matched to the subscriber, the other has a fixed target.\<close>

theorem publication_delivered_witness:
  "(\<exists>r st out m'. handle_new_message list_bitvec demo_env demo_state 0 demo_publish = Some (r, st) \<and>
      map fst (mp_sent st) = [11] \<and> delivered_copy 0 demo_publish m' \<and>
      publish_targets (fw_subscription_table (mp_forwarder demo_state))
        (fst (the (slim_header_get_dst (the (get_slim_header demo_publish))))) (Some 8) 0 1 out) \<and>
   (\<exists>r st m'. handle_new_message list_bitvec demo_env demo_state 0 demo_fixed = Some (r, st) \<and>
      mp_sent st = [(10, Item m')] \<and> delivered_copy 0 demo_fixed m')"
proof -
  let ?h = "\<lambda>m. the (get_slim_header m)" and ?d = "\<lambda>m. the (slim_header_get_dst (the (get_slim_header m)))"
  have hyps: "message_validate demo_publish = Ok ()" "is_publish demo_publish = Some True"
      "env_span_enabled demo_env \<longrightarrow> msg_get_source demo_publish \<noteq> None"
      "get_slim_header demo_publish = Some (?h demo_publish)"
      "slim_header_get_dst (?h demo_publish) = Some (fst (?d demo_publish), Some 8)"
    and fixed: "message_validate demo_fixed = Ok ()" "is_publish demo_fixed = Some True"
      "env_span_enabled demo_env \<longrightarrow> msg_get_source demo_fixed \<noteq> None"
      "get_slim_header demo_fixed = Some (?h demo_fixed)" "slim_header_get_dst (?h demo_fixed) = Some (fst (?d demo_fixed), snd (?d demo_fixed))"
    by code_simp+
  have fan: "sh_forward_to (?h demo_publish) = None" "sh_fanout (?h demo_publish) = 1" "sh_forward_to (?h demo_fixed) = Some 0"
      "conn_chan (mp_forwarder demo_state) 0 = Some 10" "mp_sent demo_state = []" "can_send demo_env (mp_forwarder demo_state) 0"
    by code_simp+
  have "map_option (\<lambda>(r, st). map fst (mp_sent st)) (handle_new_message list_bitvec demo_env demo_state 0 demo_publish) = Some [11]"
    by code_simp
  then have "\<exists>r st out m'. handle_new_message list_bitvec demo_env demo_state 0 demo_publish = Some (r, st) \<and>
      map fst (mp_sent st) = [11] \<and> delivered_copy 0 demo_publish m' \<and>
      publish_targets (fw_subscription_table (mp_forwarder demo_state)) (fst (?d demo_publish)) (Some 8) 0 1 out"
    using publication_delivered [OF mp_inv_fw [OF demo_state_inv] demo_rng hyps, of 0] fan(1,2) by (auto simp: publish_to_def)
  moreover have "\<exists>r st m'. handle_new_message list_bitvec demo_env demo_state 0 demo_fixed = Some (r, st) \<and>
      mp_sent st = [(10, Item m')] \<and> delivered_copy 0 demo_fixed m'"
    using publication_delivered [OF mp_inv_fw [OF demo_state_inv] demo_rng fixed, of 0] fan(3-6) by (auto simp: publish_to_def)
  ultimately show ?thesis by blast
qed

text \<open>
  C6: handling a message never panics; it keeps the tables consistent and every remembered
  subscription resendable, and it neither adds nor removes a connection. A message that
  \<open>validate\<close> rejects changes nothing and is answered with an error, whatever it holds. Of a message
  that passes the check it is assumed that its source has an identifier and that an unsubscription
  names an existing subscription, an agent that is not subscribed, or a connection without an agent
  of the type.
\<close>

theorem handle_message_keeps_consistency:
  assumes "bit_vec BV" and "mp_inv BV st"
    and "rng_in_range (env_rng_local env)" "rng_in_range (env_rng_remote env)"
    and "message_validate m = Ok () \<longrightarrow> msg_legal env st c m"
  shows "\<exists>r st'. handle_new_message BV env st c m = Some (r, st') \<and> mp_inv BV st' \<and>
    get_connection (mp_forwarder st') = get_connection (mp_forwarder st) \<and>
    (message_validate m \<noteq> Ok () \<longrightarrow> st' = st \<and> r \<noteq> Inr ())"
proof (cases "message_validate m = Ok ()")
  case True
  then show ?thesis using handle_new_message_spec [OF assms(1-4)] assms(5) by auto
next
  case False
  then show ?thesis using validate_complete [of m] assms(2)
    by (auto simp: handle_new_message_def split: sum.splits)
qed

definition demo_invalid :: message where
  "demo_invalid = new_publish_with_headers None None ''text'' []"

theorem handle_message_keeps_consistency_witness:
  "(\<exists>r st. handle_new_message list_bitvec demo_env demo_state 1 demo_subscribe = Some (r, st) \<and> mp_inv list_bitvec st) \<and>
   (\<exists>r. handle_new_message list_bitvec demo_env demo_state 1 demo_invalid = Some (r, demo_state) \<and> r \<noteq> Inr ())"
proof -
  have "sender_known demo_subscribe \<and> is_unsubscribe demo_subscribe = Some False" by code_simp
  then have "msg_legal demo_env demo_state 1 demo_subscribe" by (simp add: msg_legal_def)
  moreover have "message_validate demo_invalid \<noteq> Ok ()" by code_simp
  ultimately show ?thesis
    using handle_message_keeps_consistency [OF list_bv.bit_vec_axioms demo_state_inv demo_rng, of demo_subscribe 1]
      handle_message_keeps_consistency [OF list_bv.bit_vec_axioms demo_state_inv demo_rng, of demo_invalid 1] by auto
qed

text \<open>
  C7: a task that loses its connection and reconnects never panics. It reconnects exactly when the
  client configuration gives a channel, connecting wins the race and one of the 120 attempts
  succeeds. Then the connection keeps its number, the first successful stream replaces the old one,
  and every subscription remembered for the connection is sent on it again, once and in order, if
  its channel is open. All tables and the other connections stay as they are, and a failed
  reconnection changes nothing.
\<close>

theorem reconnect_restores_subscriptions:
  assumes "bit_vec BV" and "mp_inv BV st"
    and "get_connection (mp_forwarder st) c = Some old" "\<not> is_local_connection old"
  shows "\<exists>b st'. mp_reconnect BV env st (Some conf) c race = Some (b, st') \<and> mp_inv BV st' \<and>
    fw_subscription_table (mp_forwarder st') = fw_subscription_table (mp_forwarder st) \<and>
    fw_remote_subscription_table (mp_forwarder st') = fw_remote_subscription_table (mp_forwarder st) \<and>
    (\<forall>c'. c' \<noteq> c \<longrightarrow> get_connection (mp_forwarder st') c' = get_connection (mp_forwarder st) c') \<and>
    (\<exists>conn. get_connection (mp_forwarder st') c = Some conn \<and> \<not> is_local_connection conn) \<and>
    (b \<longleftrightarrow> reconnects (Some conf) race) \<and> (\<not> b \<longrightarrow> st' = st) \<and>
    (\<forall>attempts p. conf \<longrightarrow> race = Connect_First attempts \<longrightarrow> first_attempt attempts 0 120 = Some p \<longrightarrow>
       env_chan_open env (fst p) \<longrightarrow>
       b \<and> get_connection (mp_forwarder st') c = Some (client_connection None None p) \<and>
       mp_sent st' = mp_sent st @ map (\<lambda>r. (fst p, Item (resubscription env r)))
         (get_subscriptions_forwarded_on_connection (mp_forwarder st) c))"
  using assms by (rule mp_reconnect_spec)

definition demo_remote :: "bool list processor" where
  "demo_remote = snd (the (mp_open_channel list_bitvec demo_state None None 12))"

lemma demo_remote_inv: "mp_inv list_bitvec demo_remote"
proof -
  obtain x st where "mp_open_channel list_bitvec demo_state None None 12 = Some (x, st)" "mp_inv list_bitvec st"
    using mp_establish_spec(2) [OF list_bv.bit_vec_axioms demo_state_inv, of None None 12] by auto
  then show ?thesis by (simp add: demo_remote_def)
qed

theorem reconnect_restores_subscriptions_witness:
  "\<exists>st. mp_reconnect list_bitvec demo_env demo_remote (Some True) 2
       (Connect_First (\<lambda>k. if k = 1 then Some (30, 31) else None)) = Some (True, st) \<and>
     get_connection (mp_forwarder st) 2 = Some (client_connection None None (30, 31))"
proof -
  let ?a = "\<lambda>k. if k = (1::nat) then Some (30::nat, 31::nat) else None"
  note inv = demo_remote_inv
  let ?old = "the (get_connection (mp_forwarder demo_remote) 2)"
  have old: "get_connection (mp_forwarder demo_remote) 2 = Some ?old" "\<not> is_local_connection ?old" by code_simp+
  have "first_attempt ?a 0 120 = Some (30, 31)" by (rule first_attempt_at [of 1]) auto
  then show ?thesis
    using reconnect_restores_subscriptions [OF list_bv.bit_vec_axioms inv old, of demo_env True "Connect_First ?a"]
    by (auto simp: demo_env_def)
qed

text \<open>
  C8: running the task of a connection on legal messages never panics and keeps the tables
  consistent and every other connection as it is. While the stream goes on, the connection stays.
  Once it has ended, the task reconnects exactly when the stream broke or was closed by the peer, the
  client configuration gives a channel, connecting wins the race and one of the 120 attempts
  succeeds; then the connection is there as a remote one and the tables are as the messages left
  them. After every other end the connection is gone: it is not in the table, no subscription is on
  it and none is remembered for it, and all the other subscriptions are as the messages left them.
  A message is legal if its source has an identifier and, for an unsubscription, if it names an
  existing subscription, an agent that is not subscribed, or a connection without an agent of the
  type. A client configuration comes with a remote connection only.
\<close>

theorem ended_stream_leaves_no_trace:
  assumes "bit_vec BV" and "rng_in_range (env_rng_local env)" "rng_in_range (env_rng_remote env)"
    and "mp_inv BV st" and "get_connection (mp_forwarder st) c = Some conn"
    and "client_config \<noteq> None \<longrightarrow> \<not> is_local_connection conn"
    and "stream_legal BV env st c (is_local_connection conn) es"
  shows "\<exists>r st1 st'. stream_loop BV env st c (is_local_connection conn) es = Some (r, st1) \<and>
    process_stream BV env st c client_config (is_local_connection conn) es race = Some st' \<and> mp_inv BV st' \<and>
    (\<forall>c'. c' \<noteq> c \<longrightarrow> get_connection (mp_forwarder st') c' = get_connection (mp_forwarder st) c') \<and>
    (case end_event es of
       None \<Rightarrow> st' = st1 \<and> get_connection (mp_forwarder st') c = Some conn
     | Some e \<Rightarrow> stream_left c (is_lost e \<and> reconnects client_config race) st1 st')"
  using assms by (rule process_stream_spec)

text \<open>A local application that subscribes and leaves, and a remote peer that is not reached again.\<close>

theorem ended_stream_leaves_no_trace_witness:
  "(\<exists>r st1 st. stream_loop list_bitvec demo_env demo_state 1 True [Stream_Msg demo_subscribe, Stream_End] = Some (r, st1) \<and>
      process_stream list_bitvec demo_env demo_state 1 None True [Stream_Msg demo_subscribe, Stream_End] Drained_First = Some st \<and>
      stream_left 1 False st1 st) \<and>
   (\<exists>st1 st. process_stream list_bitvec demo_env demo_remote 2 (Some True) False [Stream_Error] (Connect_First (\<lambda>_. None)) = Some st \<and>
      stream_left 2 False st1 st)"
proof -
  let ?es = "[Stream_Msg demo_subscribe, Stream_End]" and ?race = "Connect_First (\<lambda>_. None)"
  let ?c = "the (get_connection (mp_forwarder demo_state) 1)" and ?p = "the (get_connection (mp_forwarder demo_remote) 2)"
  note run = ended_stream_leaves_no_trace [OF list_bv.bit_vec_axioms demo_rng]
  have c: "get_connection (mp_forwarder demo_state) 1 = Some ?c" "is_local_connection ?c"
    and p: "get_connection (mp_forwarder demo_remote) 2 = Some ?p" "\<not> is_local_connection ?p" by code_simp+
  have "sender_known demo_subscribe \<and> is_unsubscribe demo_subscribe = Some False" by code_simp
  then have legal: "stream_legal list_bitvec demo_env demo_state 1 True ?es"
    by (simp add: msg_legal_def split: option.split)
  have "\<not> reconnects (Some True) ?race" by (simp add: reconnects_def first_attempt_none)
  then show ?thesis
    using run [OF demo_state_inv c(1), of None ?es Drained_First] run [OF demo_remote_inv p(1), of "Some True" "[Stream_Error]" ?race]
      c(2) p(2) legal by (auto simp: end_event_def reconnects_def)
qed

text \<open>
  C24: with spans recorded, a message whose source has no identifier makes the task of its
  connection panic, although \<open>validate\<close> accepts it.
\<close>

theorem anonymous_source_panics:
  assumes "message_validate m = Ok ()" and "env_span_enabled env" and "msg_get_source m = None"
  shows "handle_new_message BV env st c m = None"
proof -
  obtain h t i where h: "get_slim_header m = Some h" using validated_header [OF assms(1)] .
  obtain m1 where m1: "msg_set_incoming_conn (Some c) m = Some m1"
    using slim_ref.wr_defined [OF h, of "slim_header_set_incoming_conn (Some c)"] by (auto simp: msg_set_incoming_conn_def)
  have "create_span env m1 = create_span env m"
    using create_span_mut [OF m1 [unfolded msg_set_incoming_conn_def]] by (simp add: slim_header_set_incoming_conn_def)
  also have "\<dots> = None" using create_span_valid [OF assms(1), of env] assms(2,3) by (cases "create_span env m") auto
  finally show ?thesis using assms(1) m1 by (simp add: handle_new_message_def)
qed

definition demo_anonymous :: message where
  "demo_anonymous = new_publish (agent_new sample_type DEFAULT_AGENT_ID) sample_type None None ''text'' []"

theorem anonymous_source_panics_witness:
  "handle_new_message list_bitvec demo_env demo_state 0 demo_anonymous = None"
proof -
  have "message_validate demo_anonymous = Ok ()" "env_span_enabled demo_env" "msg_get_source demo_anonymous = None"
    by code_simp+
  then show ?thesis by (rule anonymous_source_panics)
qed

end
