(* ===== verification/Receiver_Buffer.thy ===== *)
theory Receiver_Buffer
  imports Messages
begin

text \<open>
  The receiver buffer of \<^verbatim>\<open>service/src/receiver_buffer.rs\<close>, which puts the messages of a
  stream back in order, reports the gaps that need a retransmission, and skips the messages that
  are declared lost. Counters are \<open>usize\<close> and wrap as in a release build; this matters for
  \<open>last_sent\<close> only, whose initial value is the largest \<open>usize\<close>.
\<close>

record receiver_buffer =
  rb_last_sent :: usize
  rb_first_entry :: usize
  rb_lost_msgs :: "usize hset"
  rb_buffer :: "message option list"

definition receiver_buffer_default :: receiver_buffer where
  "receiver_buffer_default =
     \<lparr>rb_last_sent = usize_max, rb_first_entry = 0, rb_lost_msgs = [], rb_buffer = []\<rparr>"

text \<open>The first loop of \<open>release_msgs\<close>: it takes the messages at the front of the buffer.\<close>

function release_loop ::
    "nat \<Rightarrow> receiver_buffer \<Rightarrow> message option list \<Rightarrow> receiver_buffer \<times> message option list" where
  "release_loop i rb ret =
     (if i < length (rb_buffer rb)
      then (case rb_buffer rb ! i of
          Some m \<Rightarrow>
            release_loop (i + 1)
              (rb\<lparr>rb_buffer := (rb_buffer rb)[i := None], rb_last_sent := usize_add (rb_last_sent rb) 1,
                 rb_first_entry := rb_first_entry rb + 1\<rparr>)
              (ret @ [Some m])
        | None \<Rightarrow>
            if hs_contains (=) (usize_add (rb_last_sent rb) 1) (rb_lost_msgs rb)
            then release_loop (i + 1)
              (rb\<lparr>rb_lost_msgs := hs_remove (=) (usize_add (rb_last_sent rb) 1) (rb_lost_msgs rb),
                 rb_last_sent := usize_add (rb_last_sent rb) 1, rb_first_entry := rb_first_entry rb + 1\<rparr>)
              (ret @ [None])
            else (rb, ret))
      else (rb, ret))"
  by pat_completeness auto
termination
  by (relation "measure (\<lambda>(i, rb, ret). length (rb_buffer rb) - i)") auto

lemma hs_remove_shrinks: "hs_contains (=) x s \<Longrightarrow> length (hs_remove (=) x s) < length s"
  by (auto simp: hs_contains_iff hs_remove_def intro: length_filter_less)

text \<open>The second loop: lost messages that follow.\<close>

function lost_loop :: "receiver_buffer \<Rightarrow> message option list \<Rightarrow> receiver_buffer \<times> message option list" where
  "lost_loop rb ret =
     (if hs_contains (=) (usize_add (rb_last_sent rb) 1) (rb_lost_msgs rb)
      then lost_loop
        (rb\<lparr>rb_last_sent := usize_add (rb_last_sent rb) 1,
           rb_lost_msgs := hs_remove (=) (usize_add (rb_last_sent rb) 1) (rb_lost_msgs rb)\<rparr>)
        (ret @ [None])
      else (rb, ret))"
  by pat_completeness auto
termination
  by (relation "measure (\<lambda>(rb, ret). length (rb_lost_msgs rb))") (auto intro: hs_remove_shrinks)

declare release_loop.simps [simp del] lost_loop.simps [simp del]

definition release_msgs :: "receiver_buffer \<Rightarrow> message option list \<times> receiver_buffer" where
  "release_msgs rb =
     (let (rb, ret) = release_loop (rb_first_entry rb) rb [];
          rb = (if rb_first_entry rb = length (rb_buffer rb)
                then rb\<lparr>rb_first_entry := 0, rb_buffer := []\<rparr> else rb);
          (rb, ret) = lost_loop rb ret
      in (ret, rb))"

definition internal_on_received_message ::
    "receiver_buffer \<Rightarrow> usize \<Rightarrow> message option \<Rightarrow>
     ((message option list \<times> u32 list) \<times> receiver_buffer) option" where
  "internal_on_received_message rb msg_id msg =
     (let last_sent = rb_last_sent rb; first_entry = rb_first_entry rb; buffer = rb_buffer rb
      in if last_sent = usize_max \<or> (msg_id = last_sent + 1 \<and> buffer = [])
         then (case msg of
             Some m \<Rightarrow> Some (([Some m], []), rb\<lparr>rb_last_sent := msg_id\<rparr>)
           | None \<Rightarrow> Some (([], [of_nat msg_id]), rb))
         else if msg_id \<le> last_sent then Some (([], []), rb)
         else if buffer = []
         then (let rb = rb\<lparr>rb_first_entry := 0\<rparr>
               in case msg of
                 Some m \<Rightarrow>
                   Some (([], map of_nat [last_sent + 1..<msg_id]),
                     rb\<lparr>rb_buffer := replicate (msg_id - (last_sent + 1)) None @ [Some m]\<rparr>)
               | None \<Rightarrow>
                   Some (([], map of_nat [last_sent + 1..<msg_id + 1]),
                     rb\<lparr>rb_buffer := replicate (msg_id - (last_sent + 1) + 1) None\<rparr>))
         else if msg_id \<le> last_sent + (length buffer - first_entry)
         then (if msg = None then Some (([], []), rb)
               else (let pos = msg_id - (last_sent + 1) + first_entry
                     in if length buffer \<le> pos then None
                        else if buffer ! pos \<noteq> None then Some (([], []), rb)
                        else (let (ret, rb) = release_msgs (rb\<lparr>rb_buffer := buffer[pos := msg]\<rparr>)
                              in Some ((ret, []), rb))))
         else (let missing = [last_sent + 1 + (length buffer - first_entry)..<msg_id];
                   buffer = buffer @ replicate (length missing) None;
                   rtx = map of_nat missing
               in case msg of
                 Some m \<Rightarrow> Some (([], rtx), rb\<lparr>rb_buffer := buffer @ [Some m]\<rparr>)
               | None \<Rightarrow> Some (([], rtx @ [of_nat msg_id]), rb\<lparr>rb_buffer := buffer\<rparr>)))"

definition on_received_message ::
    "receiver_buffer \<Rightarrow> message \<Rightarrow> ((message option list \<times> u32 list) \<times> receiver_buffer) option" where
  "on_received_message rb msg = do {
     i \<leftarrow> msg_get_id msg;
     internal_on_received_message rb (unat i) (Some msg)
   }"

definition on_lost_message :: "receiver_buffer \<Rightarrow> u32 \<Rightarrow> message option list \<times> receiver_buffer" where
  "on_lost_message rb msg_id =
     release_msgs (rb\<lparr>rb_lost_msgs := hs_insert (=) (unat msg_id) (rb_lost_msgs rb)\<rparr>)"

definition on_beacon_message :: "receiver_buffer \<Rightarrow> u32 \<Rightarrow> (u32 list \<times> receiver_buffer) option" where
  "on_beacon_message rb msg_id = do {
     ((_, rtx), rb) \<leftarrow> internal_on_received_message rb (unat msg_id) None;
     Some (rtx, rb)
   }"

section \<open>Invariant\<close>

text \<open>
  The identifier of the next message to hand to the application, zero before the first one; the
  number of entries waiting; and the message waiting for a given identifier.
\<close>

definition rb_next :: "receiver_buffer \<Rightarrow> nat" where
  "rb_next rb = usize_add (rb_last_sent rb) 1"

definition rb_span :: "receiver_buffer \<Rightarrow> nat" where
  "rb_span rb = length (rb_buffer rb) - rb_first_entry rb"

definition rb_at :: "receiver_buffer \<Rightarrow> nat \<Rightarrow> message option" where
  "rb_at rb n = (if rb_next rb \<le> n \<and> n < rb_next rb + rb_span rb
     then rb_buffer rb ! (n - rb_next rb + rb_first_entry rb) else None)"

definition rb_lost :: "receiver_buffer \<Rightarrow> nat \<Rightarrow> bool" where
  "rb_lost rb n = hs_contains (=) n (rb_lost_msgs rb)"

text \<open>Bounds that hold throughout, also between the iterations of the loops.\<close>

definition rb_ok :: "receiver_buffer \<Rightarrow> bool" where
  "rb_ok rb \<longleftrightarrow> (rb_last_sent rb = usize_max \<or> rb_last_sent rb < 2 ^ 32) \<and>
     rb_first_entry rb \<le> length (rb_buffer rb) \<and> rb_next rb + rb_span rb \<le> 2 ^ 32 \<and>
     (\<forall>n. rb_lost rb n \<longrightarrow> n < 2 ^ 32)"

text \<open>Between calls an entry waits behind a gap, and nothing waits before the first message.\<close>

definition rb_inv :: "receiver_buffer \<Rightarrow> bool" where
  "rb_inv rb \<longleftrightarrow> rb_ok rb \<and> (rb_span rb = 0 \<longrightarrow> rb_buffer rb = []) \<and>
     (rb_next rb = 0 \<longrightarrow> rb_buffer rb = []) \<and> (rb_at rb (rb_next rb) = None)"

lemma usize_next_small: "x < 2 ^ 32 \<Longrightarrow> usize_add x 1 = Suc x"
  by (simp add: usize_add_def)

lemma rb_next_zero: "rb_ok rb \<Longrightarrow> rb_next rb = 0 \<longleftrightarrow> rb_last_sent rb = usize_max"
  using usize_next_small [of "rb_last_sent rb"] usize_add_max by (auto simp: rb_ok_def rb_next_def)

lemma rb_next_pos: "rb_ok rb \<Longrightarrow> rb_last_sent rb \<noteq> usize_max \<Longrightarrow> rb_next rb = Suc (rb_last_sent rb)"
  using usize_next_small [of "rb_last_sent rb"] by (simp add: rb_ok_def rb_next_def)

lemma rb_at_outside [simp]: "n < rb_next rb \<Longrightarrow> rb_at rb n = None" "rb_next rb + rb_span rb \<le> n \<Longrightarrow> rb_at rb n = None"
  by (simp_all add: rb_at_def)

lemma usize_next:
  assumes "rb_next rb < 2 ^ 32" and "rb_last_sent rb' = usize_add (rb_last_sent rb) 1"
  shows "rb_next rb' = Suc (rb_next rb)"
  using usize_next_small [OF assms(1)] assms(2) by (simp only: rb_next_def)

lemma rb_at_empty: "rb_span rb = 0 \<Longrightarrow> rb_at rb n = None"
  by (auto simp: rb_at_def)

text \<open>One identifier is passed on; what waits behind it does not move.\<close>

lemma advance:
  assumes ok: "rb_ok rb" and i: "rb_first_entry rb < length (rb_buffer rb)"
    and new: "rb_last_sent rb' = usize_add (rb_last_sent rb) 1" "rb_first_entry rb' = rb_first_entry rb + 1"
      "length (rb_buffer rb') = length (rb_buffer rb)"
      "\<And>j. j \<noteq> rb_first_entry rb \<Longrightarrow> rb_buffer rb' ! j = rb_buffer rb ! j"
      "\<And>n. rb_lost rb' n \<Longrightarrow> rb_lost rb n"
  shows "rb_ok rb'" "rb_next rb' = Suc (rb_next rb)" "Suc (rb_span rb') = rb_span rb"
    "rb_at rb' n = (if n = rb_next rb then None else rb_at rb n)"
proof -
  have span: "Suc (rb_span rb') = rb_span rb" using i new(2,3) by (simp add: rb_span_def)
  have nxt0: "rb_next rb < 2 ^ 32" using ok span unfolding rb_ok_def by linarith
  have nxt: "rb_next rb' = Suc (rb_next rb)" using usize_next [OF nxt0 new(1)] .
  have last: "rb_last_sent rb' = rb_next rb" using new(1) by (simp add: rb_next_def)
  show "rb_next rb' = Suc (rb_next rb)" "Suc (rb_span rb') = rb_span rb" using nxt span .
  show "rb_ok rb'" unfolding rb_ok_def
  proof (intro conjI)
    show "rb_last_sent rb' = usize_max \<or> rb_last_sent rb' < 2 ^ 32" using last nxt0 by simp
    show "rb_first_entry rb' \<le> length (rb_buffer rb')" using i new(2,3) by simp
    show "rb_next rb' + rb_span rb' \<le> 2 ^ 32" using ok span nxt unfolding rb_ok_def by linarith
    show "\<forall>n. rb_lost rb' n \<longrightarrow> n < 2 ^ 32" using ok new(5) unfolding rb_ok_def by blast
  qed
  show "rb_at rb' n = (if n = rb_next rb then None else rb_at rb n)"
  proof (cases "rb_next rb < n \<and> n < rb_next rb + rb_span rb")
    case True
    then have "n - rb_next rb' + rb_first_entry rb' = n - rb_next rb + rb_first_entry rb" using nxt new(2) by linarith
    moreover have "n - rb_next rb + rb_first_entry rb \<noteq> rb_first_entry rb" using True by linarith
    ultimately show ?thesis using True nxt span new(4) by (simp add: rb_at_def)
  next
    case False
    then show ?thesis using nxt span by (auto simp: rb_at_def)
  qed
qed

text \<open>\<open>rb'\<close> is \<open>rb\<close> after the next \<open>k\<close> identifiers were handed over, each of them present or lost.\<close>

definition released :: "receiver_buffer \<Rightarrow> receiver_buffer \<Rightarrow> nat \<Rightarrow> bool" where
  "released rb rb' k \<longleftrightarrow> rb_ok rb' \<and> rb_next rb' = rb_next rb + k \<and>
    (rb_span rb' = 0 \<or> rb_next rb' + rb_span rb' \<le> rb_next rb + rb_span rb) \<and>
    (\<forall>n. rb_at rb' n = (if n < rb_next rb + k then None else rb_at rb n)) \<and>
    (\<forall>n. rb_lost rb' n \<longleftrightarrow> rb_lost rb n \<and> \<not> (rb_next rb \<le> n \<and> n < rb_next rb + k \<and> rb_at rb n = None)) \<and>
    (\<forall>n. rb_next rb \<le> n \<longrightarrow> n < rb_next rb + k \<longrightarrow> rb_at rb n \<noteq> None \<or> rb_lost rb n)"

lemma released_refl: "rb_ok rb \<Longrightarrow> released rb rb 0"
  by (auto simp: released_def)

lemma released_step:
  assumes "rb_next rb1 = Suc (rb_next rb)"
    and at: "\<And>n. rb_at rb1 n = (if n = rb_next rb then None else rb_at rb n)"
    and lost: "\<And>n. rb_lost rb1 n \<longleftrightarrow> rb_lost rb n \<and> \<not> (n = rb_next rb \<and> rb_at rb n = None)"
    and here: "rb_at rb (rb_next rb) \<noteq> None \<or> rb_lost rb (rb_next rb)"
    and rest: "released rb1 rb' k" and top: "rb_span rb' = 0 \<or> Suc (rb_span rb1) = rb_span rb"
  shows "released rb rb' (Suc k)"
    and "map (rb_at rb) [rb_next rb..<rb_next rb + Suc k] =
      rb_at rb (rb_next rb) # map (rb_at rb1) [rb_next rb1..<rb_next rb1 + k]"
proof -
  have r: "rb_ok rb'" "rb_next rb' = Suc (rb_next rb + k)"
      "\<And>n. rb_at rb' n = (if n < Suc (rb_next rb + k) then None else rb_at rb1 n)"
      "\<And>n. rb_lost rb' n \<longleftrightarrow> rb_lost rb1 n \<and> \<not> (Suc (rb_next rb) \<le> n \<and> n < Suc (rb_next rb + k) \<and> rb_at rb1 n = None)"
      "\<And>n. Suc (rb_next rb) \<le> n \<Longrightarrow> n < Suc (rb_next rb + k) \<Longrightarrow> rb_at rb1 n \<noteq> None \<or> rb_lost rb1 n"
    using rest unfolding released_def assms(1) by simp_all
  have top': "rb_span rb' = 0 \<or> rb_next rb' + rb_span rb' \<le> rb_next rb + rb_span rb"
    using rest top unfolding released_def assms(1) by linarith
  have at': "rb_at rb' n = (if n < Suc (rb_next rb + k) then None else rb_at rb n)" for n
    using r(3) at by simp
  have lost': "rb_lost rb' n \<longleftrightarrow> rb_lost rb n \<and> \<not> (rb_next rb \<le> n \<and> n < Suc (rb_next rb + k) \<and> rb_at rb n = None)" for n
    by (cases "n = rb_next rb") (auto simp: r(4) lost at)
  have "rb_at rb n \<noteq> None \<or> rb_lost rb n" if "rb_next rb \<le> n" "n < Suc (rb_next rb + k)" for n
    using that here r(5) [of n] at [of n] lost [of n] by (cases "n = rb_next rb") simp_all
  then show "released rb rb' (Suc k)"
    unfolding released_def using r(1,2) at' lost' top' by simp
  have "[rb_next rb..<rb_next rb + Suc k] = rb_next rb # [Suc (rb_next rb)..<Suc (rb_next rb) + k]"
    by (simp add: upt_rec)
  then show "map (rb_at rb) [rb_next rb..<rb_next rb + Suc k] =
      rb_at rb (rb_next rb) # map (rb_at rb1) [rb_next rb1..<rb_next rb1 + k]"
    by (simp add: assms(1) at)
qed

text \<open>The releasing loop hands over the front of the buffer, up to the first gap that is not lost.\<close>

definition release_result ::
    "receiver_buffer \<Rightarrow> message option list \<Rightarrow> receiver_buffer \<times> message option list \<Rightarrow> bool" where
  "release_result rb ret res \<longleftrightarrow> (\<exists>k. released rb (fst res) k \<and>
     snd res = ret @ map (rb_at rb) [rb_next rb..<rb_next rb + k] \<and>
     (rb_span (fst res) = 0 \<or> rb_at (fst res) (rb_next (fst res)) = None \<and> \<not> rb_lost (fst res) (rb_next (fst res))))"

lemma release_result_stop:
  assumes "rb_ok rb" and "rb_span rb = 0 \<or> rb_at rb (rb_next rb) = None \<and> \<not> rb_lost rb (rb_next rb)"
  shows "release_result rb ret (rb, ret)"
  unfolding release_result_def using released_refl [OF assms(1)] assms(2) by (intro exI [of _ 0]) simp

lemma release_result_step:
  assumes ok: "rb_ok rb" and i: "rb_first_entry rb < length (rb_buffer rb)"
    and new: "rb_last_sent rb1 = usize_add (rb_last_sent rb) 1" "rb_first_entry rb1 = rb_first_entry rb + 1"
      "length (rb_buffer rb1) = length (rb_buffer rb)"
      "\<And>j. j \<noteq> rb_first_entry rb \<Longrightarrow> rb_buffer rb1 ! j = rb_buffer rb ! j"
    and lost: "\<And>n. rb_lost rb1 n \<longleftrightarrow> rb_lost rb n \<and> \<not> (n = rb_next rb \<and> rb_at rb n = None)"
    and here: "rb_at rb (rb_next rb) \<noteq> None \<or> rb_lost rb (rb_next rb)"
    and rest: "rb_ok rb1 \<Longrightarrow> release_result rb1 (ret @ [rb_at rb (rb_next rb)]) res"
  shows "release_result rb ret res"
proof -
  have lost': "\<And>n. rb_lost rb1 n \<Longrightarrow> rb_lost rb n" using lost by blast
  note adv = advance [OF ok i new lost']
  obtain k where k: "released rb1 (fst res) k"
      "snd res = (ret @ [rb_at rb (rb_next rb)]) @ map (rb_at rb1) [rb_next rb1..<rb_next rb1 + k]"
      "rb_span (fst res) = 0 \<or> rb_at (fst res) (rb_next (fst res)) = None \<and> \<not> rb_lost (fst res) (rb_next (fst res))"
    using rest [OF adv(1)] unfolding release_result_def by blast
  note st = released_step [OF adv(2,4) lost here k(1) disjI2 [OF adv(3)]]
  show ?thesis unfolding release_result_def using st k(2,3) by (intro exI [of _ "Suc k"]) simp
qed

lemma release_loop_spec: "rb_ok rb \<Longrightarrow> i = rb_first_entry rb \<Longrightarrow> release_result rb ret (release_loop i rb ret)"
proof (induction i rb ret rule: release_loop.induct)
  case (1 i rb ret)
  show ?case
  proof (cases "i < length (rb_buffer rb)")
    case False
    then have "release_loop i rb ret = (rb, ret)" by (simp add: release_loop.simps [of i])
    then show ?thesis using release_result_stop [OF 1(3)] False 1(4) by (simp add: rb_span_def)
  next
    case i: True
    have "0 < rb_span rb" using i 1(4) by (simp add: rb_span_def)
    then have at: "rb_at rb (rb_next rb) = rb_buffer rb ! i" using 1(4) by (simp add: rb_at_def)
    have i': "rb_first_entry rb < length (rb_buffer rb)" using i 1(4) by simp
    show ?thesis
    proof (cases "rb_buffer rb ! i")
      case (Some m)
      let ?rb = "rb\<lparr>rb_buffer := (rb_buffer rb)[i := None], rb_last_sent := usize_add (rb_last_sent rb) 1,
                 rb_first_entry := rb_first_entry rb + 1\<rparr>"
      have "release_result ?rb (ret @ [Some m]) (release_loop (i + 1) ?rb (ret @ [Some m]))" if "rb_ok ?rb"
        using 1(2) [OF i Some that] 1(4) by simp
      moreover have "release_loop i rb ret = release_loop (i + 1) ?rb (ret @ [Some m])"
        using i Some by (simp add: release_loop.simps [of i rb])
      ultimately show ?thesis
        using at Some 1(4) by (intro release_result_step [OF 1(3) i', of ?rb]) (simp_all add: rb_lost_def)
    next
      case None
      show ?thesis
      proof (cases "rb_lost rb (rb_next rb)")
        case False
        then have "release_loop i rb ret = (rb, ret)"
          using i None by (simp add: release_loop.simps [of i] rb_lost_def rb_next_def)
        then show ?thesis using release_result_stop [OF 1(3)] at None False by simp
      next
        case True
        let ?rb = "rb\<lparr>rb_lost_msgs := hs_remove (=) (usize_add (rb_last_sent rb) 1) (rb_lost_msgs rb),
                 rb_last_sent := usize_add (rb_last_sent rb) 1, rb_first_entry := rb_first_entry rb + 1\<rparr>"
        have here: "hs_contains (=) (usize_add (rb_last_sent rb) 1) (rb_lost_msgs rb)"
          using True by (simp add: rb_lost_def rb_next_def)
        have "release_result ?rb (ret @ [None]) (release_loop (i + 1) ?rb (ret @ [None]))" if "rb_ok ?rb"
          using 1(1) [OF i None here that] 1(4) by simp
        moreover have "release_loop i rb ret = release_loop (i + 1) ?rb (ret @ [None])"
          using i None here by (simp add: release_loop.simps [of i rb])
        moreover have "rb_lost ?rb n \<longleftrightarrow> rb_lost rb n \<and> \<not> (n = rb_next rb \<and> rb_at rb n = None)" for n
          using at None by (auto simp: rb_lost_def rb_next_def)
        ultimately show ?thesis
          using at None True by (intro release_result_step [OF 1(3) i', of ?rb]) simp_all
      qed
    qed
  qed
qed

lemma released_trans:
  assumes 1: "released rb rb1 j" and 2: "released rb1 rb2 k"
  shows "released rb rb2 (j + k)"
    and "map (rb_at rb) [rb_next rb..<rb_next rb + (j + k)] =
      map (rb_at rb) [rb_next rb..<rb_next rb + j] @ map (rb_at rb1) [rb_next rb1..<rb_next rb1 + k]"
proof -
  have top: "rb_span rb2 = 0 \<or> rb_next rb2 + rb_span rb2 \<le> rb_next rb + rb_span rb"
    using 1 2 unfolding released_def by linarith
  have a: "rb_next rb1 = rb_next rb + j"
      "\<And>n. rb_at rb1 n = (if n < rb_next rb + j then None else rb_at rb n)"
      "\<And>n. rb_lost rb1 n \<longleftrightarrow> rb_lost rb n \<and> \<not> (rb_next rb \<le> n \<and> n < rb_next rb + j \<and> rb_at rb n = None)"
      "\<And>n. rb_next rb \<le> n \<Longrightarrow> n < rb_next rb + j \<Longrightarrow> rb_at rb n \<noteq> None \<or> rb_lost rb n"
    using 1 unfolding released_def by blast+
  have b: "rb_ok rb2" "rb_next rb2 = rb_next rb + j + k"
      "\<And>n. rb_at rb2 n = (if n < rb_next rb + j + k then None else rb_at rb1 n)"
      "\<And>n. rb_lost rb2 n \<longleftrightarrow> rb_lost rb1 n \<and> \<not> (rb_next rb + j \<le> n \<and> n < rb_next rb + j + k \<and> rb_at rb1 n = None)"
      "\<And>n. rb_next rb + j \<le> n \<Longrightarrow> n < rb_next rb + j + k \<Longrightarrow> rb_at rb1 n \<noteq> None \<or> rb_lost rb1 n"
    using 2 unfolding released_def a(1) by blast+
  have lost: "rb_lost rb2 n \<longleftrightarrow> rb_lost rb n \<and> \<not> (rb_next rb \<le> n \<and> n < rb_next rb + j + k \<and> rb_at rb n = None)" for n
    by (cases "n < rb_next rb + j") (auto simp: b(4) a(2,3))
  have cover: "rb_at rb n \<noteq> None \<or> rb_lost rb n" if "rb_next rb \<le> n" "n < rb_next rb + j + k" for n
    using that a(4) [of n] b(5) [of n] a(2,3) by (cases "n < rb_next rb + j") auto
  show "released rb rb2 (j + k)"
    unfolding released_def using b(1-3) a(2) lost cover top by (simp add: add.assoc)
  have "[rb_next rb..<rb_next rb + (j + k)] = [rb_next rb..<rb_next rb + j] @ [rb_next rb + j..<rb_next rb + j + k]"
    by (metis add.assoc le_add1 upt_add_eq_append)
  then show "map (rb_at rb) [rb_next rb..<rb_next rb + (j + k)] =
      map (rb_at rb) [rb_next rb..<rb_next rb + j] @ map (rb_at rb1) [rb_next rb1..<rb_next rb1 + k]"
    by (simp add: a(1,2))
qed

lemma lost_loop_spec:
  "rb_ok rb \<Longrightarrow> rb_buffer rb = [] \<Longrightarrow> \<exists>k. released rb (fst (lost_loop rb ret)) k \<and>
     snd (lost_loop rb ret) = ret @ map (rb_at rb) [rb_next rb..<rb_next rb + k] \<and>
     \<not> rb_lost (fst (lost_loop rb ret)) (rb_next (fst (lost_loop rb ret))) \<and> rb_buffer (fst (lost_loop rb ret)) = []"
proof (induction rb ret rule: lost_loop.induct)
  case (1 rb ret)
  have none: "rb_at rb n = None" for n using 1(3) by (intro rb_at_empty) (simp add: rb_span_def)
  show ?case
  proof (cases "rb_lost rb (rb_next rb)")
    case False
    then have "lost_loop rb ret = (rb, ret)" by (simp add: lost_loop.simps [of rb] rb_lost_def rb_next_def)
    then show ?thesis using released_refl [OF 1(2)] False 1(3) by (intro exI [of _ 0]) simp
  next
    case True
    let ?rb = "rb\<lparr>rb_last_sent := usize_add (rb_last_sent rb) 1,
           rb_lost_msgs := hs_remove (=) (usize_add (rb_last_sent rb) 1) (rb_lost_msgs rb)\<rparr>"
    have here: "hs_contains (=) (usize_add (rb_last_sent rb) 1) (rb_lost_msgs rb)"
      using True by (simp add: rb_lost_def rb_next_def)
    have small: "rb_next rb < 2 ^ 32" using 1(2) True unfolding rb_ok_def by blast
    have nxt: "rb_next ?rb = Suc (rb_next rb)" by (rule usize_next [OF small]) simp
    have last: "rb_last_sent ?rb = rb_next rb" by (simp add: rb_next_def)
    have span: "rb_span ?rb = 0" using 1(3) by (simp add: rb_span_def)
    have none': "rb_at ?rb n = (if n = rb_next rb then None else rb_at rb n)" for n
      using none rb_at_empty [OF span] by simp
    have lost: "rb_lost ?rb n \<longleftrightarrow> rb_lost rb n \<and> \<not> (n = rb_next rb \<and> rb_at rb n = None)" for n
      using none by (auto simp: rb_lost_def rb_next_def)
    have "rb_ok ?rb" unfolding rb_ok_def nxt span last
      using 1(2) small lost unfolding rb_ok_def by auto
    then obtain k where k: "released ?rb (fst (lost_loop ?rb (ret @ [None]))) k"
        "snd (lost_loop ?rb (ret @ [None])) = (ret @ [None]) @ map (rb_at ?rb) [rb_next ?rb..<rb_next ?rb + k]"
        "\<not> rb_lost (fst (lost_loop ?rb (ret @ [None]))) (rb_next (fst (lost_loop ?rb (ret @ [None]))))"
        "rb_buffer (fst (lost_loop ?rb (ret @ [None]))) = []"
      using 1(1) [OF here] 1(3) by auto
    have eq: "lost_loop rb ret = lost_loop ?rb (ret @ [None])"
      using here by (simp add: lost_loop.simps [of rb])
    have span': "rb_span (fst (lost_loop ?rb (ret @ [None]))) = 0" using k(4) by (simp add: rb_span_def)
    note st = released_step [OF nxt none' lost disjI2 [OF True] k(1) disjI1 [OF span']]
    have "snd (lost_loop ?rb (ret @ [None])) = ret @ map (rb_at rb) [rb_next rb..<rb_next rb + Suc k]"
      unfolding k(2) st(2) none [of "rb_next rb"] by simp
    then show ?thesis unfolding eq using st(1) k(3,4) by blast
  qed
qed

text \<open>
  \<open>release_msgs\<close> hands over exactly the identifiers from the next one up to the first that
  is neither present nor lost; a lost one is handed over as nothing.
\<close>

lemma release_msgs_spec:
  assumes ok: "rb_ok rb" and start: "rb_next rb = 0 \<longrightarrow> rb_buffer rb = []"
  shows "\<exists>k rb'. release_msgs rb = (map (rb_at rb) [rb_next rb..<rb_next rb + k], rb') \<and>
    released rb rb' k \<and> rb_inv rb' \<and> \<not> rb_lost rb' (rb_next rb')"
proof -
  obtain rb1 ret where rl: "release_loop (rb_first_entry rb) rb [] = (rb1, ret)" by fastforce
  obtain j where j: "released rb rb1 j" "ret = map (rb_at rb) [rb_next rb..<rb_next rb + j]"
      "rb_span rb1 = 0 \<or> rb_at rb1 (rb_next rb1) = None \<and> \<not> rb_lost rb1 (rb_next rb1)"
    using release_loop_spec [OF ok refl, of "[]"] unfolding rl release_result_def by auto
  have ok1: "rb_ok rb1" using j(1) by (simp add: released_def)
  show ?thesis
  proof (cases "rb_span rb1 = 0")
    case True
    then have full: "rb_first_entry rb1 = length (rb_buffer rb1)"
      using ok1 by (simp add: rb_ok_def rb_span_def)
    let ?rb1 = "rb1\<lparr>rb_first_entry := 0, rb_buffer := []\<rparr>"
    have same: "rb_next ?rb1 = rb_next rb1" "rb_span ?rb1 = 0" "rb_lost ?rb1 = rb_lost rb1" "rb_last_sent ?rb1 = rb_last_sent rb1"
      by (auto simp: rb_next_def rb_span_def rb_lost_def)
    have at: "rb_at ?rb1 = rb_at rb1" using rb_at_empty [OF True] rb_at_empty [OF same(2)] by (simp add: fun_eq_iff)
    have ok2: "rb_ok ?rb1" unfolding rb_ok_def same using ok1 unfolding rb_ok_def by simp
    have j2: "released rb ?rb1 j" using j(1) ok2 unfolding released_def same at by simp
    obtain rb2 ret2 where ll: "lost_loop ?rb1 ret = (rb2, ret2)" by fastforce
    obtain k where k: "released ?rb1 rb2 k" "ret2 = ret @ map (rb_at ?rb1) [rb_next ?rb1..<rb_next ?rb1 + k]"
        "\<not> rb_lost rb2 (rb_next rb2)" "rb_buffer rb2 = []"
      using lost_loop_spec [OF ok2, of ret] unfolding ll by auto
    note tr = released_trans [OF j2 k(1)]
    have "release_msgs rb = (map (rb_at rb) [rb_next rb..<rb_next rb + (j + k)], rb2)"
      using rl full ll k(2) j(2) tr(2) by (simp add: release_msgs_def)
    moreover have "rb_inv rb2" unfolding rb_inv_def
      using tr(1) k(4) rb_at_empty [of rb2] by (simp add: released_def rb_span_def)
    ultimately show ?thesis using tr(1) k(3) by blast
  next
    case False
    then have stop: "rb_at rb1 (rb_next rb1) = None" "\<not> rb_lost rb1 (rb_next rb1)" using j(3) by auto
    have "rb_buffer rb \<noteq> []"
    proof
      assume "rb_buffer rb = []"
      then have "rb1 = rb" "rb_span rb = 0" using rl by (simp_all add: release_loop.simps [of _ rb] rb_span_def)
      then show False using False by simp
    qed
    then have nz: "rb_next rb1 \<noteq> 0" using start j(1) by (auto simp: released_def)
    have "rb_first_entry rb1 \<noteq> length (rb_buffer rb1)" using False by (auto simp: rb_span_def)
    moreover have "lost_loop rb1 ret = (rb1, ret)"
      using stop(2) by (simp add: lost_loop.simps [of rb1] rb_lost_def rb_next_def)
    ultimately have "release_msgs rb = (map (rb_at rb) [rb_next rb..<rb_next rb + j], rb1)"
      using rl j(2) by (simp add: release_msgs_def)
    moreover have "rb_inv rb1" unfolding rb_inv_def using ok1 False nz stop by simp
    ultimately show ?thesis using j(1) stop(2) by blast
  qed
qed

section \<open>Receiving\<close>

text \<open>
  The effect of an operation, over the messages \<open>a\<close> that wait and the identifiers \<open>l\<close>
  declared lost once the operation has added its own: the next \<open>k\<close> identifiers are passed on.
\<close>

definition passed :: "(nat \<Rightarrow> message option) \<Rightarrow> (nat \<Rightarrow> bool) \<Rightarrow> nat \<Rightarrow> receiver_buffer \<Rightarrow> nat \<Rightarrow> bool" where
  "passed a l N rb' k \<longleftrightarrow> rb_next rb' = N + k \<and>
    (\<forall>n. rb_at rb' n = (if n < N + k then None else a n)) \<and>
    (\<forall>n. rb_lost rb' n \<longrightarrow> l n) \<and> (\<forall>n. N + k \<le> n \<longrightarrow> l n \<longrightarrow> rb_lost rb' n) \<and>
    (\<forall>n. N \<le> n \<longrightarrow> n < N + k \<longrightarrow> a n \<noteq> None \<or> l n)"

lemma released_passed: "released rb rb' k \<Longrightarrow> passed (rb_at rb) (rb_lost rb) (rb_next rb) rb' k"
  unfolding released_def passed_def by (elim conjE, intro conjI) (assumption | simp)+

text \<open>Every gap of the buffer is older than the operation or among the identifiers it requests.\<close>

definition gaps_requested :: "receiver_buffer \<Rightarrow> u32 list \<Rightarrow> receiver_buffer \<Rightarrow> bool" where
  "gaps_requested rb rtx rb' \<longleftrightarrow> (\<forall>n. n < rb_next rb' + rb_span rb' \<longrightarrow> rb_next rb' \<le> n \<longrightarrow> rb_at rb' n = None \<longrightarrow>
     n < rb_next rb + rb_span rb \<and> rb_next rb \<le> n \<and> rb_at rb n = None \<or> of_nat n \<in> set rtx)"

text \<open>Only what was neither passed on nor stored is requested.\<close>

definition requests_missing :: "receiver_buffer \<Rightarrow> u32 list \<Rightarrow> bool" where
  "requests_missing rb rtx \<longleftrightarrow> (\<forall>x\<in>set rtx. rb_next rb \<le> unat x \<and> rb_at rb (unat x) = None)"

lemma requests_upt:
  assumes "rb_next rb \<le> i" "j \<le> 2 ^ 32" "\<And>n. i \<le> n \<Longrightarrow> n < j \<Longrightarrow> rb_at rb n = None"
  shows "requests_missing rb (map of_nat [i..<j])"
  using assms unat_of_nat_u32 unfolding requests_missing_def by fastforce

lemma extend_spec:
  assumes inv: "rb_inv rb" and top: "rb_next rb + rb_span rb + c + length xs \<le> 2 ^ 32"
    and head: "0 < rb_span rb + c" and N: "rb_next rb \<noteq> 0"
    and rb': "rb' = rb\<lparr>rb_buffer := rb_buffer rb @ replicate c None @ xs\<rparr>"
  shows "rb_next rb' = rb_next rb" "rb_span rb' = rb_span rb + c + length xs" "rb_lost rb' = rb_lost rb" "rb_inv rb'"
    "rb_at rb' n = (if n < rb_next rb + rb_span rb + c then rb_at rb n
       else if n < rb_next rb + rb_span rb + c + length xs then xs ! (n - (rb_next rb + rb_span rb + c)) else None)"
proof -
  have first: "rb_first_entry rb \<le> length (rb_buffer rb)" and ok: "rb_ok rb" using inv by (simp_all add: rb_inv_def rb_ok_def)
  show nxt: "rb_next rb' = rb_next rb" by (simp add: rb' rb_next_def)
  show span: "rb_span rb' = rb_span rb + c + length xs" using first by (simp add: rb' rb_span_def)
  show lost: "rb_lost rb' = rb_lost rb" by (simp add: rb' rb_lost_def fun_eq_iff)
  have len: "length (rb_buffer rb) = rb_first_entry rb + rb_span rb" using first by (simp add: rb_span_def)
  show at: "rb_at rb' n = (if n < rb_next rb + rb_span rb + c then rb_at rb n
       else if n < rb_next rb + rb_span rb + c + length xs then xs ! (n - (rb_next rb + rb_span rb + c)) else None)" for n
  proof (cases "n < rb_next rb + rb_span rb")
    case True
    then have "rb_next rb \<le> n \<Longrightarrow> n - rb_next rb + rb_first_entry rb < length (rb_buffer rb)" using len by linarith
    then show ?thesis using True by (auto simp: rb_at_def nxt span) (auto simp: rb' nth_append)
  next
    case False
    then obtain d where n: "n = rb_next rb + rb_span rb + d" using nat_le_iff_add not_less by metis
    have idx: "n - rb_next rb + rb_first_entry rb = length (rb_buffer rb) + d" using n len by simp
    have "rb_buffer rb' ! (length (rb_buffer rb) + d) = (replicate c None @ xs) ! d"
      unfolding rb' by simp
    moreover have "rb_next rb \<le> n \<and> n < rb_next rb + (rb_span rb + c + length xs) \<longleftrightarrow> d < c + length xs"
      unfolding n by simp
    moreover have "rb_first_entry rb' = rb_first_entry rb" by (simp add: rb')
    ultimately have "rb_at rb' n = (if d < c + length xs then (replicate c None @ xs) ! d else None)"
      unfolding rb_at_def nxt span by (simp only: idx)
    then show ?thesis using n False by (simp add: nth_append)
  qed
  have "rb_ok rb'" unfolding rb_ok_def nxt span lost
    using ok top first unfolding rb_ok_def by (simp add: rb')
  moreover have "rb_at rb' (rb_next rb) = None" using at head inv by (simp add: rb_inv_def)
  ultimately show "rb_inv rb'" unfolding rb_inv_def using head N nxt span by auto
qed

text \<open>The empty buffer hands the expected message over at once.\<close>

lemma receive_next_empty:
  assumes inv: "rb_inv rb" and n: "n < 2 ^ 32" and buf: "rb_buffer rb = []" and rb': "rb' = rb\<lparr>rb_last_sent := n\<rparr>"
  shows "rb_inv rb'" "rb_next rb' = Suc n" "rb_lost rb' = rb_lost rb" "rb_at rb' i = None" "rb_span rb' = 0"
proof -
  show nxt: "rb_next rb' = Suc n" using usize_next_small [OF n] by (simp add: rb' rb_next_def)
  show lost: "rb_lost rb' = rb_lost rb" by (simp add: rb' rb_lost_def fun_eq_iff)
  show span: "rb_span rb' = 0" using buf by (simp add: rb' rb_span_def)
  show at: "rb_at rb' i = None" for i by (rule rb_at_empty [OF span])
  have "rb_ok rb'" unfolding rb_ok_def nxt span lost
    using inv n unfolding rb_inv_def rb_ok_def by (simp add: rb' buf)
  then show "rb_inv rb'" unfolding rb_inv_def using at buf by (simp add: rb')
qed

text \<open>A message for a gap inside the buffer.\<close>

lemma fill_spec:
  assumes inv: "rb_inv rb" and n: "rb_next rb \<le> n" "n < rb_next rb + rb_span rb"
    and rb': "rb' = rb\<lparr>rb_buffer := (rb_buffer rb)[n - rb_next rb + rb_first_entry rb := Some m]\<rparr>"
  shows "rb_ok rb'" "rb_next rb' = rb_next rb" "rb_span rb' = rb_span rb" "rb_lost rb' = rb_lost rb"
    "rb_at rb' = (rb_at rb)(n \<mapsto> m)"
proof -
  show nxt: "rb_next rb' = rb_next rb" and span: "rb_span rb' = rb_span rb" and lost: "rb_lost rb' = rb_lost rb"
    by (simp_all add: rb' rb_next_def rb_span_def rb_lost_def fun_eq_iff)
  show "rb_ok rb'" unfolding rb_ok_def nxt span lost using inv unfolding rb_inv_def rb_ok_def by (simp add: rb')
  have pos: "n - rb_next rb + rb_first_entry rb < length (rb_buffer rb)" using n by (simp add: rb_span_def)
  have "rb_at rb' j = ((rb_at rb)(n \<mapsto> m)) j" for j
  proof (cases "rb_next rb \<le> j \<and> j < rb_next rb + rb_span rb")
    case True
    then have "n - rb_next rb + rb_first_entry rb = j - rb_next rb + rb_first_entry rb \<longleftrightarrow> j = n" using n by linarith
    then show ?thesis using True pos by (simp add: rb_at_def nxt span) (simp add: rb' nth_list_update)
  next
    case False
    then show ?thesis using n by (auto simp: rb_at_def nxt span)
  qed
  then show "rb_at rb' = (rb_at rb)(n \<mapsto> m)" by blast
qed

lemma gaps_passed:
  assumes p: "passed ((rb_at rb)(n \<mapsto> m)) l (rb_next rb) rb' k"
    and top: "rb_span rb' = 0 \<or> rb_next rb' + rb_span rb' \<le> rb_next rb + rb_span rb"
  shows "gaps_requested rb rtx rb'"
  unfolding gaps_requested_def
proof (intro allI impI disjI1)
  fix j assume j: "j < rb_next rb' + rb_span rb'" "rb_next rb' \<le> j" "rb_at rb' j = None"
  have "rb_next rb \<le> j" "((rb_at rb)(n \<mapsto> m)) j = None" using p j(2,3) unfolding passed_def by auto
  then show "j < rb_next rb + rb_span rb \<and> rb_next rb \<le> j \<and> rb_at rb j = None"
    using top j(1,2) by (auto split: if_splits)
qed

text \<open>The effect of a message that was neither passed on nor stored before.\<close>

definition received :: "receiver_buffer \<Rightarrow> nat \<Rightarrow> message \<Rightarrow>
    ((message option list \<times> u32 list) \<times> receiver_buffer) option \<Rightarrow> bool" where
  "received rb n m res \<longleftrightarrow> (\<exists>k rtx rb'. res =
      Some ((map ((rb_at rb)(n \<mapsto> m)) [rb_next rb..<rb_next rb + k], rtx), rb') \<and> rb_inv rb' \<and>
    passed ((rb_at rb)(n \<mapsto> m)) (rb_lost rb) (rb_next rb) rb' k \<and>
    gaps_requested rb rtx rb' \<and> requests_missing rb rtx \<and> (n = rb_next rb \<longrightarrow> 0 < k) \<and>
    (0 < k \<longrightarrow> rb_span rb' = 0 \<or> \<not> rb_lost rb' (rb_next rb')))"

lemma received_last:
  assumes "rb_inv rb" "rb_next rb \<noteq> 0"
  shows "Suc (rb_last_sent rb) = rb_next rb" "rb_last_sent rb \<noteq> usize_max"
  using rb_next_zero [of rb] rb_next_pos [of rb] assms by (auto simp: rb_inv_def)

lemma receive_next:
  assumes inv: "rb_inv rb" and n: "n < 2 ^ 32" and N: "rb_next rb \<noteq> 0"
    and fresh: "rb_next rb \<le> n" "rb_at rb n = None"
    and buf: "rb_buffer rb = []" and n_eq: "n = rb_next rb"
  shows "received rb n m (internal_on_received_message rb n (Some m))"
proof -
  let ?N = "rb_next rb" and ?S = "rb_span rb" and ?a = "(rb_at rb)(n \<mapsto> m)"
  note sN = received_last [OF inv N]
  let ?rb = "rb\<lparr>rb_last_sent := n\<rparr>"
  note e = receive_next_empty [OF inv n buf refl]
  have none: "rb_at rb i = None" for i using buf by (intro rb_at_empty) (simp add: rb_span_def)
  have "internal_on_received_message rb n (Some m) = Some (([Some m], []), ?rb)"
    using buf n_eq sN by (simp add: internal_on_received_message_def)
  moreover have "passed ?a (rb_lost rb) ?N ?rb 1"
    unfolding passed_def e(2-4) using n_eq none by auto
  moreover have "gaps_requested rb [] ?rb" by (simp add: gaps_requested_def e(5))
  moreover have "rb_span ?rb = 0" using buf by (simp add: rb_span_def)
  ultimately show ?thesis unfolding received_def using n_eq e(1)
    by (intro exI [of _ 1] exI [of _ "[]"] exI [of _ ?rb]) (simp add: requests_missing_def)
qed

lemma receive_fill:
  assumes inv: "rb_inv rb" and n: "n < 2 ^ 32" and N: "rb_next rb \<noteq> 0"
    and fresh: "rb_next rb \<le> n" "rb_at rb n = None"
    and inside: "n < rb_next rb + rb_span rb"
  shows "received rb n m (internal_on_received_message rb n (Some m))"
proof -
  let ?N = "rb_next rb" and ?S = "rb_span rb" and ?a = "(rb_at rb)(n \<mapsto> m)"
  note sN = received_last [OF inv N]
  let ?pos = "n - ?N + rb_first_entry rb"
  let ?rb1 = "rb\<lparr>rb_buffer := (rb_buffer rb)[?pos := Some m]\<rparr>"
  note f = fill_spec [OF inv fresh(1) inside refl, of m]
  have "rb_at rb n = rb_buffer rb ! ?pos" unfolding rb_at_def using inside fresh(1) by simp
  then have buf: "rb_buffer rb \<noteq> []" "?pos < length (rb_buffer rb)" "rb_buffer rb ! ?pos = None"
    using inside fresh by (auto simp: rb_span_def)
  obtain k rb' where k: "release_msgs ?rb1 = (map (rb_at ?rb1) [rb_next ?rb1..<rb_next ?rb1 + k], rb')"
      "released ?rb1 rb' k" "rb_inv rb'" "\<not> rb_lost rb' (rb_next rb')"
    using release_msgs_spec [OF f(1)] f(2) N by auto
  have p: "passed ?a (rb_lost rb) ?N rb' k" using released_passed [OF k(2)] unfolding f(2,4,5) .
  have r: "n \<le> rb_last_sent rb + ?S" "\<not> n \<le> rb_last_sent rb" using inside fresh(1) sN(1) by linarith+
  have "internal_on_received_message rb n (Some m) = Some ((map ?a [?N..<?N + k], []), rb')"
    using r buf sN k(1) unfolding f(2,5) by (simp add: internal_on_received_message_def Let_def rb_span_def [symmetric])
  moreover have "rb_span rb' = 0 \<or> rb_next rb' + rb_span rb' \<le> ?N + ?S"
    using k(2) unfolding released_def f(2,3) by blast
  then have "gaps_requested rb [] rb'" by (rule gaps_passed [OF p])
  moreover have "0 < k" if "n = ?N"
    using p k(3) that unfolding passed_def rb_inv_def by (cases k) auto
  ultimately show ?thesis unfolding received_def using k(3,4) p by (intro exI [of _ k] exI [of _ "[]"] exI [of _ rb']) (simp add: requests_missing_def)
qed

lemma receive_beyond:
  assumes inv: "rb_inv rb" and n: "n < 2 ^ 32" and N: "rb_next rb \<noteq> 0"
    and fresh: "rb_next rb \<le> n" "rb_at rb n = None"
    and beyond: "rb_next rb + rb_span rb \<le> n" "rb_buffer rb = [] \<longrightarrow> n \<noteq> rb_next rb"
  shows "received rb n m (internal_on_received_message rb n (Some m))"
proof -
  let ?N = "rb_next rb" and ?S = "rb_span rb" and ?a = "(rb_at rb)(n \<mapsto> m)"
  note sN = received_last [OF inv N]
  let ?c = "n - (?N + ?S)"
  let ?rb = "rb\<lparr>rb_buffer := rb_buffer rb @ replicate ?c None @ [Some m]\<rparr>"
  have ok: "rb_ok rb" using inv by (simp add: rb_inv_def)
  have first: "rb_buffer rb = [] \<Longrightarrow> rb_first_entry rb = 0" using ok by (simp add: rb_ok_def)
  have span: "?S = 0 \<longleftrightarrow> rb_buffer rb = []" using inv by (auto simp: rb_inv_def rb_span_def)
  have head: "0 < ?S + ?c" "?N + ?S + ?c + length [Some m] \<le> 2 ^ 32" "n = ?N + ?S + ?c" using beyond span n by auto
  note x = extend_spec [OF inv head(2,1) N refl]
  have at: "rb_at ?rb = ?a"
    using head(3) rb_at_outside(2) [of rb] by (auto simp: fun_eq_iff x(5) less_Suc_eq)
  have "internal_on_received_message rb n (Some m) = Some (([], map of_nat [?N + ?S..<n]), ?rb)"
  proof (cases "rb_buffer rb = []")
    case True
    then show ?thesis using beyond sN span first by (simp add: internal_on_received_message_def Let_def)
  next
    case False
    have r: "\<not> n \<le> rb_last_sent rb + ?S" "\<not> n \<le> rb_last_sent rb" using beyond(1) sN(1) by linarith+
    show ?thesis using False r sN by (simp add: internal_on_received_message_def Let_def rb_span_def [symmetric])
  qed
  moreover have "passed ?a (rb_lost rb) ?N ?rb 0"
    unfolding passed_def x(1,3) at using fresh(1) by auto
  moreover have "gaps_requested rb (map of_nat [?N + ?S..<n]) ?rb"
    unfolding gaps_requested_def x(1,2) at using head(3) by (auto simp: less_Suc_eq)
  moreover have "requests_missing rb (map of_nat [?N + ?S..<n])" using n by (intro requests_upt) auto
  moreover have "n \<noteq> ?N" using beyond span by auto
  ultimately show ?thesis unfolding received_def using x(4) by (intro exI [of _ 0] exI [of _ "map of_nat [?N + ?S..<n]"] exI [of _ ?rb]) simp
qed

lemma receive_spec:
  assumes inv: "rb_inv rb" and n: "n < 2 ^ 32" and N: "rb_next rb \<noteq> 0"
    and fresh: "rb_next rb \<le> n" "rb_at rb n = None"
  shows "received rb n m (internal_on_received_message rb n (Some m))"
  using receive_next [OF assms] receive_fill [OF assms] receive_beyond [OF assms] not_le by blast

lemma receive_first:
  assumes "rb_inv rb" "rb_next rb = 0"
  shows "internal_on_received_message rb n (Some m) = Some (([Some m], []), rb\<lparr>rb_last_sent := n\<rparr>)"
  using rb_next_zero [of rb] assms by (simp add: internal_on_received_message_def rb_inv_def)

lemma receive_ignored:
  assumes inv: "rb_inv rb" and N: "rb_next rb \<noteq> 0" and old: "n < rb_next rb \<or> rb_at rb n \<noteq> None"
  shows "internal_on_received_message rb n (Some m) = Some (([], []), rb)"
proof (cases "n < rb_next rb")
  case True
  then show ?thesis using received_last [OF inv N] by (simp add: internal_on_received_message_def)
next
  case False
  note sN = received_last [OF inv N]
  have "rb_at rb n \<noteq> None" using old False by blast
  then have at: "rb_at rb n \<noteq> None" "n < rb_next rb + rb_span rb" unfolding rb_at_def by (meson)+
  let ?pos = "n - rb_next rb + rb_first_entry rb"
  have "rb_at rb n = rb_buffer rb ! ?pos" unfolding rb_at_def using at(2) False by simp
  moreover have "?pos < length (rb_buffer rb)" "rb_buffer rb \<noteq> []" using at(2) False by (auto simp: rb_span_def)
  moreover have "n \<le> rb_last_sent rb + rb_span rb" "\<not> n \<le> rb_last_sent rb" using at(2) False sN(1) by linarith+
  ultimately show ?thesis
    using at(1) sN by (simp add: internal_on_received_message_def Let_def rb_span_def [symmetric])
qed

text \<open>A beacon only adds gaps, and requests them.\<close>

definition beaconed :: "receiver_buffer \<Rightarrow> ((message option list \<times> u32 list) \<times> receiver_buffer) option \<Rightarrow> bool" where
  "beaconed rb res \<longleftrightarrow> (\<exists>rtx rb'. res = Some (([], rtx), rb') \<and> rb_inv rb' \<and> rb_next rb' = rb_next rb \<and>
     rb_at rb' = rb_at rb \<and> rb_lost rb' = rb_lost rb \<and> gaps_requested rb rtx rb' \<and> requests_missing rb rtx)"

lemma beacon_unchanged:
  assumes "rb_inv rb" and "rtx = [] \<or> rtx = [of_nat n] \<and> n < 2 ^ 32 \<and> rb_next rb \<le> n \<and> rb_at rb n = None"
  shows "beaconed rb (Some (([], rtx), rb))"
  using assms unat_of_nat_u32 [of n] by (auto simp: beaconed_def gaps_requested_def requests_missing_def)

lemma beacon_extend:
  assumes inv: "rb_inv rb" and n: "n < 2 ^ 32" and N: "rb_next rb \<noteq> 0"
    and beyond: "rb_next rb + rb_span rb \<le> n" and c: "rb_next rb + rb_span rb + c \<le> Suc n" "0 < rb_span rb + c"
    and rb': "rb' = rb\<lparr>rb_buffer := rb_buffer rb @ replicate c None\<rparr>"
  shows "beaconed rb (Some (([], map of_nat [rb_next rb + rb_span rb..<Suc n]), rb'))"
proof -
  have rb'': "rb' = rb\<lparr>rb_buffer := rb_buffer rb @ replicate c None @ []\<rparr>" using rb' by simp
  have top: "rb_next rb + rb_span rb + c + length ([] :: message option list) \<le> 2 ^ 32" using c n by simp
  note x = extend_spec [OF inv top c(2) N rb'']
  have at: "rb_at rb' = rb_at rb" using rb_at_outside(2) [of rb] by (auto simp: fun_eq_iff x(5))
  have "requests_missing rb (map of_nat [rb_next rb + rb_span rb..<Suc n])" using n by (intro requests_upt) auto
  moreover have "gaps_requested rb (map of_nat [rb_next rb + rb_span rb..<Suc n]) rb'"
    unfolding gaps_requested_def at x(1,2) using c(1) by (auto simp del: upt_Suc)
  ultimately show ?thesis unfolding beaconed_def using x(1,3,4) at by blast
qed

lemma beacon_spec:
  assumes inv: "rb_inv rb" and n: "n < 2 ^ 32"
  shows "beaconed rb (internal_on_received_message rb n None)"
proof (cases "rb_next rb = 0")
  case True
  moreover have "rb_at rb n = None" using inv True by (intro rb_at_empty) (simp add: rb_inv_def rb_span_def)
  ultimately show ?thesis using rb_next_zero [of rb] inv n beacon_unchanged [of rb "[of_nat n]" n]
    by (simp add: internal_on_received_message_def rb_inv_def)
next
  case N: False
  note sN = received_last [OF inv N]
  let ?N = "rb_next rb" and ?S = "rb_span rb"
  have span: "?S = 0 \<longleftrightarrow> rb_buffer rb = []" using inv by (auto simp: rb_inv_def rb_span_def)
  have first: "rb_buffer rb = [] \<Longrightarrow> rb_first_entry rb = 0" using inv by (simp add: rb_inv_def rb_ok_def)
  consider "n < ?N" | "n = ?N" "rb_buffer rb = []" | "?N < n" "rb_buffer rb = []"
    | "?N \<le> n" "n < ?N + ?S" | "?N + ?S \<le> n" "rb_buffer rb \<noteq> []" by linarith
  then show ?thesis
  proof cases
    case 1
    then show ?thesis using sN beacon_unchanged [OF inv, of "[]"] by (simp add: internal_on_received_message_def)
  next
    case 2
    moreover have "rb_at rb n = None" using 2(2) span by (intro rb_at_empty) simp
    ultimately show ?thesis using sN beacon_unchanged [OF inv, of "[of_nat n]" n] n
      by (simp add: internal_on_received_message_def)
  next
    case 3
    let ?rb = "rb\<lparr>rb_buffer := rb_buffer rb @ replicate (Suc (n - ?N)) None\<rparr>"
    have "internal_on_received_message rb n None = Some (([], map of_nat [?N + ?S..<Suc n]), ?rb)"
      using 3 sN span first by (simp add: internal_on_received_message_def Let_def)
    then show ?thesis using beacon_extend [OF inv n N, of "Suc (n - ?N)" ?rb] 3 span by simp
  next
    case 4
    have "n \<le> rb_last_sent rb + ?S" "\<not> n \<le> rb_last_sent rb" "rb_buffer rb \<noteq> []" using 4 sN(1) span by auto
    then show ?thesis using sN beacon_unchanged [OF inv, of "[]"]
      by (simp add: internal_on_received_message_def Let_def rb_span_def [symmetric])
  next
    case 5
    let ?rb = "rb\<lparr>rb_buffer := rb_buffer rb @ replicate (n - (?N + ?S)) None\<rparr>"
    have r: "\<not> n \<le> rb_last_sent rb + ?S" "\<not> n \<le> rb_last_sent rb" using 5(1) sN(1) by linarith+
    have "internal_on_received_message rb n None = Some (([], map of_nat [?N + ?S..<Suc n]), ?rb)"
      using 5 r sN by (simp add: internal_on_received_message_def Let_def rb_span_def [symmetric])
    then show ?thesis using beacon_extend [OF inv n N, of "n - (?N + ?S)" ?rb] 5 span by simp
  qed
qed

section \<open>Runs\<close>

datatype rb_op = Rb_Msg message | Rb_Beacon u32 | Rb_Lost u32

fun rb_exec :: "receiver_buffer \<Rightarrow> rb_op \<Rightarrow> ((message option list \<times> u32 list) \<times> receiver_buffer) option" where
  "rb_exec rb (Rb_Msg m) = on_received_message rb m"
| "rb_exec rb (Rb_Beacon i) = map_option (\<lambda>(rtx, rb). (([], rtx), rb)) (on_beacon_message rb i)"
| "rb_exec rb (Rb_Lost i) = (let (out, rb) = on_lost_message rb i in Some ((out, []), rb))"

fun rb_run :: "receiver_buffer \<Rightarrow> rb_op list \<Rightarrow> ((message option list \<times> u32 list) \<times> receiver_buffer) option" where
  "rb_run rb [] = Some (([], []), rb)"
| "rb_run rb (op # ops) = do {
     ((out, rtx), rb) \<leftarrow> rb_exec rb op;
     ((out', rtx'), rb) \<leftarrow> rb_run rb ops;
     Some ((out @ out', rtx @ rtx'), rb)
   }"

text \<open>
  What a run has established: \<open>out\<close> is what the application was handed, \<open>R\<close> the messages
  received, \<open>L\<close> the identifiers declared lost, \<open>Q\<close> those requested again. The entries of
  \<open>out\<close> have consecutive identifiers that end before the next one expected; a missing entry was
  declared lost. A received message is never dropped: it is passed on or waits. Every gap was
  requested.
\<close>

fun in_order :: "nat \<Rightarrow> message option list \<Rightarrow> message set \<Rightarrow> nat set \<Rightarrow> bool" where
  "in_order n [] R L \<longleftrightarrow> True"
| "in_order n (x # out) R L \<longleftrightarrow>
     (case x of Some m \<Rightarrow> m \<in> R \<and> msg_get_id m = Some (of_nat n) | None \<Rightarrow> n \<in> L) \<and> in_order (Suc n) out R L"

definition rb_trace :: "receiver_buffer \<Rightarrow> message option list \<Rightarrow> message set \<Rightarrow> nat set \<Rightarrow> u32 set \<Rightarrow> bool" where
  "rb_trace rb out R L Q \<longleftrightarrow> rb_inv rb \<and> (rb_next rb = 0 \<longrightarrow> R = {}) \<and>
     length out \<le> rb_next rb \<and> in_order (rb_next rb - length out) out R L \<and>
     (\<forall>n. rb_lost rb n \<longrightarrow> n \<in> L) \<and>
     (\<forall>n m. rb_at rb n = Some m \<longrightarrow> m \<in> R \<and> msg_get_id m = Some (of_nat n)) \<and>
     (\<forall>m\<in>R. \<forall>i. msg_get_id m = Some i \<longrightarrow> unat i < rb_next rb \<or> rb_at rb (unat i) \<noteq> None) \<and>
     (\<forall>n. rb_next rb \<le> n \<longrightarrow> n < rb_next rb + rb_span rb \<longrightarrow> rb_at rb n = None \<longrightarrow> of_nat n \<in> Q)"

lemma in_order_append:
  "in_order n (out @ out') R L \<longleftrightarrow> in_order n out R L \<and> in_order (n + length out) out' R L"
  by (induction out arbitrary: n) auto

lemma in_order_mono: "in_order n out R L \<Longrightarrow> R \<subseteq> R' \<Longrightarrow> L \<subseteq> L' \<Longrightarrow> in_order n out R' L'"
  by (induction out arbitrary: n) (auto split: option.splits)

lemma in_order_upt:
  "(\<And>i. n \<le> i \<Longrightarrow> i < n + k \<Longrightarrow> case a i of Some m \<Rightarrow> m \<in> R \<and> msg_get_id m = Some (of_nat i) | None \<Rightarrow> i \<in> L) \<Longrightarrow>
   in_order n (map a [n..<n + k]) R L"
  by (induction k) (simp_all add: in_order_append)

lemma rb_trace_passed:
  assumes tr: "rb_trace rb out R L Q" and inv': "rb_inv rb'" and p: "passed a l (rb_next rb) rb' k"
    and mono: "R \<subseteq> R'" "L \<subseteq> L'" "Q \<union> set rtx \<subseteq> Q'" and zero: "rb_next rb + k = 0 \<longrightarrow> R' = {}"
    and a: "\<And>n m. a n = Some m \<Longrightarrow> m \<in> R' \<and> msg_get_id m = Some (of_nat n)" and l: "\<And>n. l n \<Longrightarrow> n \<in> L'"
    and kept: "\<And>m i. m \<in> R' \<Longrightarrow> msg_get_id m = Some i \<Longrightarrow> unat i < rb_next rb \<or> a (unat i) \<noteq> None"
    and gaps: "gaps_requested rb rtx rb'"
  shows "rb_trace rb' (out @ map a [rb_next rb..<rb_next rb + k]) R' L' Q'"
proof -
  have p': "rb_next rb' = rb_next rb + k" "\<And>n. rb_at rb' n = (if n < rb_next rb + k then None else a n)"
      "\<And>n. rb_lost rb' n \<Longrightarrow> l n" "\<And>n. rb_next rb \<le> n \<Longrightarrow> n < rb_next rb + k \<Longrightarrow> a n \<noteq> None \<or> l n"
    using p unfolding passed_def by blast+
  have t: "length out \<le> rb_next rb" "in_order (rb_next rb - length out) out R L"
      "\<And>n. rb_next rb \<le> n \<Longrightarrow> n < rb_next rb + rb_span rb \<Longrightarrow> rb_at rb n = None \<Longrightarrow> of_nat n \<in> Q"
    using tr unfolding rb_trace_def by blast+
  have "in_order (rb_next rb) (map a [rb_next rb..<rb_next rb + k]) R' L'"
  proof (rule in_order_upt)
    fix i assume "rb_next rb \<le> i" "i < rb_next rb + k"
    then show "case a i of Some m \<Rightarrow> m \<in> R' \<and> msg_get_id m = Some (of_nat i) | None \<Rightarrow> i \<in> L'"
      using a [of i] l [of i] p'(4) [of i] by (cases "a i") auto
  qed
  then have order: "in_order (rb_next rb - length out) (out @ map a [rb_next rb..<rb_next rb + k]) R' L'"
    using in_order_mono [OF t(2) mono(1,2)] t(1) by (simp add: in_order_append)
  have gap: "of_nat n \<in> Q'" if "rb_next rb' \<le> n" "n < rb_next rb' + rb_span rb'" "rb_at rb' n = None" for n
    using gaps that t(3) mono(3) unfolding gaps_requested_def by blast
  have "unat i < rb_next rb' \<or> rb_at rb' (unat i) \<noteq> None" if "m \<in> R'" "msg_get_id m = Some i" for m i
    using kept [OF that] p'(1,2) by (cases "unat i < rb_next rb + k") auto
  then show ?thesis
    unfolding rb_trace_def using inv' zero p'(1) t(1) order p'(2,3) a l gap by (simp split: if_splits)
qed

fun op_received :: "rb_op \<Rightarrow> message set" where
  "op_received (Rb_Msg m) = {m}"
| "op_received _ = {}"

fun op_lost :: "rb_op \<Rightarrow> nat set" where
  "op_lost (Rb_Lost i) = {unat i}"
| "op_lost _ = {}"

definition op_ok :: "rb_op \<Rightarrow> bool" where
  "op_ok op \<longleftrightarrow> (\<forall>m\<in>op_received op. msg_get_id m \<noteq> None)"

definition exec_trace :: "receiver_buffer \<Rightarrow> message option list \<Rightarrow> message set \<Rightarrow> nat set \<Rightarrow> u32 set \<Rightarrow>
    ((message option list \<times> u32 list) \<times> receiver_buffer) option \<Rightarrow> bool" where
  "exec_trace rb out R L Q res \<longleftrightarrow> (\<exists>o' r rb'. res = Some ((o', r), rb') \<and> rb_trace rb' (out @ o') R L (Q \<union> set r))"

lemma passed_nothing:
  assumes "rb_next rb' = rb_next rb" "rb_at rb' = rb_at rb" "rb_lost rb' = rb_lost rb"
  shows "passed (rb_at rb) (rb_lost rb) (rb_next rb) rb' 0"
  using assms by (auto simp: passed_def)

lemma exec_unchanged:
  assumes tr: "rb_trace rb out R L Q" and "beaconed rb res"
    and R': "R \<subseteq> R'" "rb_next rb = 0 \<longrightarrow> R' = {}"
      "\<And>m i. m \<in> R' \<Longrightarrow> msg_get_id m = Some i \<Longrightarrow> unat i < rb_next rb \<or> rb_at rb (unat i) \<noteq> None"
  shows "exec_trace rb out R' L Q res"
proof -
  obtain rtx rb' where b: "res = Some (([], rtx), rb')" "rb_inv rb'" "rb_next rb' = rb_next rb"
      "rb_at rb' = rb_at rb" "rb_lost rb' = rb_lost rb" "gaps_requested rb rtx rb'"
    using assms(2) unfolding beaconed_def by blast
  note p = passed_nothing [OF b(3-5)]
  have "rb_trace rb' (out @ map (rb_at rb) [rb_next rb..<rb_next rb + 0]) R' L (Q \<union> set rtx)"
    by (rule rb_trace_passed [OF tr b(2) p _ _ _ _ _ _ _ b(6)]) (use R' tr in \<open>auto simp: rb_trace_def\<close>)
  then show ?thesis unfolding exec_trace_def b(1) by auto
qed

lemma exec_message:
  assumes tr: "rb_trace rb out R L Q" and i: "msg_get_id m = Some i"
  shows "exec_trace rb out (insert m R) L Q (on_received_message rb m)"
proof -
  have inv: "rb_inv rb" using tr by (simp add: rb_trace_def)
  have n: "unat i < 2 ^ 32" by simp
  have eq: "on_received_message rb m = internal_on_received_message rb (unat i) (Some m)"
    using i by (simp add: on_received_message_def)
  consider "rb_next rb = 0" | "rb_next rb \<noteq> 0" "unat i < rb_next rb \<or> rb_at rb (unat i) \<noteq> None"
    | "rb_next rb \<noteq> 0" "rb_next rb \<le> unat i" "rb_at rb (unat i) = None" by linarith
  then show ?thesis
  proof cases
    case 1
    then have empty: "rb_buffer rb = []" "R = {}" "out = []" using tr by (auto simp: rb_trace_def rb_inv_def)
    note e = receive_next_empty [OF inv n empty(1) refl]
    have "rb_trace (rb\<lparr>rb_last_sent := unat i\<rparr>) [Some m] {m} L Q"
      using tr i unfolding rb_trace_def e(2-5) by (simp add: e(1))
    then show ?thesis unfolding exec_trace_def eq receive_first [OF inv 1] empty by simp
  next
    case 2
    have "beaconed rb (on_received_message rb m)"
      unfolding eq receive_ignored [OF inv 2] by (rule beacon_unchanged [OF inv]) simp
    then show ?thesis using 2 i tr by (intro exec_unchanged [OF tr]) (auto simp: rb_trace_def)
  next
    case 3
    let ?a = "(rb_at rb)(unat i \<mapsto> m)"
    obtain k rtx rb' where r: "on_received_message rb m = Some ((map ?a [rb_next rb..<rb_next rb + k], rtx), rb')"
        "rb_inv rb'" "passed ?a (rb_lost rb) (rb_next rb) rb' k" "gaps_requested rb rtx rb'"
      using receive_spec [OF inv n 3, of m] unfolding eq received_def by blast
    have "rb_trace rb' (out @ map ?a [rb_next rb..<rb_next rb + k]) (insert m R) L (Q \<union> set rtx)"
      by (rule rb_trace_passed [OF tr r(2,3) _ _ _ _ _ _ _ r(4)]) (use 3 i tr in \<open>auto simp: rb_trace_def split: if_splits\<close>)
    then show ?thesis unfolding exec_trace_def r(1) by blast
  qed
qed

lemma exec_lost:
  assumes tr: "rb_trace rb out R L Q"
  shows "exec_trace rb out R (insert (unat i) L) Q (rb_exec rb (Rb_Lost i))"
proof -
  let ?rb = "rb\<lparr>rb_lost_msgs := hs_insert (=) (unat i) (rb_lost_msgs rb)\<rparr>"
  have same: "rb_next ?rb = rb_next rb" "rb_span ?rb = rb_span rb" "rb_at ?rb = rb_at rb"
    by (auto simp: rb_next_def rb_span_def rb_at_def fun_eq_iff)
  have lost: "rb_lost ?rb n \<longleftrightarrow> n = unat i \<or> rb_lost rb n" for n by (auto simp: rb_lost_def)
  have inv: "rb_inv rb" using tr by (simp add: rb_trace_def)
  then have ok: "rb_ok ?rb" unfolding rb_inv_def rb_ok_def same lost by auto
  obtain k rb' where k: "release_msgs ?rb = (map (rb_at rb) [rb_next rb..<rb_next rb + k], rb')"
      "released ?rb rb' k" "rb_inv rb'"
    using release_msgs_spec [OF ok] inv unfolding same by (auto simp: rb_inv_def)
  have p: "passed (rb_at rb) (rb_lost ?rb) (rb_next rb) rb' k" using released_passed [OF k(2)] unfolding same .
  have "rb_span rb' = 0 \<or> rb_next rb' + rb_span rb' \<le> rb_next rb + rb_span rb"
    using k(2) unfolding released_def same by blast
  then have g: "gaps_requested rb [] rb'"
    using p unfolding gaps_requested_def passed_def by (auto split: if_splits)
  have "rb_trace rb' (out @ map (rb_at rb) [rb_next rb..<rb_next rb + k]) R (insert (unat i) L) (Q \<union> set [])"
    by (rule rb_trace_passed [OF tr k(3) p _ _ _ _ _ _ _ g]) (use tr lost in \<open>auto simp: rb_trace_def\<close>)
  then show ?thesis unfolding exec_trace_def by (simp add: on_lost_message_def k(1))
qed

lemma exec_op:
  assumes tr: "rb_trace rb out R L Q" and "op_ok op"
  shows "exec_trace rb out (R \<union> op_received op) (L \<union> op_lost op) Q (rb_exec rb op)"
proof (cases op)
  case (Rb_Msg m)
  then show ?thesis using assms exec_message [OF tr] by (auto simp: op_ok_def)
next
  case (Rb_Beacon i)
  have inv: "rb_inv rb" using tr by (simp add: rb_trace_def)
  have "beaconed rb (internal_on_received_message rb (unat i) None)" by (rule beacon_spec [OF inv]) simp
  then have "beaconed rb (rb_exec rb op)"
    unfolding beaconed_def Rb_Beacon by (auto simp: on_beacon_message_def)
  then have "exec_trace rb out R L Q (rb_exec rb op)"
    using tr by (intro exec_unchanged [OF tr]) (auto simp: rb_trace_def)
  then show ?thesis by (simp add: Rb_Beacon)
next
  case (Rb_Lost i)
  then show ?thesis using exec_lost [OF tr, of i] by simp
qed

lemma run_trace:
  assumes "rb_trace rb out R L Q" and "\<forall>op\<in>set ops. op_ok op"
  shows "\<exists>o' rtx rb'. rb_run rb ops = Some ((o', rtx), rb') \<and>
    rb_trace rb' (out @ o') (R \<union> \<Union>(op_received ` set ops)) (L \<union> \<Union>(op_lost ` set ops)) (Q \<union> set rtx)"
  using assms
proof (induction ops arbitrary: rb out R L Q)
  case (Cons op ops)
  obtain o' r rb' where e: "rb_exec rb op = Some ((o', r), rb')"
      "rb_trace rb' (out @ o') (R \<union> op_received op) (L \<union> op_lost op) (Q \<union> set r)"
    using exec_op [OF Cons.prems(1), of op] Cons.prems(2) unfolding exec_trace_def by auto
  show ?case using Cons.IH [OF e(2)] Cons.prems(2) e(1) by (auto simp: Un_assoc)
qed simp

lemma rb_trace_default: "rb_trace receiver_buffer_default [] {} {} {}"
proof -
  have "rb_next receiver_buffer_default = 0" "rb_span receiver_buffer_default = 0" "\<And>n. \<not> rb_lost receiver_buffer_default n"
    by (simp_all add: receiver_buffer_default_def rb_next_def rb_span_def rb_lost_def usize_add_def)
  then show ?thesis using rb_at_empty [of receiver_buffer_default]
    unfolding rb_trace_def rb_inv_def rb_ok_def by (simp add: receiver_buffer_default_def)
qed

section \<open>Pending requests\<close>

text \<open>
  A caller keeps a set of pending requests: it adds what an operation asks for and removes what was
  answered or given up. Every gap then is pending or already known to be lost, and the message the
  application waits for is pending.
\<close>

definition gaps_covered :: "receiver_buffer \<Rightarrow> u32 set \<Rightarrow> bool" where
  "gaps_covered rb P \<longleftrightarrow> (\<forall>n. rb_next rb \<le> n \<longrightarrow> n < rb_next rb + rb_span rb \<longrightarrow> rb_at rb n = None \<longrightarrow>
     of_nat n \<in> P \<or> rb_lost rb n \<and> n \<noteq> rb_next rb)"

definition rb_msgs :: "receiver_buffer \<Rightarrow> message set" where
  "rb_msgs rb = {m. \<exists>n. rb_at rb n = Some m}"

fun op_settles :: "rb_op \<Rightarrow> u32 set" where
  "op_settles (Rb_Msg m) = {i. msg_get_id m = Some i}"
| "op_settles (Rb_Lost i) = {i}"
| "op_settles (Rb_Beacon _) = {}"

definition exec_covered :: "receiver_buffer \<Rightarrow> u32 set \<Rightarrow> rb_op \<Rightarrow> ((message option list \<times> u32 list) \<times> receiver_buffer) option \<Rightarrow> bool" where
  "exec_covered rb P op res \<longleftrightarrow> (\<exists>out rtx rb'. res = Some ((out, rtx), rb') \<and> rb_inv rb' \<and>
     gaps_covered rb' (P - op_settles op \<union> set rtx) \<and>
     rb_msgs rb' \<union> {m. Some m \<in> set out} \<subseteq> rb_msgs rb \<union> op_received op)"

lemma covered_passed:
  assumes cov: "gaps_covered rb P" and p: "passed a l (rb_next rb) rb' k" and g: "gaps_requested rb rtx rb'"
    and l: "\<And>n. rb_lost rb n \<Longrightarrow> l n" and stop: "0 < k \<Longrightarrow> rb_span rb' = 0 \<or> \<not> rb_lost rb' (rb_next rb')"
    and Z: "\<And>n. of_nat n \<in> Z \<Longrightarrow> rb_next rb' \<le> n \<Longrightarrow> n < rb_next rb' + rb_span rb' \<Longrightarrow> rb_at rb' n = None \<Longrightarrow>
      rb_lost rb' n \<and> n \<noteq> rb_next rb'"
  shows "gaps_covered rb' (P - Z \<union> set rtx)"
  unfolding gaps_covered_def
proof (intro allI impI)
  fix j assume j: "rb_next rb' \<le> j" "j < rb_next rb' + rb_span rb'" "rb_at rb' j = None"
  have p': "rb_next rb' = rb_next rb + k" "l j \<Longrightarrow> rb_lost rb' j" using p j(1) by (auto simp: passed_def)
  consider "of_nat j \<in> set rtx" | "of_nat j \<in> Z" | "of_nat j \<in> P" | "rb_lost rb j" "j \<noteq> rb_next rb"
    using g j cov unfolding gaps_requested_def gaps_covered_def by blast
  then show "of_nat j \<in> P - Z \<union> set rtx \<or> rb_lost rb' j \<and> j \<noteq> rb_next rb'"
  proof cases
    case 2
    then show ?thesis using Z j by blast
  next
    case 3
    then show ?thesis using Z [OF _ j] by blast
  next
    case 4
    then have "rb_lost rb' j" using p'(2) l by blast
    moreover have "j \<noteq> rb_next rb'" using 4 p'(1) stop j(2) \<open>rb_lost rb' j\<close> by (cases "k = 0") auto
    ultimately show ?thesis by blast
  qed blast
qed

lemma rb_msgs_passed:
  assumes "passed a l N rb' k" and "\<And>n m. a n = Some m \<Longrightarrow> m \<in> M"
  shows "rb_msgs rb' \<union> {m. Some m \<in> set (map a [N..<N + k])} \<subseteq> M"
proof -
  have "rb_msgs rb' \<subseteq> M" using assms by (auto simp: passed_def rb_msgs_def split: if_splits)
  moreover have "{m. Some m \<in> set (map a [N..<N + k])} \<subseteq> M"
  proof
    fix m assume "m \<in> {m. Some m \<in> set (map a [N..<N + k])}"
    then obtain n where "a n = Some m" by (auto simp del: set_upt dest: sym)
    then show "m \<in> M" using assms(2) by blast
  qed
  ultimately show ?thesis by blast
qed

lemma covered_unchanged:
  assumes cov: "gaps_covered rb P" and b: "beaconed rb res"
    and Z: "\<And>n. of_nat n \<in> op_settles op \<Longrightarrow> rb_next rb \<le> n \<Longrightarrow> n < 2 ^ 32 \<Longrightarrow> rb_at rb n \<noteq> None"
  shows "exec_covered rb P op res"
proof -
  obtain rtx rb' where b: "res = Some (([], rtx), rb')" "rb_inv rb'" "rb_next rb' = rb_next rb"
      "rb_at rb' = rb_at rb" "rb_lost rb' = rb_lost rb" "gaps_requested rb rtx rb'"
    using b unfolding beaconed_def by blast
  have top: "rb_next rb' + rb_span rb' \<le> 2 ^ 32" using b(2) unfolding rb_inv_def rb_ok_def by blast
  have "gaps_covered rb' (P - op_settles op \<union> set rtx)"
  proof (rule covered_passed [OF cov passed_nothing [OF b(3-5)] b(6)])
    fix n assume "of_nat n \<in> op_settles op" "rb_next rb' \<le> n" "n < rb_next rb' + rb_span rb'" "rb_at rb' n = None"
    then show "rb_lost rb' n \<and> n \<noteq> rb_next rb'" using Z [of n] b(3,4) top by auto
  qed simp_all
  then show ?thesis unfolding exec_covered_def using b by (auto simp: rb_msgs_def)
qed

lemma covered_message:
  assumes inv: "rb_inv rb" and cov: "gaps_covered rb P" and i: "msg_get_id m = Some i"
  shows "exec_covered rb P (Rb_Msg m) (on_received_message rb m)"
proof -
  have n: "unat i < 2 ^ 32" by simp
  have eq: "on_received_message rb m = internal_on_received_message rb (unat i) (Some m)"
    using i by (simp add: on_received_message_def)
  have nat_i: "j = unat i" if "of_nat j = i" "j < 2 ^ 32" for j using that(1) unat_of_nat_u32 [OF that(2)] by simp
  consider "rb_next rb = 0" | "rb_next rb \<noteq> 0" "unat i < rb_next rb \<or> rb_at rb (unat i) \<noteq> None"
    | "rb_next rb \<noteq> 0" "rb_next rb \<le> unat i" "rb_at rb (unat i) = None" by linarith
  then show ?thesis
  proof cases
    case 1
    then have empty: "rb_buffer rb = []" using inv by (simp add: rb_inv_def)
    note e = receive_next_empty [OF inv n empty refl]
    show ?thesis unfolding exec_covered_def eq receive_first [OF inv 1] gaps_covered_def e(5) rb_msgs_def
      using e(1,3) by (auto simp: e)
  next
    case 2
    have "beaconed rb (on_received_message rb m)"
      unfolding eq receive_ignored [OF inv 2] by (rule beacon_unchanged [OF inv]) simp
    then show ?thesis by (rule covered_unchanged [OF cov]) (use 2 i nat_i in auto)
  next
    case 3
    let ?a = "(rb_at rb)(unat i \<mapsto> m)"
    obtain k rtx rb' where r: "on_received_message rb m = Some ((map ?a [rb_next rb..<rb_next rb + k], rtx), rb')"
        "rb_inv rb'" "passed ?a (rb_lost rb) (rb_next rb) rb' k" "gaps_requested rb rtx rb'"
        "0 < k \<longrightarrow> rb_span rb' = 0 \<or> \<not> rb_lost rb' (rb_next rb')"
      using receive_spec [OF inv n 3, of m] unfolding eq received_def by blast
    have top: "rb_next rb' + rb_span rb' \<le> 2 ^ 32" using r(2) unfolding rb_inv_def rb_ok_def by blast
    have "gaps_covered rb' (P - op_settles (Rb_Msg m) \<union> set rtx)"
    proof (rule covered_passed [OF cov r(3,4)])
      fix j assume j: "of_nat j \<in> op_settles (Rb_Msg m)" "rb_next rb' \<le> j" "j < rb_next rb' + rb_span rb'" "rb_at rb' j = None"
      then have "j = unat i" using nat_i i top by simp
      then show "rb_lost rb' j \<and> j \<noteq> rb_next rb'" using j(2,4) r(3) by (auto simp: passed_def split: if_splits)
    qed (use r(5) in auto)
    moreover have "rb_msgs rb' \<union> {m. Some m \<in> set (map ?a [rb_next rb..<rb_next rb + k])} \<subseteq> rb_msgs rb \<union> {m}"
      by (rule rb_msgs_passed [OF r(3)]) (auto simp: rb_msgs_def split: if_splits)
    ultimately show ?thesis unfolding exec_covered_def using r(1,2) by auto
  qed
qed

lemma covered_lost:
  assumes inv: "rb_inv rb" and cov: "gaps_covered rb P"
  shows "exec_covered rb P (Rb_Lost i) (rb_exec rb (Rb_Lost i))"
proof -
  let ?rb = "rb\<lparr>rb_lost_msgs := hs_insert (=) (unat i) (rb_lost_msgs rb)\<rparr>"
  have same: "rb_next ?rb = rb_next rb" "rb_span ?rb = rb_span rb" "rb_at ?rb = rb_at rb"
    by (auto simp: rb_next_def rb_span_def rb_at_def fun_eq_iff)
  have lost: "rb_lost ?rb n \<longleftrightarrow> n = unat i \<or> rb_lost rb n" for n by (auto simp: rb_lost_def)
  have ok: "rb_ok ?rb" using inv unfolding rb_inv_def rb_ok_def same lost by auto
  obtain k rb' where k: "release_msgs ?rb = (map (rb_at rb) [rb_next rb..<rb_next rb + k], rb')"
      "released ?rb rb' k" "rb_inv rb'" "\<not> rb_lost rb' (rb_next rb')"
    using release_msgs_spec [OF ok] inv unfolding same by (auto simp: rb_inv_def)
  have p: "passed (rb_at rb) (rb_lost ?rb) (rb_next rb) rb' k" using released_passed [OF k(2)] unfolding same .
  have "rb_span rb' = 0 \<or> rb_next rb' + rb_span rb' \<le> rb_next rb + rb_span rb"
    using k(2) unfolding released_def same by blast
  then have g: "gaps_requested rb [] rb'"
    using p unfolding gaps_requested_def passed_def by (auto split: if_splits)
  have top: "rb_next rb' + rb_span rb' \<le> 2 ^ 32" using k(3) unfolding rb_inv_def rb_ok_def by blast
  have "gaps_covered rb' (P - {i} \<union> set [])"
  proof (rule covered_passed [OF cov p g])
    fix j assume j: "of_nat j \<in> {i}" "rb_next rb' \<le> j" "j < rb_next rb' + rb_span rb'" "rb_at rb' j = None"
    then have "j = unat i" using unat_of_nat_u32 [of j] top by auto
    then have "rb_lost rb' j" using p lost j(2) by (auto simp: passed_def)
    then show "rb_lost rb' j \<and> j \<noteq> rb_next rb'" using k(4) by blast
  qed (use lost k(4) in auto)
  moreover have "rb_msgs rb' \<union> {m. Some m \<in> set (map (rb_at rb) [rb_next rb..<rb_next rb + k])} \<subseteq> rb_msgs rb"
    by (rule rb_msgs_passed [OF p]) (auto simp: rb_msgs_def)
  ultimately show ?thesis unfolding exec_covered_def using k(1,3) by (simp add: on_lost_message_def)
qed

lemma covered_op:
  assumes "rb_inv rb" and "gaps_covered rb P" and "op_ok op"
  shows "exec_covered rb P op (rb_exec rb op)"
proof (cases op)
  case (Rb_Msg m)
  then show ?thesis using assms covered_message [OF assms(1,2)] by (auto simp: op_ok_def)
next
  case (Rb_Beacon i)
  have "beaconed rb (internal_on_received_message rb (unat i) None)" by (rule beacon_spec [OF assms(1)]) simp
  then have "beaconed rb (rb_exec rb op)"
    unfolding beaconed_def Rb_Beacon by (auto simp: on_beacon_message_def)
  then show ?thesis by (rule covered_unchanged [OF assms(2)]) (simp add: Rb_Beacon)
next
  case (Rb_Lost i)
  then show ?thesis using covered_lost [OF assms(1,2)] by simp
qed

lemma covered_default: "rb_inv receiver_buffer_default" "gaps_covered receiver_buffer_default P" "rb_msgs receiver_buffer_default = {}"
  using rb_trace_default rb_at_empty [of receiver_buffer_default]
  by (auto simp: rb_trace_def gaps_covered_def rb_msgs_def receiver_buffer_default_def rb_span_def)

section \<open>Properties of the receiver buffer\<close>

text \<open>
  C3: whatever messages, beacons and loss notices arrive and in whatever order, the buffer never
  panics and hands the application one entry per identifier, consecutively from some first one: a
  received message with that identifier, or a marker if that identifier was declared lost. So no
  message is handed over twice or out of order. A received message with a later identifier waits
  in the buffer and is not dropped, and every gap of the buffer was requested again.
\<close>

theorem stream_delivered_in_order:
  assumes "\<forall>op\<in>set ops. op_ok op"
  shows "\<exists>out rtx rb start. rb_run receiver_buffer_default ops = Some ((out, rtx), rb) \<and>
    in_order start out (\<Union>(op_received ` set ops)) (\<Union>(op_lost ` set ops)) \<and>
    rb_next rb = start + length out \<and>
    (\<forall>m\<in>\<Union>(op_received ` set ops). \<forall>i. msg_get_id m = Some i \<longrightarrow>
       unat i < start + length out \<or> (\<exists>m'. rb_at rb (unat i) = Some m' \<and> msg_get_id m' = Some i)) \<and>
    (\<forall>n. rb_next rb \<le> n \<longrightarrow> n < rb_next rb + rb_span rb \<longrightarrow> rb_at rb n = None \<longrightarrow> of_nat n \<in> set rtx)"
proof -
  obtain out rtx rb where run: "rb_run receiver_buffer_default ops = Some ((out, rtx), rb)"
      "rb_trace rb ([] @ out) ({} \<union> \<Union>(op_received ` set ops)) ({} \<union> \<Union>(op_lost ` set ops)) ({} \<union> set rtx)"
    using run_trace [OF rb_trace_default assms] by blast
  let ?R = "\<Union>(op_received ` set ops)"
  have t: "length out \<le> rb_next rb" "in_order (rb_next rb - length out) out ?R (\<Union>(op_lost ` set ops))"
      "\<forall>n m. rb_at rb n = Some m \<longrightarrow> m \<in> ?R \<and> msg_get_id m = Some (of_nat n)"
      "\<forall>m\<in>?R. \<forall>i. msg_get_id m = Some i \<longrightarrow> unat i < rb_next rb \<or> rb_at rb (unat i) \<noteq> None"
      "\<forall>n. rb_next rb \<le> n \<longrightarrow> n < rb_next rb + rb_span rb \<longrightarrow> rb_at rb n = None \<longrightarrow> of_nat n \<in> set rtx"
    using run(2) unfolding rb_trace_def append_Nil Un_empty_left by - (elim conjE, assumption)+
  have start: "rb_next rb = (rb_next rb - length out) + length out" using t(1) by simp
  have kept: "unat i < rb_next rb \<or> (\<exists>m'. rb_at rb (unat i) = Some m' \<and> msg_get_id m' = Some i)"
    if "m \<in> ?R" "msg_get_id m = Some i" for m i
  proof (cases "rb_at rb (unat i)")
    case None
    then show ?thesis using t(4) that by blast
  next
    case (Some m')
    then have "msg_get_id m' = Some (of_nat (unat i))" using t(3) by blast
    then show ?thesis using Some by simp
  qed
  show ?thesis
    using run(1) t(2,5) start kept
    by (intro exI [of _ out] exI [of _ rtx] exI [of _ rb] exI [of _ "rb_next rb - length out"]) simp
qed

definition stream_msg :: "u32 \<Rightarrow> message" where
  "stream_msg i = new_publish_with_headers (Some (slim_header_new sample_source sample_type None None))
     (Some (session_header_new 0 1 i)) ''text'' []"

lemma stream_msg_id [simp]: "msg_get_id (stream_msg i) = Some i"
  by (simp add: stream_msg_def new_publish_with_headers_def publish_with_header_def message_new_def session_header_new_def
      msg_get_id_def get_session_header_def)

theorem stream_delivered_in_order_witness:
  "\<exists>out rtx rb start. rb_run receiver_buffer_default
       [Rb_Msg (stream_msg 4), Rb_Msg (stream_msg 7), Rb_Msg (stream_msg 5), Rb_Lost 6] = Some ((out, rtx), rb) \<and>
     in_order start out {stream_msg 4, stream_msg 7, stream_msg 5} {6}"
  using stream_delivered_in_order [of "[Rb_Msg (stream_msg 4), Rb_Msg (stream_msg 7), Rb_Msg (stream_msg 5), Rb_Lost 6]"]
  by (auto simp: op_ok_def insert_commute)

text \<open>
  C18: when the message that the stream waits for arrives, it is handed over at once together with
  every message behind it up to the next gap: afterwards the next identifier is not in the buffer.
\<close>

theorem expected_message_released:
  assumes "rb_inv rb" and "rb_next rb \<noteq> 0" and "msg_get_id m = Some i" and "unat i = rb_next rb"
  shows "\<exists>k rtx rb'. on_received_message rb m =
      Some ((map ((rb_at rb)(rb_next rb \<mapsto> m)) [rb_next rb..<rb_next rb + k], rtx), rb') \<and>
    0 < k \<and> rb_next rb' = rb_next rb + k \<and> rb_inv rb' \<and> rb_at rb' (rb_next rb + k) = None \<and>
    (\<forall>n. rb_next rb + k \<le> n \<longrightarrow> rb_at rb' n = rb_at rb n)"
proof -
  have n: "unat i < 2 ^ 32" by simp
  have fresh: "rb_next rb \<le> unat i" "rb_at rb (unat i) = None" using assms(1,4) by (simp_all add: rb_inv_def)
  obtain k rtx rb' where k: "internal_on_received_message rb (unat i) (Some m) =
        Some ((map ((rb_at rb)(unat i \<mapsto> m)) [rb_next rb..<rb_next rb + k], rtx), rb')" "rb_inv rb'"
      "passed ((rb_at rb)(unat i \<mapsto> m)) (rb_lost rb) (rb_next rb) rb' k" "0 < k"
    using receive_spec [OF assms(1) n assms(2) fresh, of m] assms(4) unfolding received_def by blast
  have p: "rb_next rb' = rb_next rb + k" "\<And>n. rb_at rb' n = (if n < rb_next rb + k then None else ((rb_at rb)(unat i \<mapsto> m)) n)"
    using k(3) unfolding passed_def by blast+
  have "rb_at rb' (rb_next rb + k) = None" using k(2) p(1) by (simp add: rb_inv_def)
  moreover have "\<forall>n. rb_next rb + k \<le> n \<longrightarrow> rb_at rb' n = rb_at rb n" using p(2) k(4) assms(4) by auto
  ultimately show ?thesis using k(1,2,4) p(1) assms(3,4)
    by (intro exI [of _ k] exI [of _ rtx] exI [of _ rb']) (simp add: on_received_message_def)
qed

theorem expected_message_released_witness:
  "\<exists>k rtx rb'. on_received_message (receiver_buffer_default\<lparr>rb_last_sent := 4\<rparr>) (stream_msg 5) =
     Some ((map (Map.empty(5 \<mapsto> stream_msg 5)) [5..<5 + k], rtx), rb') \<and> 0 < k"
proof -
  have d: "rb_inv receiver_buffer_default" using rb_trace_default by (simp add: rb_trace_def)
  have "rb_buffer receiver_buffer_default = []" by (simp add: receiver_buffer_default_def)
  note e = receive_next_empty [OF d _ this refl, of 4]
  have "rb_at (receiver_buffer_default\<lparr>rb_last_sent := 4\<rparr>) = Map.empty" using e(4) by (simp add: fun_eq_iff)
  then show ?thesis
    using expected_message_released [OF e(1), of "stream_msg 5" 5] e(2) by fastforce
qed

end
