(* ===== verification/Producer_Buffer.thy ===== *)
theory Producer_Buffer
  imports Messages
begin

text \<open>
  The producer buffer of \<^verbatim>\<open>service/src/producer_buffer.rs\<close>: a ring of the messages sent last,
  with a map from message identifiers to positions, from which retransmission requests are
  answered. Its contents, oldest first, are a window over the messages pushed.
\<close>

record producer_buffer =
  pb_capacity :: usize
  pb_next :: usize
  pb_buffer :: "message option list"
  pb_map :: "(usize, usize) hmap"
  pb_destination_name :: agent_type
  pb_destination_id :: "u64 option"

definition producer_buffer_with_capacity :: "usize \<Rightarrow> producer_buffer" where
  "producer_buffer_with_capacity capacity = \<lparr>
     pb_capacity = capacity, pb_next = 0, pb_buffer = replicate capacity None, pb_map = [],
     pb_destination_name = agent_type_default, pb_destination_id = None\<rparr>"

definition pb_push :: "(u8 list \<Rightarrow> u64) \<Rightarrow> producer_buffer \<Rightarrow> message \<Rightarrow> (bool \<times> producer_buffer) option" where
  "pb_push xx pb msg = do {
     pb \<leftarrow> (if pb_map pb = []
        then do {
          (name, i) \<leftarrow> msg_get_name xx msg;
          Some (pb\<lparr>pb_destination_name := name, pb_destination_id := i\<rparr>)
        }
        else Some pb);
     i \<leftarrow> msg_get_id msg;
     let msg_id = unat i;
     if hm_contains (=) msg_id (pb_map pb) then Some (True, pb)
     else if length (pb_buffer pb) \<le> pb_next pb then None
     else do {
       map1 \<leftarrow> (case pb_buffer pb ! pb_next pb of
           Some message \<Rightarrow> do {
             to_remove \<leftarrow> msg_get_id message;
             Some (hm_remove (=) (unat to_remove) (pb_map pb))
           }
         | None \<Rightarrow> Some (pb_map pb));
       Some (True, pb\<lparr>
         pb_buffer := (pb_buffer pb)[pb_next pb := Some msg],
         pb_map := hm_insert (=) msg_id (pb_next pb) map1,
         pb_next := (pb_next pb + 1) mod pb_capacity pb\<rparr>)
     }
   }"

definition pb_clear :: "producer_buffer \<Rightarrow> producer_buffer" where
  "pb_clear pb = pb\<lparr>pb_buffer := replicate (pb_capacity pb) None, pb_next := 0, pb_map := []\<rparr>"

text \<open>An index out of range would panic.\<close>

definition pb_get :: "producer_buffer \<Rightarrow> usize \<Rightarrow> message option option" where
  "pb_get pb msg_id =
     (case hm_get (=) msg_id (pb_map pb) of
        None \<Rightarrow> Some None
      | Some index \<Rightarrow> if index < length (pb_buffer pb) then Some (pb_buffer pb ! index) else None)"

section \<open>The window\<close>

definition pb_ring :: "producer_buffer \<Rightarrow> message option list" where
  "pb_ring pb = drop (pb_next pb) (pb_buffer pb) @ take (pb_next pb) (pb_buffer pb)"

definition pb_contents :: "producer_buffer \<Rightarrow> message list" where
  "pb_contents pb = List.map_filter id (pb_ring pb)"

definition has_id :: "nat \<Rightarrow> message \<Rightarrow> bool" where
  "has_id n m \<longleftrightarrow> map_option unat (msg_get_id m) = Some n"

definition pb_inv :: "producer_buffer \<Rightarrow> bool" where
  "pb_inv pb \<longleftrightarrow> length (pb_buffer pb) = pb_capacity pb \<and> pb_next pb < pb_capacity pb \<and>
     pb_ring pb = replicate (pb_capacity pb - length (pb_contents pb)) None @ map Some (pb_contents pb) \<and>
     (\<forall>m\<in>set (pb_contents pb). msg_get_id m \<noteq> None) \<and>
     (\<forall>n i. hm_get (=) n (pb_map pb) = Some i \<longleftrightarrow>
        i < pb_capacity pb \<and> (\<exists>m. pb_buffer pb ! i = Some m \<and> has_id n m))"

text \<open>What pushing a message does to the window.\<close>

definition window_push :: "nat \<Rightarrow> message list \<Rightarrow> message \<Rightarrow> message list" where
  "window_push cap ms m =
     (if \<exists>m'\<in>set ms. msg_get_id m' = msg_get_id m then ms
      else (if length ms < cap then ms else tl ms) @ [m])"

lemma map_filter_id_append: "List.map_filter id (xs @ ys) = List.map_filter id xs @ List.map_filter id ys"
  by (simp add: List.map_filter_def)

lemma map_filter_id_Some [simp]: "List.map_filter id (map Some xs) = xs"
  by (simp add: List.map_filter_def comp_def)

lemma map_filter_id_None [simp]: "List.map_filter id (replicate n None) = []"
  by (simp add: List.map_filter_def)

lemma length_map_filter_id: "length (List.map_filter id xs) \<le> length xs"
  by (simp add: List.map_filter_def)

lemma pb_contents_bound: "length (pb_contents pb) \<le> length (pb_buffer pb)"
  using length_map_filter_id [of "pb_ring pb"] by (simp add: pb_contents_def pb_ring_def)

lemma set_pb_ring: "set (pb_ring pb) = set (pb_buffer pb)"
  unfolding pb_ring_def by (metis Un_commute append_take_drop_id set_append)

lemma set_pb_contents: "m \<in> set (pb_contents pb) \<longleftrightarrow> (\<exists>i<length (pb_buffer pb). pb_buffer pb ! i = Some m)"
proof -
  have "m \<in> set (pb_contents pb) \<longleftrightarrow> Some m \<in> set (pb_ring pb)"
    by (auto simp: pb_contents_def List.map_filter_def image_iff)
  then show ?thesis by (simp add: set_pb_ring in_set_conv_nth)
qed

text \<open>Writing at the position \<open>next\<close> and moving on drops the head of the ring and appends.\<close>

lemma ring_write:
  assumes "n < length xs" and "n' = (n + 1) mod length xs"
  shows "drop n' (xs[n := v]) @ take n' (xs[n := v]) = tl (drop n xs @ take n xs) @ [v]"
proof (cases "n + 1 = length xs")
  case True
  then have "n' = 0" "drop n xs = [xs ! n]" using assms Cons_nth_drop_Suc [of n xs] by auto
  then show ?thesis using True assms(1) by (simp add: list_update_append1 upd_conv_take_nth_drop)
next
  case False
  then have "n' = Suc n" using assms by simp
  then show ?thesis using assms(1) False
    by (simp add: take_Suc_conv_app_nth) (metis Cons_nth_drop_Suc list.sel(3) append_Cons)
qed

lemma has_id_unat: "has_id (unat i) m \<longleftrightarrow> msg_get_id m = Some i"
  by (auto simp: has_id_def intro: unsigned_word_eqI)

lemma pb_map_iff:
  assumes inv: "pb_inv pb" and i: "msg_get_id m = Some i"
  shows "hm_contains (=) (unat i) (pb_map pb) \<longleftrightarrow> (\<exists>m'\<in>set (pb_contents pb). msg_get_id m' = msg_get_id m)"
proof -
  have "hm_contains (=) (unat i) (pb_map pb) \<longleftrightarrow> (\<exists>j<pb_capacity pb. \<exists>m'. pb_buffer pb ! j = Some m' \<and> msg_get_id m' = Some i)"
    using inv by (auto simp: pb_inv_def hm_contains_def has_id_unat)
  moreover have "length (pb_buffer pb) = pb_capacity pb" using inv by (simp add: pb_inv_def)
  ultimately show ?thesis using i unfolding set_pb_contents Bex_def by auto
qed

text \<open>The map after the entry at \<open>next\<close> was replaced.\<close>

lemma replaced_map:
  assumes map: "\<And>n j. hm_get (=) n mp = Some j \<longleftrightarrow> j < length buf \<and> (\<exists>m. buf ! j = Some m \<and> has_id n m)"
    and nx: "nx < length buf" and new: "has_id k m" "hm_get (=) k mp = None"
    and mp1: "mp1 = (case buf ! nx of Some old \<Rightarrow> hm_remove (=) (the (map_option unat (msg_get_id old))) mp | None \<Rightarrow> mp)"
    and ids: "\<And>old. buf ! nx = Some old \<Longrightarrow> msg_get_id old \<noteq> None"
  shows "hm_get (=) n (hm_insert (=) k nx mp1) = Some j \<longleftrightarrow>
    j < length (buf[nx := Some m]) \<and> (\<exists>m'. buf[nx := Some m] ! j = Some m' \<and> has_id n m')"
proof -
  have uniq: "has_id n a \<Longrightarrow> has_id n' a \<Longrightarrow> n = n'" for n n' a by (auto simp: has_id_def)
  have mp1': "hm_get (=) n mp1 = Some j \<longleftrightarrow> j < length buf \<and> j \<noteq> nx \<and> (\<exists>m. buf ! j = Some m \<and> has_id n m)" for n j
  proof (cases "buf ! nx")
    case None
    then show ?thesis using map mp1 by auto
  next
    case (Some old)
    then obtain o' where o': "has_id o' old" "mp1 = hm_remove (=) o' mp"
      using ids mp1 by (auto simp: has_id_def)
    have "hm_get (=) o' mp = Some nx" using map nx Some o'(1) by blast
    then have "n \<noteq> o' \<and> j < length buf \<and> (\<exists>m. buf ! j = Some m \<and> has_id n m) \<longleftrightarrow>
        j < length buf \<and> j \<noteq> nx \<and> (\<exists>m. buf ! j = Some m \<and> has_id n m)"
      using map [of o'] Some o'(1) uniq by (metis option.inject)
    then show ?thesis using o'(2) map by auto
  qed
  show ?thesis
  proof (cases "n = k")
    case True
    have "\<not> (\<exists>m'. buf ! j = Some m' \<and> has_id k m')" if "j < length buf" for j using map [of k] new(2) that by auto
    then show ?thesis using True nx new(1) by (auto simp: nth_list_update)
  next
    case False
    then show ?thesis using nx new(1) uniq mp1' by (auto simp: nth_list_update)
  qed
qed

lemma pb_dest_frame [simp]:
  "pb_contents (pb\<lparr>pb_destination_name := t, pb_destination_id := i\<rparr>) = pb_contents pb"
  "pb_inv (pb\<lparr>pb_destination_name := t, pb_destination_id := i\<rparr>) = pb_inv pb"
  by (simp_all add: pb_contents_def pb_ring_def pb_inv_def)

lemma window_ring:
  assumes ring: "ring = replicate (cap - length xs) None @ map Some xs" and "length xs \<le> cap" "0 < cap"
    and ys: "ys = (if length xs < cap then xs else tl xs) @ [m]"
  shows "tl ring @ [Some m] = replicate (cap - length ys) None @ map Some ys" "length ys \<le> cap"
proof -
  have "tl ring @ [Some m] = replicate (cap - length ys) None @ map Some ys \<and> length ys \<le> cap"
  proof (cases "length xs < cap")
    case True
    then have "tl ring = replicate (cap - length xs - 1) None @ map Some xs"
      using ring by (cases "cap - length xs") auto
    then show ?thesis using True ys by simp
  next
    case False
    then have "length xs = cap" "xs \<noteq> []" using assms(2,3) by auto
    then show ?thesis using ring ys assms(3) by (simp add: map_tl)
  qed
  then show "tl ring @ [Some m] = replicate (cap - length ys) None @ map Some ys" "length ys \<le> cap" by auto
qed

lemma pb_push_new:
  assumes inv: "pb_inv pb" and i: "msg_get_id m = Some i" and new: "\<not> hm_contains (=) (unat i) (pb_map pb)"
    and mp1: "mp1 = (case pb_buffer pb ! pb_next pb of
        Some old \<Rightarrow> hm_remove (=) (the (map_option unat (msg_get_id old))) (pb_map pb) | None \<Rightarrow> pb_map pb)"
    and pb': "pb' = pb\<lparr>pb_buffer := (pb_buffer pb)[pb_next pb := Some m],
         pb_map := hm_insert (=) (unat i) (pb_next pb) mp1, pb_next := (pb_next pb + 1) mod pb_capacity pb\<rparr>"
  shows "pb_inv pb'" "pb_contents pb' = window_push (pb_capacity pb) (pb_contents pb) m"
proof -
  let ?xs = "pb_contents pb" and ?cap = "pb_capacity pb"
  let ?ys = "(if length ?xs < ?cap then ?xs else tl ?xs) @ [m]"
  have len: "length (pb_buffer pb) = ?cap" "pb_next pb < ?cap" and ids: "\<forall>m\<in>set ?xs. msg_get_id m \<noteq> None"
    and map: "\<And>n j. hm_get (=) n (pb_map pb) = Some j \<longleftrightarrow> j < ?cap \<and> (\<exists>m. pb_buffer pb ! j = Some m \<and> has_id n m)"
    and ring: "pb_ring pb = replicate (?cap - length ?xs) None @ map Some ?xs"
    using inv unfolding pb_inv_def by auto
  have "length ?xs \<le> ?cap" "0 < ?cap" using pb_contents_bound [of pb] len by auto
  note w = window_ring [OF ring this refl, of m]
  have "pb_ring pb' = tl (pb_ring pb) @ [Some m]"
    using ring_write [of "pb_next pb" "pb_buffer pb" _ "Some m"] len by (simp add: pb_ring_def pb')
  then have ring': "pb_ring pb' = replicate (?cap - length ?ys) None @ map Some ?ys" using w(1) by simp
  have cont: "pb_contents pb' = ?ys" unfolding pb_contents_def ring' by (simp only: map_filter_id_append map_filter_id_None map_filter_id_Some append_Nil)
  have "old \<in> set ?xs" if "pb_buffer pb ! pb_next pb = Some old" for old
    using that len by (auto simp: set_pb_contents)
  then have old: "msg_get_id old \<noteq> None" if "pb_buffer pb ! pb_next pb = Some old" for old using ids that by blast
  have "set (tl ?xs) \<subseteq> set ?xs" by (cases ?xs) auto
  then have "set ?ys \<subseteq> insert m (set ?xs)" by auto
  then have ids': "\<forall>m'\<in>set ?ys. msg_get_id m' \<noteq> None" using ids i by blast
  have map': "hm_get (=) n (pb_map pb') = Some j \<longleftrightarrow> j < ?cap \<and> (\<exists>m. pb_buffer pb' ! j = Some m \<and> has_id n m)" for n j
    using replaced_map [OF map [folded len(1)] len(2) [folded len(1)] _ _ mp1 old, of "unat i" m n j] i new len(1)
    by (simp add: has_id_unat hm_contains_def pb')
  have cap': "pb_capacity pb' = ?cap" "length (pb_buffer pb') = ?cap" "pb_next pb' < ?cap" using len by (simp_all add: pb')
  show "pb_inv pb'" unfolding pb_inv_def cont cap' using ring' ids' map' cap' by blast
  show "pb_contents pb' = window_push ?cap ?xs m"
    unfolding cont window_push_def using pb_map_iff [OF inv i] new by simp
qed

lemma pb_push_spec:
  assumes inv: "pb_inv pb" and i: "msg_get_id m = Some i" and name: "msg_get_name xx m \<noteq> None"
  shows "\<exists>pb'. pb_push xx pb m = Some (True, pb') \<and> pb_inv pb' \<and> pb_capacity pb' = pb_capacity pb \<and>
    pb_contents pb' = window_push (pb_capacity pb) (pb_contents pb) m"
proof -
  obtain t d where td: "msg_get_name xx m = Some (t, d)" using name by auto
  let ?pb = "if pb_map pb = [] then pb\<lparr>pb_destination_name := t, pb_destination_id := d\<rparr> else pb"
  have same: "pb_inv ?pb" "pb_contents ?pb = pb_contents pb" "pb_capacity ?pb = pb_capacity pb" using inv by simp_all
  have push: "pb_push xx pb m =
      (if hm_contains (=) (unat i) (pb_map ?pb) then Some (True, ?pb)
       else if length (pb_buffer ?pb) \<le> pb_next ?pb then None
       else do {
         map1 \<leftarrow> (case pb_buffer ?pb ! pb_next ?pb of
             Some message \<Rightarrow> do { r \<leftarrow> msg_get_id message; Some (hm_remove (=) (unat r) (pb_map ?pb)) }
           | None \<Rightarrow> Some (pb_map ?pb));
         Some (True, ?pb\<lparr>pb_buffer := (pb_buffer ?pb)[pb_next ?pb := Some m],
           pb_map := hm_insert (=) (unat i) (pb_next ?pb) map1, pb_next := (pb_next ?pb + 1) mod pb_capacity ?pb\<rparr>)
       })"
    using td i by (simp add: pb_push_def Let_def)
  show ?thesis
  proof (cases "hm_contains (=) (unat i) (pb_map ?pb)")
    case True
    have "\<exists>m'\<in>set (pb_contents pb). msg_get_id m' = msg_get_id m"
      using pb_map_iff [OF same(1) i] True unfolding same(2) by blast
    then have "window_push (pb_capacity pb) (pb_contents pb) m = pb_contents pb" by (simp add: window_push_def)
    then show ?thesis using True same unfolding push by (intro exI [of _ ?pb]) simp
  next
    case False
    let ?mp = "case pb_buffer ?pb ! pb_next ?pb of
        Some old \<Rightarrow> hm_remove (=) (the (map_option unat (msg_get_id old))) (pb_map ?pb) | None \<Rightarrow> pb_map ?pb"
    have nx: "pb_next ?pb < length (pb_buffer ?pb)" using same(1) by (simp add: pb_inv_def)
    have "msg_get_id old \<noteq> None" if "pb_buffer ?pb ! pb_next ?pb = Some old" for old
    proof -
      have "old \<in> set (pb_contents ?pb)" using that nx unfolding set_pb_contents by blast
      then show ?thesis using same(1) unfolding pb_inv_def by blast
    qed
    then have mp: "(case pb_buffer ?pb ! pb_next ?pb of
         Some message \<Rightarrow> do { r \<leftarrow> msg_get_id message; Some (hm_remove (=) (unat r) (pb_map ?pb)) }
       | None \<Rightarrow> Some (pb_map ?pb)) = Some ?mp" by (cases "pb_buffer ?pb ! pb_next ?pb") auto
    note n = pb_push_new [OF same(1) i False refl refl]
    show ?thesis using False nx n same(3) unfolding push mp same(2) by simp
  qed
qed

lemma pb_get_spec:
  assumes inv: "pb_inv pb"
  shows "pb_get pb (unat i) = Some (find (\<lambda>m. msg_get_id m = Some i) (pb_contents pb))"
proof -
  have map: "hm_get (=) (unat i) (pb_map pb) = Some j \<longleftrightarrow>
      j < length (pb_buffer pb) \<and> (\<exists>m. pb_buffer pb ! j = Some m \<and> msg_get_id m = Some i)" for j
    using inv by (simp add: pb_inv_def has_id_unat)
  show ?thesis
  proof (cases "hm_get (=) (unat i) (pb_map pb)")
    case None
    have "msg_get_id m \<noteq> Some i" if "m \<in> set (pb_contents pb)" for m
      using that None map unfolding set_pb_contents by auto
    then have "find (\<lambda>m. msg_get_id m = Some i) (pb_contents pb) = None" by (simp add: find_None_iff)
    then show ?thesis using None by (simp add: pb_get_def)
  next
    case (Some j)
    then obtain m where m: "j < length (pb_buffer pb)" "pb_buffer pb ! j = Some m" "msg_get_id m = Some i"
      using map by blast
    have "m \<in> set (pb_contents pb)" using m(1,2) unfolding set_pb_contents by blast
    then have "find (\<lambda>m. msg_get_id m = Some i) (pb_contents pb) \<noteq> None" using m(3) unfolding find_None_iff by blast
    then obtain m' where m': "find (\<lambda>m. msg_get_id m = Some i) (pb_contents pb) = Some m'" by blast
    then have "m' \<in> set (pb_contents pb)" "msg_get_id m' = Some i" unfolding find_Some_iff by auto
    then obtain j' where "hm_get (=) (unat i) (pb_map pb) = Some j'" "pb_buffer pb ! j' = Some m'"
      using map unfolding set_pb_contents by blast
    then have "m' = m" using Some m(2) by simp
    then show ?thesis using Some m m' by (simp add: pb_get_def)
  qed
qed

lemma pb_empty:
  assumes "0 < cap" and "pb_capacity pb = cap" "pb_next pb = 0" "pb_buffer pb = replicate cap None" "pb_map pb = []"
  shows "pb_inv pb" "pb_contents pb = []"
proof -
  have ring: "pb_ring pb = replicate cap None" using assms by (simp add: pb_ring_def)
  then show c: "pb_contents pb = []" by (simp add: pb_contents_def)
  show "pb_inv pb" unfolding pb_inv_def c using ring assms by auto
qed

section \<open>Properties of the producer buffer\<close>

fun pb_push_all :: "(u8 list \<Rightarrow> u64) \<Rightarrow> producer_buffer \<Rightarrow> message list \<Rightarrow> producer_buffer option" where
  "pb_push_all xx pb [] = Some pb"
| "pb_push_all xx pb (m # ms) = do { (_, pb) \<leftarrow> pb_push xx pb m; pb_push_all xx pb ms }"

definition pushable :: "(u8 list \<Rightarrow> u64) \<Rightarrow> message \<Rightarrow> bool" where
  "pushable xx m \<longleftrightarrow> msg_get_id m \<noteq> None \<and> msg_get_name xx m \<noteq> None"

lemma pb_push_all_spec:
  "pb_inv pb \<Longrightarrow> \<forall>m\<in>set ms. pushable xx m \<Longrightarrow> \<exists>pb'. pb_push_all xx pb ms = Some pb' \<and> pb_inv pb' \<and>
     pb_capacity pb' = pb_capacity pb \<and> pb_contents pb' = foldl (window_push (pb_capacity pb)) (pb_contents pb) ms"
proof (induction ms arbitrary: pb)
  case (Cons m ms)
  obtain i where i: "msg_get_id m = Some i" "msg_get_name xx m \<noteq> None" using Cons.prems(2) by (auto simp: pushable_def)
  obtain pb' where pb': "pb_push xx pb m = Some (True, pb')" "pb_inv pb'" "pb_capacity pb' = pb_capacity pb"
      "pb_contents pb' = window_push (pb_capacity pb) (pb_contents pb) m"
    using pb_push_spec [OF Cons.prems(1) i] by blast
  then show ?case using Cons.IH [OF pb'(2)] Cons.prems(2) by auto
qed simp

lemma foldl_window:
  "0 < cap \<Longrightarrow> distinct (map msg_get_id ms) \<Longrightarrow> foldl (window_push cap) [] ms = drop (length ms - cap) ms"
proof (induction ms rule: rev_induct)
  case (snoc m ms)
  let ?xs = "drop (length ms - cap) ms"
  have xs: "foldl (window_push cap) [] ms = ?xs" using snoc by simp
  have "msg_get_id m \<notin> msg_get_id ` set ms" using snoc.prems(2) by simp
  then have "\<not> (\<exists>m'\<in>set ?xs. msg_get_id m' = msg_get_id m)"
    using set_drop_subset [of "length ms - cap" ms] by (metis image_eqI subsetD)
  then have "window_push cap ?xs m = (if length ?xs < cap then ?xs else tl ?xs) @ [m]" by (simp add: window_push_def)
  also have "\<dots> = drop (length (ms @ [m]) - cap) (ms @ [m])"
  proof (cases "length ms < cap")
    case True
    then show ?thesis by simp
  next
    case False
    then have "length ?xs = cap" "length (ms @ [m]) - cap = Suc (length ms - cap)" using snoc.prems(1) by auto
    then show ?thesis using snoc.prems(1) by (simp add: drop_Suc tl_drop)
  qed
  finally show ?case using xs by simp
qed simp

text \<open>
  C19: pushing messages never panics and keeps a window of at most \<open>capacity\<close> messages: a message
  whose identifier is present is not stored again, otherwise the oldest one makes room. Pushing
  messages with different identifiers keeps exactly the last \<open>capacity\<close> of them. A lookup returns
  the message of the window with that identifier, if there is one.
\<close>

theorem producer_buffer_is_window:
  assumes "0 < cap" and "\<forall>m\<in>set ms. pushable xx m"
  shows "\<exists>pb. pb_push_all xx (producer_buffer_with_capacity cap) ms = Some pb \<and>
    pb_contents pb = foldl (window_push cap) [] ms \<and> length (pb_contents pb) \<le> cap \<and>
    (distinct (map msg_get_id ms) \<longrightarrow> pb_contents pb = drop (length ms - cap) ms) \<and>
    (\<forall>i. pb_get pb (unat (i :: u32)) = Some (find (\<lambda>m. msg_get_id m = Some i) (pb_contents pb))) \<and>
    pb_contents (pb_clear pb) = [] \<and> pb_inv (pb_clear pb)"
proof -
  let ?pb0 = "producer_buffer_with_capacity cap"
  have start: "pb_inv ?pb0" "pb_contents ?pb0 = []"
    using pb_empty [OF assms(1), of ?pb0] by (simp_all add: producer_buffer_with_capacity_def)
  obtain pb where pb: "pb_push_all xx ?pb0 ms = Some pb" "pb_inv pb" "pb_capacity pb = cap"
      "pb_contents pb = foldl (window_push cap) [] ms"
    using pb_push_all_spec [OF start(1) assms(2)] start(2) by (auto simp: producer_buffer_with_capacity_def)
  have "length (pb_contents pb) \<le> cap" using pb_contents_bound [of pb] pb(2,3) by (simp add: pb_inv_def)
  moreover have "pb_inv (pb_clear pb)" "pb_contents (pb_clear pb) = []"
    using pb_empty [OF assms(1), of "pb_clear pb"] pb(3) by (simp_all add: pb_clear_def)
  ultimately show ?thesis using pb foldl_window [OF assms(1), of ms] pb_get_spec [OF pb(2)] by auto
qed

definition sent_msg :: "u32 \<Rightarrow> message" where
  "sent_msg i = new_publish_with_headers (Some (slim_header_new sample_source sample_type None None))
     (Some (session_header_new 0 1 i)) ''text'' []"

lemma pushable_sent_msg: "pushable xx (sent_msg i)" "msg_get_id (sent_msg i) = Some i"
  by (simp_all add: pushable_def sent_msg_def new_publish_with_headers_def publish_with_header_def message_new_def
      session_header_new_def msg_get_id_def msg_get_name_def get_session_header_def get_slim_header_def
      slim_header_get_dst_def slim_header_new_def Let_def)

theorem producer_buffer_is_window_witness:
  "\<exists>pb. pb_push_all (\<lambda>_. 9) (producer_buffer_with_capacity 2) [sent_msg 1, sent_msg 2, sent_msg 3] = Some pb \<and>
     pb_contents pb = [sent_msg 2, sent_msg 3] \<and> pb_get pb 1 = Some None"
proof -
  have ids: "sent_msg 1 \<noteq> sent_msg 2" using pushable_sent_msg(2) [of 1] pushable_sent_msg(2) [of 2] by auto
  obtain pb where "pb_push_all (\<lambda>_. 9) (producer_buffer_with_capacity 2) [sent_msg 1, sent_msg 2, sent_msg 3] = Some pb"
      "pb_contents pb = [sent_msg 2, sent_msg 3]"
      "\<forall>i. pb_get pb (unat (i :: u32)) = Some (find (\<lambda>m. msg_get_id m = Some i) (pb_contents pb))"
    using producer_buffer_is_window [of 2 "[sent_msg 1, sent_msg 2, sent_msg 3]" "\<lambda>_. 9"] pushable_sent_msg by auto
  moreover from this(3) have "pb_get pb (unat (1 :: u32)) = Some (find (\<lambda>m. msg_get_id m = Some 1) (pb_contents pb))" by blast
  ultimately show ?thesis using pushable_sent_msg(2) by auto
qed

end
