(* ===== verification/Timer.thy ===== *)
theory Timer
  imports Slim_Prelude
begin

text \<open>
  The timer of \<^verbatim>\<open>service/src/timer.rs\<close>. A started timer is a task that sleeps and then calls
  its observer, until the retries are used up or its cancellation token is cancelled. The model
  follows the task over the events that wake it, and records for each the time slept and the call
  made. Durations are whole nanoseconds; doubling one beyond the largest \<open>Duration\<close> panics.
  The counters are \<open>u32\<close> and wrap as in a release build. Tokens are numbers.
\<close>

datatype timer_type = Constant | Exponential

type_synonym duration = nat

definition duration_max :: duration where
  "duration_max = (2 ^ 64 - 1) * 1000000000 + 999999999"

definition duration_double :: "duration \<Rightarrow> duration option" where
  "duration_double d = (if d * 2 \<le> duration_max then Some (d * 2) else None)"

record timer =
  tm_timer_id :: u32
  tm_timer_type :: timer_type
  tm_duration :: duration
  tm_max_duration :: "duration option"
  tm_max_retries :: "u32 option"
  tm_cancellation_token :: nat

definition timer_new ::
    "u32 \<Rightarrow> timer_type \<Rightarrow> duration \<Rightarrow> duration option \<Rightarrow> u32 option \<Rightarrow> nat \<Rightarrow> timer" where
  "timer_new timer_id timer_type duration max_duration max_retries token = \<lparr>
     tm_timer_id = timer_id, tm_timer_type = timer_type, tm_duration = duration,
     tm_max_duration = max_duration, tm_max_retries = max_retries, tm_cancellation_token = token\<rparr>"

text \<open>The variables of the task: \<open>retry\<close>, \<open>timeouts\<close> and \<open>last_duration\<close>.\<close>

record timer_task =
  tt_retry :: u32
  tt_timeouts :: u32
  tt_last_duration :: duration

datatype timer_call = On_Timeout u32 u32 | On_Failure u32 u32 | On_Stop u32

datatype timer_event = Elapsed | Cancelled

definition timer_start :: "timer \<Rightarrow> timer_task" where
  "timer_start t = \<lparr>tt_retry = 0, tt_timeouts = 0, tt_last_duration = tm_duration t\<rparr>"

definition timer_duration :: "timer \<Rightarrow> timer_task \<Rightarrow> (duration \<times> timer_task) option" where
  "timer_duration t s =
     (case tm_timer_type t of
        Constant \<Rightarrow> Some (tm_duration t, s)
      | Exponential \<Rightarrow> do {
          d \<leftarrow> (if tt_timeouts s \<noteq> 0 then duration_double (tt_last_duration s) else Some (tm_duration t));
          Some (case tm_max_duration t of
              None \<Rightarrow> (d, s\<lparr>tt_last_duration := d\<rparr>)
            | Some max_d \<Rightarrow> if d > max_d then (max_d, s\<lparr>tt_last_duration := max_d\<rparr>) else (d, s\<lparr>tt_last_duration := d\<rparr>))
        })"

text \<open>One turn of the loop: the call to the observer, and whether the task goes on.\<close>

definition timer_turn :: "timer \<Rightarrow> timer_task \<Rightarrow> timer_event \<Rightarrow> timer_call \<times> timer_task option" where
  "timer_turn t s e =
     (case e of
        Elapsed \<Rightarrow>
          (let s = s\<lparr>tt_timeouts := tt_timeouts s + 1\<rparr>
           in case tm_max_retries t of
                Some limit \<Rightarrow>
                  if tt_retry s < limit
                  then (On_Timeout (tm_timer_id t) (tt_timeouts s), Some (s\<lparr>tt_retry := tt_retry s + 1\<rparr>))
                  else (On_Failure (tm_timer_id t) (tt_timeouts s), None)
              | None \<Rightarrow> (On_Timeout (tm_timer_id t) (tt_timeouts s), Some (s\<lparr>tt_retry := tt_retry s + 1\<rparr>)))
      | Cancelled \<Rightarrow> (On_Stop (tm_timer_id t), None))"

fun timer_loop :: "timer \<Rightarrow> timer_task \<Rightarrow> timer_event list \<Rightarrow> (duration \<times> timer_call) list option" where
  "timer_loop t s [] = Some []"
| "timer_loop t s (e # es) = do {
     (d, s) \<leftarrow> timer_duration t s;
     let (c, again) = timer_turn t s e;
     case again of
       None \<Rightarrow> Some [(d, c)]
     | Some s \<Rightarrow> do { rest \<leftarrow> timer_loop t s es; Some ((d, c) # rest) }
   }"

text \<open>\<open>stop\<close> cancels the token and takes a new one; the result names the token cancelled.\<close>

definition timer_stop :: "nat \<Rightarrow> timer \<Rightarrow> nat \<times> timer" where
  "timer_stop fresh t = (tm_cancellation_token t, t\<lparr>tm_cancellation_token := fresh\<rparr>)"

definition timer_reset :: "nat \<Rightarrow> timer \<Rightarrow> (nat \<times> timer_task) \<times> timer" where
  "timer_reset fresh t = (let (cancelled, t) = timer_stop fresh t in ((cancelled, timer_start t), t))"

definition timer_drop :: "timer \<Rightarrow> nat" where
  "timer_drop t = tm_cancellation_token t"

section \<open>Laws\<close>

text \<open>The time slept in the \<open>k\<close>-th turn.\<close>

definition nth_duration :: "timer \<Rightarrow> nat \<Rightarrow> duration" where
  "nth_duration t k =
     (case tm_timer_type t of
        Constant \<Rightarrow> tm_duration t
      | Exponential \<Rightarrow>
          (case tm_max_duration t of None \<Rightarrow> tm_duration t * 2 ^ k | Some m \<Rightarrow> min m (tm_duration t * 2 ^ k)))"

text \<open>No duration the timer doubles exceeds the range.\<close>

definition durations_fit :: "timer \<Rightarrow> nat \<Rightarrow> bool" where
  "durations_fit t n \<longleftrightarrow> tm_timer_type t = Constant \<or>
     (case tm_max_duration t of None \<Rightarrow> tm_duration t * 2 ^ n \<le> duration_max | Some m \<Rightarrow> 2 * m \<le> duration_max)"

text \<open>The task at the start of turn \<open>k\<close>, apart from \<open>retry\<close>.\<close>

definition at_turn :: "timer \<Rightarrow> nat \<Rightarrow> timer_task \<Rightarrow> bool" where
  "at_turn t k s \<longleftrightarrow> tt_retry s = of_nat k \<and> tt_timeouts s = of_nat k \<and>
     (tm_timer_type t = Exponential \<longrightarrow> 0 < k \<longrightarrow> tt_last_duration s = nth_duration t (k - 1))"

lemma timer_duration_spec:
  assumes "at_turn t k s" and "k < 2 ^ 32" and "k \<le> n" and "durations_fit t n"
  shows "\<exists>s'. timer_duration t s = Some (nth_duration t k, s') \<and> tt_retry s' = tt_retry s \<and>
    tt_timeouts s' = tt_timeouts s \<and> (tm_timer_type t = Exponential \<longrightarrow> tt_last_duration s' = nth_duration t k)"
proof (cases "tm_timer_type t")
  case Constant
  then show ?thesis by (simp add: timer_duration_def nth_duration_def)
next
  case Exponential
  let ?d = "if k = 0 then tm_duration t else nth_duration t (k - 1) * 2"
  have pow: "tm_duration t * 2 ^ k \<le> tm_duration t * 2 ^ n" using assms(3) by (simp add: power_increasing)
  have k: "tt_timeouts s = 0 \<longleftrightarrow> k = 0"
    using assms(1,2) of_nat_u32_inject [of k 0] by (simp add: at_turn_def)
  have fit: "k \<noteq> 0 \<Longrightarrow> nth_duration t (k - 1) * 2 \<le> duration_max"
  proof (cases "tm_max_duration t")
    case None
    moreover assume "k \<noteq> 0"
    ultimately have "nth_duration t (k - 1) * 2 = tm_duration t * 2 ^ k"
      using Exponential by (cases k) (simp_all add: nth_duration_def)
    moreover have "tm_duration t * 2 ^ n \<le> duration_max" using None assms(4) Exponential by (simp add: durations_fit_def)
    ultimately show ?thesis using pow by linarith
  next
    case (Some m)
    then show ?thesis using assms(4) Exponential by (auto simp: durations_fit_def nth_duration_def min_def)
  qed
  have d: "(if tt_timeouts s \<noteq> 0 then duration_double (tt_last_duration s) else Some (tm_duration t)) = Some ?d"
    using k fit assms(1) Exponential by (auto simp: duration_double_def at_turn_def)
  have "nth_duration t k = (case tm_max_duration t of None \<Rightarrow> ?d | Some m \<Rightarrow> min m ?d)"
    using Exponential by (cases k; cases "tm_max_duration t") (auto simp: nth_duration_def)
  then show ?thesis using d Exponential
    by (auto simp: timer_duration_def min_def split: option.splits)
qed

text \<open>\<open>j\<close> turns without a failure.\<close>

definition within_retries :: "timer \<Rightarrow> nat \<Rightarrow> bool" where
  "within_retries t k \<longleftrightarrow> (case tm_max_retries t of None \<Rightarrow> True | Some r \<Rightarrow> k < unat r)"

lemma timer_elapsed:
  assumes "at_turn t k s" and "k < 2 ^ 32" and "k \<le> n" and "durations_fit t n" and "within_retries t k"
  shows "\<exists>s'. at_turn t (Suc k) s' \<and> timer_loop t s (Elapsed # es) =
    map_option ((#) (nth_duration t k, On_Timeout (tm_timer_id t) (of_nat (Suc k)))) (timer_loop t s' es)"
proof -
  obtain s1 where s1: "timer_duration t s = Some (nth_duration t k, s1)" "tt_retry s1 = tt_retry s"
      "tt_timeouts s1 = tt_timeouts s" "tm_timer_type t = Exponential \<longrightarrow> tt_last_duration s1 = nth_duration t k"
    using timer_duration_spec [OF assms(1-4)] by blast
  let ?s = "s1\<lparr>tt_timeouts := tt_timeouts s1 + 1, tt_retry := tt_retry s1 + 1\<rparr>"
  have "tt_retry s1 < r" if "tm_max_retries t = Some r" for r
    using that assms(1,2,5) s1(2) unat_of_nat_u32 [of k] by (simp add: within_retries_def at_turn_def word_less_nat_alt)
  then have "timer_turn t s1 Elapsed = (On_Timeout (tm_timer_id t) (of_nat (Suc k)), Some ?s)"
    using assms(1) s1(3) by (simp add: timer_turn_def Let_def at_turn_def add.commute split: option.split)
  then have "timer_loop t s (Elapsed # es) =
      map_option ((#) (nth_duration t k, On_Timeout (tm_timer_id t) (of_nat (Suc k)))) (timer_loop t ?s es)"
    using s1(1) by (cases "timer_loop t ?s es") simp_all
  moreover have "at_turn t (Suc k) ?s" using assms(1) s1 by (simp add: at_turn_def add.commute)
  ultimately show ?thesis by blast
qed

lemma timer_elapsed_many:
  "at_turn t k s \<Longrightarrow> k + j < 2 ^ 32 \<Longrightarrow> k + j \<le> n \<Longrightarrow> durations_fit t n \<Longrightarrow>
   (\<And>i. i < k + j \<Longrightarrow> within_retries t i) \<Longrightarrow>
   \<exists>s'. at_turn t (k + j) s' \<and> timer_loop t s (replicate j Elapsed @ es) =
     map_option ((@) (map (\<lambda>i. (nth_duration t i, On_Timeout (tm_timer_id t) (of_nat (Suc i)))) [k..<k + j]))
       (timer_loop t s' es)"
proof (induction j arbitrary: k s)
  case 0
  then show ?case by (intro exI [of _ s]) (simp add: option.map_ident)
next
  case (Suc j)
  have k: "k < 2 ^ 32" "k \<le> n" "within_retries t k" using Suc.prems(2,3,5) by auto
  obtain s1 where s1: "at_turn t (Suc k) s1" "timer_loop t s (Elapsed # replicate j Elapsed @ es) =
      map_option ((#) (nth_duration t k, On_Timeout (tm_timer_id t) (of_nat (Suc k)))) (timer_loop t s1 (replicate j Elapsed @ es))"
    using timer_elapsed [OF Suc.prems(1) k(1,2) Suc.prems(4) k(3)] by blast
  obtain s' where s': "at_turn t (Suc k + j) s'" "timer_loop t s1 (replicate j Elapsed @ es) =
      map_option ((@) (map (\<lambda>i. (nth_duration t i, On_Timeout (tm_timer_id t) (of_nat (Suc i)))) [Suc k..<Suc k + j]))
        (timer_loop t s' es)"
    using Suc.IH [OF s1(1)] Suc.prems(2-5) by auto
  have "[k..<k + Suc j] = k # [Suc k..<Suc k + j]" by (simp add: upt_rec)
  then show ?case using s1(2) s' by (intro exI [of _ s']) (simp add: option.map_comp comp_def del: upt_Suc)
qed

lemma at_turn_start: "at_turn t 0 (timer_start t)"
  by (simp add: at_turn_def timer_start_def)

section \<open>Properties of the timer\<close>

text \<open>
  C20: a timer with \<open>r\<close> retries that is never cancelled calls \<open>on_timeout\<close> exactly \<open>r\<close> times,
  counting from one, and then \<open>on_failure\<close> once, after which it makes no further call. It sleeps
  the constant duration, or the initial one doubled each time and capped at the maximum.
\<close>

theorem timer_retries_then_fails:
  assumes "tm_max_retries t = Some r" and "unat r + 1 < 2 ^ 32" and "durations_fit t (unat r)"
  shows "timer_loop t (timer_start t) (replicate (unat r) Elapsed @ Elapsed # es) =
    Some (map (\<lambda>i. (nth_duration t i, On_Timeout (tm_timer_id t) (of_nat (Suc i)))) [0..<unat r] @
      [(nth_duration t (unat r), On_Failure (tm_timer_id t) (r + 1))])"
proof -
  obtain s where s: "at_turn t (unat r) s" "timer_loop t (timer_start t) (replicate (unat r) Elapsed @ Elapsed # es) =
      map_option ((@) (map (\<lambda>i. (nth_duration t i, On_Timeout (tm_timer_id t) (of_nat (Suc i)))) [0..<unat r]))
        (timer_loop t s (Elapsed # es))"
    using timer_elapsed_many [OF at_turn_start, of "unat r" "unat r" t "Elapsed # es"] assms
    by (auto simp: within_retries_def)
  obtain s1 where s1: "timer_duration t s = Some (nth_duration t (unat r), s1)" "tt_retry s1 = tt_retry s" "tt_timeouts s1 = tt_timeouts s"
    using timer_duration_spec [OF s(1), of "unat r"] assms(2,3) by auto
  have "timer_turn t s1 Elapsed = (On_Failure (tm_timer_id t) (r + 1), None)"
    using s(1) s1 assms(1) by (simp add: timer_turn_def Let_def at_turn_def)
  then show ?thesis using s(2) s1(1) by simp
qed

definition retry_timer :: timer where
  "retry_timer = timer_new 7 Exponential 100 (Some 150) (Some 2) 0"

theorem timer_retries_then_fails_witness:
  "timer_loop retry_timer (timer_start retry_timer) [Elapsed, Elapsed, Elapsed, Elapsed] =
     Some [(100, On_Timeout 7 1), (150, On_Timeout 7 2), (150, On_Failure 7 3)]"
proof -
  have "tm_max_retries retry_timer = Some 2" "durations_fit retry_timer 2"
    by (simp_all add: retry_timer_def timer_new_def durations_fit_def duration_max_def)
  moreover have "replicate 2 Elapsed = [Elapsed, Elapsed]" by (simp add: numeral_2_eq_2)
  moreover have "[0..<2] = [0, Suc 0]" by (simp add: upt_rec)
  ultimately show ?thesis
    using timer_retries_then_fails [of retry_timer 2 "[Elapsed]"]
    by (simp add: nth_duration_def) (simp add: retry_timer_def timer_new_def)
qed

text \<open>
  a timer cancelled after \<open>j\<close> timeouts has called \<open>on_timeout\<close> exactly \<open>j\<close> times, calls
  \<open>on_stop\<close> once and then nothing, whatever events follow.
\<close>

theorem cancelled_timer_stops:
  assumes "j < 2 ^ 32" and "\<And>r. tm_max_retries t = Some r \<Longrightarrow> j \<le> unat r" and "durations_fit t j"
  shows "timer_loop t (timer_start t) (replicate j Elapsed @ Cancelled # es) =
    Some (map (\<lambda>i. (nth_duration t i, On_Timeout (tm_timer_id t) (of_nat (Suc i)))) [0..<j] @
      [(nth_duration t j, On_Stop (tm_timer_id t))])"
proof -
  obtain s where s: "at_turn t j s" "timer_loop t (timer_start t) (replicate j Elapsed @ Cancelled # es) =
      map_option ((@) (map (\<lambda>i. (nth_duration t i, On_Timeout (tm_timer_id t) (of_nat (Suc i)))) [0..<j]))
        (timer_loop t s (Cancelled # es))"
    using timer_elapsed_many [OF at_turn_start, of j j t "Cancelled # es"] assms
    by (fastforce simp: within_retries_def split: option.splits)
  obtain s1 where s1: "timer_duration t s = Some (nth_duration t j, s1)"
    using timer_duration_spec [OF s(1), of j] assms(1,3) by auto
  then show ?thesis using s(2) by (simp add: timer_turn_def)
qed

theorem cancelled_timer_stops_witness:
  "timer_loop retry_timer (timer_start retry_timer) [Elapsed, Cancelled, Elapsed] =
     Some [(100, On_Timeout 7 1), (150, On_Stop 7)]"
  using cancelled_timer_stops [of 1 retry_timer "[Elapsed]"]
  by (simp add: retry_timer_def timer_new_def durations_fit_def duration_max_def nth_duration_def)

end
