(* ===== verification/Session.thy ===== *)
theory Session
  imports Messages Timer
begin

text \<open>
  What the sessions share: \<^verbatim>\<open>service/src/session.rs\<close>, the errors of
  \<^verbatim>\<open>service/src/errors.rs\<close>, and the configurations of the three session types. A session writes
  to two channels, to the data path and to the application; the model appends to the two logs of
  \<open>session_out\<close>, and a send fails when the receiver of the channel is gone. Error texts that
  end in a value printed by \<open>Debug\<close> stop before that value.
\<close>

section \<open>Messages with session information\<close>

definition SESSION_RANGE :: "u32 \<Rightarrow> bool" where
  "SESSION_RANGE i \<longleftrightarrow> i < - 1 - 1000"

definition SESSION_UNSPECIFIED :: u32 where
  "SESSION_UNSPECIFIED = - 1"

record info =
  in_id :: u32
  in_message_id :: "u32 option"
  in_session_header_type :: session_header_type
  in_message_source :: "agent option"
  in_input_connection :: "u64 option"

record session_message =
  sm_message :: message
  sm_info :: info

definition info_new :: "u32 \<Rightarrow> info" where
  "info_new i = \<lparr>in_id = i, in_message_id = None, in_session_header_type = Unspecified,
     in_message_source = None, in_input_connection = None\<rparr>"

definition info_set_message_id :: "u32 \<Rightarrow> info \<Rightarrow> info" where
  "info_set_message_id m inf0 = inf0\<lparr>in_message_id := Some m\<rparr>"

definition info_set_session_header_type :: "session_header_type \<Rightarrow> info \<Rightarrow> info" where
  "info_set_session_header_type t inf0 = inf0\<lparr>in_session_header_type := t\<rparr>"

definition info_set_message_source :: "agent \<Rightarrow> info \<Rightarrow> info" where
  "info_set_message_source a inf0 = inf0\<lparr>in_message_source := Some a\<rparr>"

definition info_set_input_connection :: "u64 \<Rightarrow> info \<Rightarrow> info" where
  "info_set_input_connection c inf0 = inf0\<lparr>in_input_connection := Some c\<rparr>"

definition info_from_message :: "message \<Rightarrow> info option" where
  "info_from_message message = do {
     session_header \<leftarrow> get_session_header message;
     slim_header \<leftarrow> get_slim_header message;
     message_source \<leftarrow> msg_get_source message;
     Some \<lparr>in_id = se_session_id session_header,
       in_message_id = Some (se_message_id session_header),
       in_session_header_type = header_type_of_i32 (se_header_type session_header),
       in_message_source = Some message_source,
       in_input_connection = sh_incoming_conn slim_header\<rparr>
   }"

definition session_message_from :: "message \<Rightarrow> session_message option" where
  "session_message_from message = do {
     inf0 \<leftarrow> info_from_message message;
     Some \<lparr>sm_message = message, sm_info = inf0\<rparr>
   }"

datatype state = Active | Inactive

datatype session_direction = Sender | Receiver | Bidirectional

datatype message_direction = North | South

datatype session_type = FireAndForget_Type | RequestResponse_Type | Streaming_Type

definition session_type_display :: "session_type \<Rightarrow> string" where
  "session_type_display t = (case t of
      FireAndForget_Type \<Rightarrow> ''FireAndForget''
    | RequestResponse_Type \<Rightarrow> ''RequestResponse''
    | Streaming_Type \<Rightarrow> ''Streaming'')"

section \<open>Errors\<close>

datatype session_error =
  SlimReception string
| SlimTransmission string
| Forward string
| AppReception string
| AppTransmission string
| Processing string
| SessionIdAlreadyUsed string
| InvalidSessionId string
| MissingSlimHeader string
| MissingSessionHeader
| SessionUnknown string
| SessionNotFound string
| SessionDefaultNotSupported string
| MissingSessionId string
| ValidationError string
| Timeout u32 u32 session_message
| ConfigurationError string
| MessageLost string
| SessionClosed string
| InterceptorError string

definition show_u32 :: "u32 \<Rightarrow> string" where
  "show_u32 w = digits 10 (unat w)"

definition session_error_display :: "session_error \<Rightarrow> string" where
  "session_error_display e = (case e of
      SlimReception s \<Rightarrow> ''error receiving message from slim instance: '' @ s
    | SlimTransmission s \<Rightarrow> ''error sending message to slim instance: '' @ s
    | Forward s \<Rightarrow> ''error in message forwarding: '' @ s
    | AppReception s \<Rightarrow> ''error receiving message from app: '' @ s
    | AppTransmission s \<Rightarrow> ''error sending message to app: '' @ s
    | Processing s \<Rightarrow> ''error processing message: '' @ s
    | SessionIdAlreadyUsed s \<Rightarrow> ''session id already used: '' @ s
    | InvalidSessionId s \<Rightarrow> ''invalid session id: '' @ s
    | MissingSlimHeader s \<Rightarrow> ''missing SLIM header: '' @ s
    | MissingSessionHeader \<Rightarrow> ''missing session header''
    | SessionUnknown s \<Rightarrow> ''session unknown: '' @ s
    | SessionNotFound s \<Rightarrow> ''session not found: '' @ s
    | SessionDefaultNotSupported s \<Rightarrow> ''default for session not supported: '' @ s
    | MissingSessionId s \<Rightarrow> ''missing session id: '' @ s
    | ValidationError s \<Rightarrow> ''error during message validation: '' @ s
    | Timeout session_id message_id _ \<Rightarrow>
        ''message='' @ show_u32 message_id @ '' session='' @ show_u32 session_id @ '': timeout''
    | ConfigurationError s \<Rightarrow> ''configuration error: '' @ s
    | MessageLost s \<Rightarrow> ''message lost: '' @ s
    | SessionClosed s \<Rightarrow> ''session closed: '' @ s
    | InterceptorError s \<Rightarrow> ''interceptor error: '' @ s)"

section \<open>Configurations\<close>

record fire_and_forget_configuration =
  ff_timeout :: "duration option"
  ff_max_retries :: "u32 option"
  ff_sticky :: bool

record request_response_configuration =
  rr_timeout :: duration

record streaming_configuration =
  st_direction :: session_direction
  st_topic :: agent_type
  st_max_retries :: u32
  st_timeout :: duration

datatype session_config =
  FireAndForget_Config fire_and_forget_configuration
| RequestResponse_Config request_response_configuration
| Streaming_Config streaming_configuration

definition from_millis :: "nat \<Rightarrow> duration" where
  "from_millis n = n * 1000000"

definition as_millis :: "duration \<Rightarrow> nat" where
  "as_millis d = d div 1000000"

definition ff_config_default :: fire_and_forget_configuration where
  "ff_config_default = \<lparr>ff_timeout = None, ff_max_retries = None, ff_sticky = False\<rparr>"

definition rr_config_default :: request_response_configuration where
  "rr_config_default = \<lparr>rr_timeout = from_millis 1000\<rparr>"

definition st_config_default :: streaming_configuration where
  "st_config_default = \<lparr>st_direction = Receiver, st_topic = agent_type_default, st_max_retries = 10,
     st_timeout = from_millis 1000\<rparr>"

definition st_config_new ::
    "session_direction \<Rightarrow> agent_type option \<Rightarrow> u32 option \<Rightarrow> duration option \<Rightarrow> streaming_configuration" where
  "st_config_new direction topic max_retries timeout = \<lparr>st_direction = direction,
     st_topic = (case topic of None \<Rightarrow> agent_type_default | Some t \<Rightarrow> t),
     st_max_retries = (case max_retries of None \<Rightarrow> 0 | Some r \<Rightarrow> r),
     st_timeout = (case timeout of None \<Rightarrow> from_millis 0 | Some d \<Rightarrow> d)\<rparr>"

definition ff_config_display :: "fire_and_forget_configuration \<Rightarrow> string" where
  "ff_config_display c = ''FireAndForgetConfiguration: timeout: '' @
     digits 10 (as_millis (case ff_timeout c of None \<Rightarrow> 0 | Some d \<Rightarrow> d)) @ '' ms, max retries: '' @
     show_u32 (case ff_max_retries c of None \<Rightarrow> 0 | Some r \<Rightarrow> r)"

definition rr_config_display :: "request_response_configuration \<Rightarrow> string" where
  "rr_config_display c = ''RequestResponseConfiguration: timeout: '' @ digits 10 (as_millis (rr_timeout c)) @ '' ms''"

definition st_config_display :: "streaming_configuration \<Rightarrow> string" where
  "st_config_display c = ''StreamingConfiguration: max_retries: '' @ show_u32 (st_max_retries c) @
     '', timeout: '' @ digits 10 (as_millis (st_timeout c)) @ '' ms''"

definition session_config_display :: "session_config \<Rightarrow> string" where
  "session_config_display c = (case c of
      FireAndForget_Config ff \<Rightarrow> ff_config_display ff
    | RequestResponse_Config rr \<Rightarrow> rr_config_display rr
    | Streaming_Config s \<Rightarrow> st_config_display s)"

text \<open>The three implementations of \<open>SessionConfigTrait::replace\<close>.\<close>

definition ff_config_replace ::
    "fire_and_forget_configuration \<Rightarrow> session_config \<Rightarrow> session_error + fire_and_forget_configuration" where
  "ff_config_replace self session_config = (case session_config of
      FireAndForget_Config config \<Rightarrow> Inr config
    | _ \<Rightarrow> Inl (ConfigurationError ''invalid session config type: expected FireAndForget, got ''))"

definition rr_config_replace ::
    "request_response_configuration \<Rightarrow> session_config \<Rightarrow> session_error + request_response_configuration" where
  "rr_config_replace self session_config = (case session_config of
      RequestResponse_Config config \<Rightarrow> Inr config
    | _ \<Rightarrow> Inl (ConfigurationError ''invalid session config type: expected RequestResponse, got ''))"

definition st_config_replace ::
    "streaming_configuration \<Rightarrow> session_config \<Rightarrow> session_error + streaming_configuration" where
  "st_config_replace self session_config = (case session_config of
      Streaming_Config config \<Rightarrow>
        if st_direction self \<noteq> st_direction config
        then Inl (ConfigurationError ''cannot change session direction from '')
        else Inr config
    | _ \<Rightarrow> Inl (ConfigurationError ''invalid session config type: expected Streaming, got ''))"

section \<open>Channels\<close>

record session_env =
  se_slim_open :: bool
  se_app_open :: bool

record session_out =
  so_slim :: "message list"
  so_app :: "(session_error + session_message) list"

definition send_slim :: "session_env \<Rightarrow> message \<Rightarrow> session_out \<Rightarrow> (string + unit) \<times> session_out" where
  "send_slim env m out =
     (if se_slim_open env then (Inr (), out\<lparr>so_slim := so_slim out @ [m]\<rparr>) else (Inl ''channel closed'', out))"

definition send_app :: "session_env \<Rightarrow> session_error + session_message \<Rightarrow> session_out \<Rightarrow> (string + unit) \<times> session_out" where
  "send_app env x out =
     (if se_app_open env then (Inr (), out\<lparr>so_app := so_app out @ [x]\<rparr>) else (Inl ''channel closed'', out))"

section \<open>Common session data\<close>

text \<open>An interceptor rewrites a message or fails.\<close>

record interceptor =
  on_msg_from_app :: "message \<Rightarrow> session_error + message"
  on_msg_from_slim :: "message \<Rightarrow> session_error + message"

definition identity_session_interceptor :: "string option \<Rightarrow> interceptor" where
  "identity_session_interceptor identity = \<lparr>
     on_msg_from_app = (\<lambda>msg. Inr (case identity of
         Some i \<Rightarrow> insert_metadata ''SLIM_IDENTITY'' i msg | None \<Rightarrow> msg)),
     on_msg_from_slim = Inr\<rparr>"

record common =
  cm_id :: u32
  cm_state :: state
  cm_session_config :: session_config
  cm_session_direction :: session_direction
  cm_source :: agent
  cm_identity :: "string option"
  cm_interceptors :: "interceptor list"

definition common_new ::
    "u32 \<Rightarrow> session_direction \<Rightarrow> session_config \<Rightarrow> agent \<Rightarrow> string option \<Rightarrow> common" where
  "common_new i session_direction session_config source identity = \<lparr>
     cm_id = i, cm_state = Active, cm_session_config = session_config,
     cm_session_direction = session_direction, cm_source = source, cm_identity = identity,
     cm_interceptors = [identity_session_interceptor identity]\<rparr>"

definition common_set_session_config :: "common \<Rightarrow> session_config \<Rightarrow> session_error + common" where
  "common_set_session_config cm session_config =
     (case cm_session_config cm of
        FireAndForget_Config config \<Rightarrow>
          map_sum id (\<lambda>c. cm\<lparr>cm_session_config := FireAndForget_Config c\<rparr>) (ff_config_replace config session_config)
      | RequestResponse_Config config \<Rightarrow>
          map_sum id (\<lambda>c. cm\<lparr>cm_session_config := RequestResponse_Config c\<rparr>) (rr_config_replace config session_config)
      | Streaming_Config config \<Rightarrow>
          map_sum id (\<lambda>c. cm\<lparr>cm_session_config := Streaming_Config c\<rparr>) (st_config_replace config session_config))"

fun run_interceptors :: "(interceptor \<Rightarrow> message \<Rightarrow> session_error + message) \<Rightarrow> interceptor list \<Rightarrow> message \<Rightarrow> session_error + message" where
  "run_interceptors f [] msg = Inr msg"
| "run_interceptors f (i # rest) msg =
     (case f i msg of Inl e \<Rightarrow> Inl e | Inr msg \<Rightarrow> run_interceptors f rest msg)"

definition on_message_from_app_interceptors :: "common \<Rightarrow> message \<Rightarrow> session_error + message" where
  "on_message_from_app_interceptors cm msg = run_interceptors on_msg_from_app (cm_interceptors cm) msg"

definition on_message_from_slim_interceptors :: "common \<Rightarrow> message \<Rightarrow> session_error + message" where
  "on_message_from_slim_interceptors cm msg = run_interceptors on_msg_from_slim (cm_interceptors cm) msg"

definition common_add_interceptor :: "common \<Rightarrow> interceptor \<Rightarrow> common" where
  "common_add_interceptor cm i = cm\<lparr>cm_interceptors := cm_interceptors cm @ [i]\<rparr>"

section \<open>Laws\<close>

text \<open>How many entries of a log satisfy a predicate.\<close>

definition count :: "('a \<Rightarrow> bool) \<Rightarrow> 'a list \<Rightarrow> nat" where
  "count P xs = length (filter P xs)"

lemma count_append [simp]: "count P (xs @ [x]) = count P xs + (if P x then 1 else 0)"
  by (simp add: count_def)

lemma info_from_messageD:
  assumes "info_from_message m = Some i"
  obtains h where "get_session_header m = Some h" "in_id i = se_session_id h" "in_message_id i = Some (se_message_id h)"
    "in_session_header_type i = header_type_of_i32 (se_header_type h)"
  using assms by (auto simp: info_from_message_def bind_eq_Some_conv)

lemma header_type_roundtrip [simp]: "header_type_of_i32 (i32_of_header_type t) = t"
  by (cases t) (simp_all add: header_type_of_i32_def i32_of_header_type_def)

text \<open>Two writes to the session header of a message that has one.\<close>

lemma session_writes:
  assumes "get_session_header m = Some h"
  shows "\<exists>m1 m2. get_session_header_mut f m = Some m1 \<and> get_session_header_mut g m1 = Some m2 \<and>
    get_session_header m1 = Some (f h) \<and> get_session_header m2 = Some (g (f h))"
  using session_ref.wr_defined [OF assms, of f] session_ref.wr_defined by blast

text \<open>A publication with its two headers and a destination.\<close>

definition publication :: "message \<Rightarrow> bool" where
  "publication m \<longleftrightarrow> get_session_header m \<noteq> None \<and>
     (case get_slim_header m of None \<Rightarrow> False | Some h \<Rightarrow> sh_destination h \<noteq> None)"

lemma publicationD:
  assumes "publication m"
  obtains h g d where "get_session_header m = Some h" "get_slim_header m = Some g" "sh_destination g = Some d"
  using assms by (auto simp: publication_def split: option.splits)

lemma publication_write:
  assumes "publication m" and "get_session_header_mut f m = Some m'"
  shows "publication m'"
  using assms session_ref.rd_wr [OF assms(2)] get_session_header_mut_frame(1) [OF assms(2)]
  by (simp add: publication_def)

lemma new_publish_header_type [simp]:
  "msg_get_header_type (new_publish_with_headers h (Some (session_header_new (i32_of_header_type t) s i)) c b) = Some t"
  by (simp add: new_publish_with_headers_def publish_with_header_def message_new_def session_header_new_def
      msg_get_header_type_def get_session_header_def)

lemma new_publish_fields [simp]:
  "get_session_header (new_publish_with_headers (Some g) (Some h) c b) = Some h"
  "get_slim_header (new_publish_with_headers (Some g) (Some h) c b) = Some g"
  "msg_get_payload (new_publish_with_headers (Some g) (Some h) c b) = Some (Some \<lparr>ct_content_type = c, ct_blob = b\<rparr>)"
  by (simp_all add: new_publish_with_headers_def publish_with_header_def message_new_def get_session_header_def
      get_slim_header_def msg_get_payload_def)

text \<open>Channels with listeners and nothing sent yet, for examples.\<close>

definition open_env :: session_env where
  "open_env = \<lparr>se_slim_open = True, se_app_open = True\<rparr>"

definition empty_out :: session_out where
  "empty_out = \<lparr>so_slim = [], so_app = []\<rparr>"

end
