(* ===== verification/Request_Response.thy ===== *)
theory Request_Response
  imports Session
begin

text \<open>
  The request/response session of \<^verbatim>\<open>service/src/request_response.rs\<close>. Every request starts a
  timer without retries. A timer runs from before it is stored until it fires or its entry leaves
  the map, since a timer that is removed is dropped and thereby cancelled; one that has just fired
  may still find its entry gone. The random message identifier and the token of a new timer are
  arguments of the operation that draws them.
\<close>

record request_response =
  rq_common :: common
  rq_timers :: "(u32, timer \<times> session_message) hmap"

definition request_response_new ::
    "u32 \<Rightarrow> request_response_configuration \<Rightarrow> session_direction \<Rightarrow> agent \<Rightarrow> string option \<Rightarrow> request_response" where
  "request_response_new i session_config session_direction source identity = \<lparr>
     rq_common = common_new i session_direction (RequestResponse_Config session_config) source identity,
     rq_timers = []\<rparr>"

text \<open>\<open>on_timeout\<close> panics: the timers have no retries.\<close>

definition rq_on_timeout :: "request_response \<Rightarrow> session_out \<Rightarrow> u32 \<Rightarrow> u32 \<Rightarrow> (request_response \<times> session_out) option" where
  "rq_on_timeout rq out message_id timeouts = None"

definition rq_on_failure ::
    "session_env \<Rightarrow> request_response \<Rightarrow> session_out \<Rightarrow> u32 \<Rightarrow> (request_response \<times> session_out) option" where
  "rq_on_failure env rq out message_id = do {
     (timer, message) \<leftarrow> hm_get (=) message_id (rq_timers rq);
     let rq = rq\<lparr>rq_timers := hm_remove (=) message_id (rq_timers rq)\<rparr>;
     Some (rq, snd (send_app env (Inl (Timeout (cm_id (rq_common rq)) message_id message)) out))
   }"

type_synonym rq_result = "((session_error + unit) \<times> request_response \<times> session_out) option"

text \<open>
  \<open>send_message_with_timer\<close> in two parts, since the timer runs before it is stored: first the
  message is sent and its timer started, then timer and message go into the map. Other tasks can
  run in between.
\<close>

definition start_message_with_timer ::
    "session_env \<Rightarrow> request_response \<Rightarrow> session_out \<Rightarrow> session_message \<Rightarrow> nat \<Rightarrow>
     ((session_error + (u32 \<times> timer \<times> session_message)) \<times> session_out) option" where
  "start_message_with_timer env rq out message token = do {
     message_id \<leftarrow> in_message_id (sm_info message);
     case cm_session_config (rq_common rq) of
       RequestResponse_Config config \<Rightarrow>
         (let timer = timer_new message_id Constant (rr_timeout config) None (Some 0) token
          in case send_slim env (sm_message message) out of
               (Inl e, out) \<Rightarrow> Some (Inl (SlimTransmission e), out)
             | (Inr _, out) \<Rightarrow> Some (Inr (message_id, timer, message), out))
     | _ \<Rightarrow> Some (Inl (AppTransmission ''invalid session config''), out)
   }"

definition store_timer :: "u32 \<times> timer \<times> session_message \<Rightarrow> request_response \<Rightarrow> request_response" where
  "store_timer p rq = rq\<lparr>rq_timers := hm_insert (=) (fst p) (snd p) (rq_timers rq)\<rparr>"

definition send_message_with_timer ::
    "session_env \<Rightarrow> request_response \<Rightarrow> session_out \<Rightarrow> session_message \<Rightarrow> nat \<Rightarrow> rq_result" where
  "send_message_with_timer env rq out message token = do {
     (r, out) \<leftarrow> start_message_with_timer env rq out message token;
     Some (case r of
         Inl e \<Rightarrow> (Inl e, rq, out)
       | Inr p \<Rightarrow> (Inr (), store_timer p rq, out))
   }"

definition to_app :: "session_env \<Rightarrow> request_response \<Rightarrow> session_out \<Rightarrow> session_message \<Rightarrow> rq_result" where
  "to_app env rq out message =
     (case send_app env (Inr message) out of (r, out) \<Rightarrow> Some (map_sum AppTransmission id r, rq, out))"

definition rq_on_message ::
    "session_env \<Rightarrow> request_response \<Rightarrow> session_out \<Rightarrow> session_message \<Rightarrow> message_direction \<Rightarrow> u32 \<Rightarrow> nat \<Rightarrow> rq_result" where
  "rq_on_message env rq out message direction random token = do {
     session_header \<leftarrow> get_session_header (sm_message message);
     case direction of
       North \<Rightarrow>
         (case in_session_header_type (sm_info message) of
            Reply \<Rightarrow>
              (let message_id = se_message_id session_header
               in case hm_get (=) message_id (rq_timers rq) of
                    Some _ \<Rightarrow>
                      to_app env (rq\<lparr>rq_timers := hm_remove (=) message_id (rq_timers rq)\<rparr>) out message
                  | None \<Rightarrow>
                      Some (Inl (AppTransmission (''timer not found for message id '' @ show_u32 message_id)), rq, out))
          | Request \<Rightarrow>
              to_app env rq out (message\<lparr>sm_info := (sm_info message)\<lparr>in_session_header_type := Reply\<rparr>\<rparr>)
          | _ \<Rightarrow> Some (Inl (AppTransmission ''request/reply session: unsupported session type: ''), rq, out))
     | South \<Rightarrow> do {
         let sid = cm_id (rq_common rq);
         msg \<leftarrow> get_session_header_mut (\<lambda>h. h\<lparr>se_session_id := sid\<rparr>) (sm_message message);
         let inf0 = (sm_info message)\<lparr>in_id := sid\<rparr>;
         case in_session_header_type inf0 of
           Reply \<Rightarrow>
             (case in_message_id inf0 of
                Some message_id \<Rightarrow> do {
                  msg \<leftarrow> get_session_header_mut
                    (\<lambda>h. h\<lparr>se_message_id := message_id, se_header_type := i32_of_header_type Reply\<rparr>) msg;
                  Some (case send_slim env msg out of (r, out) \<Rightarrow> (map_sum SlimTransmission id r, rq, out))
                }
              | None \<Rightarrow> Some (Inl (SlimTransmission ''missing message id for reply''), rq, out))
         | _ \<Rightarrow> do {
             msg \<leftarrow> get_session_header_mut (session_header_set_message_id random) msg;
             msg \<leftarrow> get_session_header_mut (session_header_set_header_type Request) msg;
             send_message_with_timer env rq out \<lparr>sm_message = msg, sm_info = info_set_message_id random inf0\<rparr> token
           }
       }
   }"

section \<open>Runs\<close>

text \<open>
  A request of the application up to the moment its timer runs; \<open>rq_on_message\<close> goes on by storing
  the timer (\<open>rq_on_message_request\<close>).
\<close>

definition begin_request ::
    "session_env \<Rightarrow> request_response \<Rightarrow> session_out \<Rightarrow> session_message \<Rightarrow> u32 \<Rightarrow> nat \<Rightarrow>
     ((session_error + (u32 \<times> timer \<times> session_message)) \<times> session_out) option" where
  "begin_request env rq out message random token = do {
     let sid = cm_id (rq_common rq);
     msg \<leftarrow> get_session_header_mut (\<lambda>h. h\<lparr>se_session_id := sid\<rparr>) (sm_message message);
     msg \<leftarrow> get_session_header_mut (session_header_set_message_id random) msg;
     msg \<leftarrow> get_session_header_mut (session_header_set_header_type Request) msg;
     start_message_with_timer env rq out
       \<lparr>sm_message = msg, sm_info = info_set_message_id random ((sm_info message)\<lparr>in_id := sid\<rparr>)\<rparr> token
   }"

lemma rq_on_message_request:
  assumes "get_session_header (sm_message m) \<noteq> None" and "in_session_header_type (sm_info m) \<noteq> Reply"
  shows "rq_on_message env rq out m South random token = do {
     (r, out) \<leftarrow> begin_request env rq out m random token;
     Some (case r of Inl e \<Rightarrow> (Inl e, rq, out) | Inr p \<Rightarrow> (Inr (), store_timer p rq, out)) }"
  using assms by (cases "in_session_header_type (sm_info m)")
    (auto simp: rq_on_message_def begin_request_def send_message_with_timer_def Let_def)

text \<open>
  A run of a session: messages from the network and from the application, requests that are sent but
  not yet stored, and timers that fire at any moment. No result means that the task of the event
  panics, which leaves the session as it is.
\<close>

record rq_run =
  rn_session :: request_response
  rn_out :: session_out
  rn_flight :: "(u32 \<times> timer \<times> session_message) list"

datatype rq_event = Rq_North session_message | Rq_South session_message u32 nat | Rq_Store nat | Rq_Timer u32

definition rq_put :: "rq_run \<Rightarrow> request_response \<times> session_out \<Rightarrow> rq_run" where
  "rq_put run p = run\<lparr>rn_session := fst p, rn_out := snd p\<rparr>"

fun rq_exec :: "session_env \<Rightarrow> rq_run \<Rightarrow> rq_event \<Rightarrow> rq_run option" where
  "rq_exec env run (Rq_North m) =
     map_option (\<lambda>(r, p). rq_put run p) (rq_on_message env (rn_session run) (rn_out run) m North 0 0)"
| "rq_exec env run (Rq_South m random token) =
     (if in_session_header_type (sm_info m) = Reply
      then map_option (\<lambda>(r, p). rq_put run p) (rq_on_message env (rn_session run) (rn_out run) m South random token)
      else map_option (\<lambda>(r, out). run\<lparr>rn_out := out,
          rn_flight := rn_flight run @ (case r of Inl _ \<Rightarrow> [] | Inr p \<Rightarrow> [p])\<rparr>)
        (begin_request env (rn_session run) (rn_out run) m random token))"
| "rq_exec env run (Rq_Store k) =
     (if k < length (rn_flight run)
      then Some (run\<lparr>rn_session := store_timer (rn_flight run ! k) (rn_session run),
        rn_flight := take k (rn_flight run) @ drop (Suc k) (rn_flight run)\<rparr>)
      else None)"
| "rq_exec env run (Rq_Timer i) = map_option (rq_put run) (rq_on_failure env (rn_session run) (rn_out run) i)"

definition rq_pending :: "request_response \<Rightarrow> u32 \<Rightarrow> bool" where
  "rq_pending rq i \<longleftrightarrow> hm_get (=) i (rq_timers rq) \<noteq> None"

definition in_flight :: "u32 \<Rightarrow> rq_run \<Rightarrow> nat" where
  "in_flight i run = count (\<lambda>p. fst p = i) (rn_flight run)"

text \<open>
  The events of a run: a received message carries the information read from it, and what is stored
  was sent before. An event is orderly if it comes at the moment the session expects it: an
  application that listens, a new identifier for a request, a timer that is stored when it fires.
\<close>

fun rq_genuine :: "rq_run \<Rightarrow> rq_event \<Rightarrow> bool" where
  "rq_genuine run (Rq_North m) \<longleftrightarrow> info_from_message (sm_message m) = Some (sm_info m)"
| "rq_genuine run (Rq_Store k) \<longleftrightarrow> k < length (rn_flight run)"
| "rq_genuine run e \<longleftrightarrow> True"

fun rq_panics :: "rq_run \<Rightarrow> rq_event \<Rightarrow> bool" where
  "rq_panics run (Rq_South m random token) \<longleftrightarrow> get_session_header (sm_message m) = None"
| "rq_panics run (Rq_Timer i) \<longleftrightarrow> \<not> rq_pending (rn_session run) i"
| "rq_panics run e \<longleftrightarrow> False"

fun rq_orderly :: "session_env \<Rightarrow> rq_run \<Rightarrow> rq_event \<Rightarrow> bool" where
  "rq_orderly env run (Rq_North m) \<longleftrightarrow> se_app_open env"
| "rq_orderly env run (Rq_South m random token) \<longleftrightarrow> \<not> rq_pending (rn_session run) random \<and> in_flight random run = 0"
| "rq_orderly env run (Rq_Store k) \<longleftrightarrow> True"
| "rq_orderly env run (Rq_Timer i) \<longleftrightarrow> se_app_open env \<and> rq_pending (rn_session run) i"

text \<open>The runs of a new session, and whether all their events were orderly.\<close>

inductive rq_reachable :: "request_response \<Rightarrow> bool \<Rightarrow> rq_run \<Rightarrow> bool" for rq0 where
  start: "rq_reachable rq0 True \<lparr>rn_session = rq0, rn_out = \<lparr>so_slim = [], so_app = []\<rparr>, rn_flight = []\<rparr>"
| step: "rq_reachable rq0 orderly run \<Longrightarrow> rq_genuine run e \<Longrightarrow> rq_exec env run e = Some run' \<Longrightarrow>
    rq_reachable rq0 (orderly \<and> rq_orderly env run e) run'"

definition is_request :: "u32 \<Rightarrow> message \<Rightarrow> bool" where
  "is_request i m \<longleftrightarrow> msg_get_header_type m = Some Request \<and> msg_get_id m = Some i"

definition is_outcome :: "u32 \<Rightarrow> session_error + session_message \<Rightarrow> bool" where
  "is_outcome i x \<longleftrightarrow> (case x of
      Inr m \<Rightarrow> msg_get_header_type (sm_message m) = Some Reply \<and> msg_get_id (sm_message m) = Some i
    | Inl e \<Rightarrow> (case e of Timeout _ m _ \<Rightarrow> m = i | _ \<Rightarrow> False))"

text \<open>
  The books of a run: how many requests were sent under an identifier, how many replies and timeouts
  the application got for it, and how many requests are waiting or in flight.
\<close>

definition rq_open :: "u32 \<Rightarrow> rq_run \<Rightarrow> nat" where
  "rq_open i run = (if rq_pending (rn_session run) i then 1 else 0) + in_flight i run"

definition rq_sent :: "u32 \<Rightarrow> rq_run \<Rightarrow> nat" where
  "rq_sent i run = count (is_request i) (so_slim (rn_out run))"

definition rq_settled :: "u32 \<Rightarrow> rq_run \<Rightarrow> nat" where
  "rq_settled i run = count (is_outcome i) (so_app (rn_out run))"

definition rq_entries :: "rq_run \<Rightarrow> bool" where
  "rq_entries run \<longleftrightarrow> (\<forall>i t m. hm_get (=) i (rq_timers (rn_session run)) = Some (t, m) \<or> (i, t, m) \<in> set (rn_flight run) \<longrightarrow>
     sm_message m \<in> set (so_slim (rn_out run)) \<and> is_request i (sm_message m) \<and> tm_timer_id t = i)"

lemmas rq_books = rq_open_def rq_sent_def rq_settled_def in_flight_def rq_put_def

text \<open>
  A step changes the books from one side to the other: what it adds to the settled and the open
  requests was sent by the step or was open or settled before. With an exact step nothing is lost.
\<close>

definition rq_moves :: "rq_run \<Rightarrow> rq_run \<Rightarrow> bool \<Rightarrow> bool" where
  "rq_moves run run' exact \<longleftrightarrow> rq_entries run' \<and>
     (\<forall>i. rq_settled i run' + rq_open i run' + rq_sent i run \<le> rq_settled i run + rq_open i run + rq_sent i run') \<and>
     (exact \<longrightarrow> (\<forall>i. rq_open i run \<le> 1) \<longrightarrow> (\<forall>i. rq_open i run' \<le> 1 \<and>
        rq_settled i run' + rq_open i run' + rq_sent i run = rq_settled i run + rq_open i run + rq_sent i run'))"

lemma rq_moves_refl: "rq_entries run \<Longrightarrow> rq_moves run run exact"
  by (simp add: rq_moves_def)

lemma rq_put_same [simp]: "rq_put run (rn_session run, rn_out run) = run"
  by (simp add: rq_put_def)

lemma rq_pending_simps [simp]:
  "rq_pending (rq\<lparr>rq_timers := hm_remove (=) k (rq_timers rq)\<rparr>) i \<longleftrightarrow> i \<noteq> k \<and> rq_pending rq i"
  "rq_pending (store_timer p rq) i \<longleftrightarrow> i = fst p \<or> rq_pending rq i"
  by (auto simp: rq_pending_def store_timer_def)

text \<open>A waiting request leaves the map and, if the application listens, the application gets \<open>x\<close>.\<close>

lemma rq_settle_moves:
  assumes "rq_entries run" and "rq_pending (rn_session run) i" and "\<And>j. is_outcome j x \<longleftrightarrow> j = i"
  shows "rq_moves run (rq_put run ((rn_session run)\<lparr>rq_timers := hm_remove (=) i (rq_timers (rn_session run))\<rparr>,
    snd (send_app env x (rn_out run)))) (se_app_open env)"
  using assms by (auto simp: rq_moves_def rq_books send_app_def rq_entries_def split: if_splits)

lemma rq_app_moves:
  assumes "rq_entries run" and "\<And>j. \<not> is_outcome j x"
  shows "rq_moves run (rq_put run (rn_session run, snd (send_app env x (rn_out run)))) exact"
  using assms by (auto simp: rq_moves_def rq_books send_app_def rq_entries_def)

lemma rq_timer_step:
  assumes "rq_entries run" and "rq_exec env run (Rq_Timer i) = Some run'"
  shows "rq_moves run run' (rq_orderly env run (Rq_Timer i))"
proof -
  obtain t m where tm: "hm_get (=) i (rq_timers (rn_session run)) = Some (t, m)"
    using assms(2) by (cases "hm_get (=) i (rq_timers (rn_session run))") (auto simp: rq_on_failure_def)
  let ?x = "Inl (Timeout (cm_id (rq_common (rn_session run))) i m)"
  have "run' = rq_put run ((rn_session run)\<lparr>rq_timers := hm_remove (=) i (rq_timers (rn_session run))\<rparr>,
      snd (send_app env ?x (rn_out run)))"
    using assms(2) tm by (simp add: rq_on_failure_def Let_def)
  moreover have "is_outcome j ?x \<longleftrightarrow> j = i" for j by (auto simp: is_outcome_def)
  moreover have "rq_pending (rn_session run) i" using tm by (simp add: rq_pending_def)
  ultimately show ?thesis using rq_settle_moves [OF assms(1), of i ?x env] by simp
qed

lemma rq_north_step:
  assumes "rq_entries run" and inf: "info_from_message (sm_message m) = Some (sm_info m)"
  shows "\<exists>run'. rq_exec env run (Rq_North m) = Some run' \<and> rq_moves run run' (rq_orderly env run (Rq_North m))"
proof -
  obtain h where h: "get_session_header (sm_message m) = Some h"
      "in_session_header_type (sm_info m) = header_type_of_i32 (se_header_type h)"
    using info_from_messageD [OF inf] by blast
  let ?t = "header_type_of_i32 (se_header_type h)" and ?i = "se_message_id h" and ?rq = "rn_session run"
  have ht: "msg_get_header_type (sm_message m) = Some ?t" "msg_get_id (sm_message m) = Some ?i"
    using h(1) by (simp_all add: msg_get_header_type_def msg_get_id_def)
  consider "?t = Reply" "rq_pending ?rq ?i" | "?t = Request" | "\<not> (?t = Reply \<and> rq_pending ?rq ?i)" "?t \<noteq> Request" by blast
  then show ?thesis
  proof cases
    case 1
    have "rq_exec env run (Rq_North m) = Some (rq_put run (?rq\<lparr>rq_timers := hm_remove (=) ?i (rq_timers ?rq)\<rparr>,
        snd (send_app env (Inr m) (rn_out run))))"
      using 1 h by (auto simp: rq_on_message_def rq_pending_def to_app_def Let_def case_prod_beta)
    moreover have "is_outcome j (Inr m) \<longleftrightarrow> j = ?i" for j using ht 1 by (auto simp: is_outcome_def)
    ultimately show ?thesis using rq_settle_moves [OF assms(1) 1(2), of "Inr m" env] by (simp del: rq_exec.simps)
  next
    case 2
    let ?m = "m\<lparr>sm_info := (sm_info m)\<lparr>in_session_header_type := Reply\<rparr>\<rparr>"
    have "rq_exec env run (Rq_North m) = Some (rq_put run (?rq, snd (send_app env (Inr ?m) (rn_out run))))"
      using 2 h by (simp add: rq_on_message_def to_app_def case_prod_beta)
    moreover have "\<not> is_outcome j (Inr ?m)" for j using ht 2 by (simp add: is_outcome_def)
    ultimately show ?thesis using rq_app_moves [OF assms(1), of "Inr ?m" env] by (simp del: rq_exec.simps)
  next
    case 3
    have "rq_exec env run (Rq_North m) = Some run"
      using 3 h by (cases ?t; cases "hm_get (=) ?i (rq_timers ?rq)") (simp_all add: rq_on_message_def Let_def rq_pending_def)
    then show ?thesis using rq_moves_refl [OF assms(1)] by blast
  qed
qed

lemma rq_reply_step:
  assumes "rq_entries run" and h: "get_session_header (sm_message m) = Some h"
    and ht: "in_session_header_type (sm_info m) = Reply"
  shows "\<exists>run'. rq_exec env run (Rq_South m random token) = Some run' \<and> rq_moves run run' exact"
proof (cases "in_message_id (sm_info m)")
  case None
  have "get_session_header_mut (\<lambda>h. h\<lparr>se_session_id := cm_id (rq_common (rn_session run))\<rparr>) (sm_message m) \<noteq> None"
    using h by (simp add: session_ref.wr_panic_iff)
  then have "rq_exec env run (Rq_South m random token) = Some run"
    using ht h None by (auto simp: rq_on_message_def Let_def)
  then show ?thesis using rq_moves_refl [OF assms(1)] by blast
next
  case (Some i)
  let ?f = "\<lambda>h. h\<lparr>se_session_id := cm_id (rq_common (rn_session run))\<rparr>"
    and ?g = "\<lambda>h. h\<lparr>se_message_id := i, se_header_type := i32_of_header_type Reply\<rparr>"
  obtain m1 m2 where w: "get_session_header_mut ?f (sm_message m) = Some m1" "get_session_header_mut ?g m1 = Some m2"
      "get_session_header m2 = Some (?g (?f h))"
    using session_writes [OF h, of ?f ?g] by blast
  have "\<not> is_request j m2" for j using w(3) by (simp add: is_request_def msg_get_header_type_def)
  then have "rq_moves run (rq_put run (rn_session run, snd (send_slim env m2 (rn_out run)))) exact"
    using assms(1) by (auto simp: rq_moves_def rq_books send_slim_def rq_entries_def)
  moreover have "rq_exec env run (Rq_South m random token) = Some (rq_put run (rn_session run, snd (send_slim env m2 (rn_out run))))"
    using ht Some h w(1,2) by (simp add: rq_on_message_def Let_def case_prod_beta)
  ultimately show ?thesis by blast
qed

lemma begin_request_spec:
  assumes h: "get_session_header (sm_message m) = Some h"
  shows "(\<exists>e. begin_request env rq out m random token = Some (Inl e, out)) \<or>
    (\<exists>t sm. begin_request env rq out m random token =
        Some (Inr (random, t, sm), out\<lparr>so_slim := so_slim out @ [sm_message sm]\<rparr>) \<and>
      tm_timer_id t = random \<and> (\<forall>j. is_request j (sm_message sm) \<longleftrightarrow> j = random))"
proof -
  let ?h1 = "h\<lparr>se_session_id := cm_id (rq_common rq)\<rparr>"
  obtain m1 where m1: "get_session_header_mut (\<lambda>h. h\<lparr>se_session_id := cm_id (rq_common rq)\<rparr>) (sm_message m) = Some m1"
      "get_session_header m1 = Some ?h1"
    using session_ref.wr_defined [OF h] by blast
  obtain m2 m3 where w: "get_session_header_mut (session_header_set_message_id random) m1 = Some m2"
      "get_session_header_mut (session_header_set_header_type Request) m2 = Some m3"
      "get_session_header m3 = Some (session_header_set_header_type Request (session_header_set_message_id random ?h1))"
    using session_writes [OF m1(2)] by blast
  let ?sm = "\<lparr>sm_message = m3, sm_info = info_set_message_id random ((sm_info m)\<lparr>in_id := cm_id (rq_common rq)\<rparr>)\<rparr>"
  have "is_request j m3 \<longleftrightarrow> j = random" for j
    using w(3) by (auto simp: is_request_def msg_get_header_type_def msg_get_id_def
        session_header_set_header_type_def session_header_set_message_id_def)
  moreover have "begin_request env rq out m random token = start_message_with_timer env rq out ?sm token"
    using m1(1) w(1,2) by (simp add: begin_request_def)
  ultimately show ?thesis
    by (cases "cm_session_config (rq_common rq)"; cases "se_slim_open env")
      (auto simp: start_message_with_timer_def send_slim_def info_set_message_id_def timer_new_def Let_def)
qed

lemma rq_request_step:
  assumes "rq_entries run" and h: "get_session_header (sm_message m) = Some h"
    and ht: "in_session_header_type (sm_info m) \<noteq> Reply"
  shows "\<exists>run'. rq_exec env run (Rq_South m random token) = Some run' \<and>
    rq_moves run run' (rq_orderly env run (Rq_South m random token))"
  using begin_request_spec [OF h, of env "rn_session run" "rn_out run" random token]
proof (elim disjE exE conjE)
  fix e
  assume "begin_request env (rn_session run) (rn_out run) m random token = Some (Inl e, rn_out run)"
  then have "rq_exec env run (Rq_South m random token) = Some run" using ht by simp
  then show ?thesis using rq_moves_refl [OF assms(1)] by blast
next
  fix t sm
  assume b: "begin_request env (rn_session run) (rn_out run) m random token =
      Some (Inr (random, t, sm), (rn_out run)\<lparr>so_slim := so_slim (rn_out run) @ [sm_message sm]\<rparr>)"
    and t: "tm_timer_id t = random" and req: "\<forall>j. is_request j (sm_message sm) \<longleftrightarrow> j = random"
  let ?run = "run\<lparr>rn_out := (rn_out run)\<lparr>so_slim := so_slim (rn_out run) @ [sm_message sm]\<rparr>,
    rn_flight := rn_flight run @ [(random, t, sm)]\<rparr>"
  have "rq_exec env run (Rq_South m random token) = Some ?run" using ht b by simp
  moreover have "rq_entries ?run" using assms(1) t req by (auto simp: rq_entries_def)
  then have "rq_moves run ?run (rq_orderly env run (Rq_South m random token))"
    using req by (auto simp: rq_moves_def rq_books)
  ultimately show ?thesis by blast
qed

lemma count_remove_nth:
  assumes "k < length xs"
  shows "count P xs = count P (take k xs @ drop (Suc k) xs) + (if P (xs ! k) then 1 else 0)"
proof -
  have "count P xs = count P (take k xs @ xs ! k # drop (Suc k) xs)" using id_take_nth_drop [OF assms] by simp
  then show ?thesis by (simp add: count_def)
qed

lemma rq_store_step:
  assumes "rq_entries run" and k: "k < length (rn_flight run)"
  shows "\<exists>run'. rq_exec env run (Rq_Store k) = Some run' \<and> rq_moves run run' exact"
proof -
  let ?p = "rn_flight run ! k" and ?rest = "take k (rn_flight run) @ drop (Suc k) (rn_flight run)"
  let ?run = "run\<lparr>rn_session := store_timer ?p (rn_session run), rn_flight := ?rest\<rparr>"
  have fl: "in_flight i run = in_flight i ?run + (if i = fst ?p then 1 else 0)" for i
    using count_remove_nth [OF k, of "\<lambda>p. fst p = i"] by (auto simp: in_flight_def)
  obtain j t m where p: "?p = (j, t, m)" by (cases ?p) auto
  have "(j, t, m) \<in> set (rn_flight run)" "set ?rest \<subseteq> set (rn_flight run)"
    using k nth_mem [OF k] unfolding p by (auto dest: in_set_takeD in_set_dropD)
  then have "rq_entries ?run"
    using assms(1) unfolding p by (auto simp: rq_entries_def store_timer_def split: if_splits)
  moreover have "rq_open i ?run \<le> rq_open i run" "rq_open i run \<le> 1 \<Longrightarrow> rq_open i ?run = rq_open i run" for i
    using fl [of i] by (auto simp: rq_open_def split: if_splits)
  moreover have "rq_sent i ?run = rq_sent i run" "rq_settled i ?run = rq_settled i run" for i
    by (simp_all add: rq_sent_def rq_settled_def)
  ultimately have "rq_moves run ?run exact" unfolding rq_moves_def by simp
  then show ?thesis using k by simp
qed

lemma rq_exec_step:
  assumes "rq_entries run" and "rq_genuine run e"
  shows "rq_exec env run e = None \<longleftrightarrow> rq_panics run e"
    and "rq_exec env run e = Some run' \<Longrightarrow> rq_moves run run' (rq_orderly env run e)"
proof -
  have "(rq_exec env run e = None \<longleftrightarrow> rq_panics run e) \<and>
      (\<forall>run'. rq_exec env run e = Some run' \<longrightarrow> rq_moves run run' (rq_orderly env run e))"
  proof (cases e)
    case (Rq_North m)
    then show ?thesis using rq_north_step [OF assms(1), of m env] assms(2) by (auto simp del: rq_exec.simps)
  next
    case (Rq_South m random token)
    show ?thesis
    proof (cases "get_session_header (sm_message m)")
      case None
      then have "rq_exec env run e = None"
        using Rq_South session_ref.wr_panic_iff [of _ "sm_message m"] by (simp add: rq_on_message_def begin_request_def)
      then show ?thesis using Rq_South None by (simp del: rq_exec.simps)
    next
      case (Some h)
      then show ?thesis
        using Rq_South rq_reply_step [OF assms(1) Some, of env random token] rq_request_step [OF assms(1) Some, of env random token]
        by (cases "in_session_header_type (sm_info m) = Reply") (fastforce simp del: rq_exec.simps)+
    qed
  next
    case (Rq_Store k)
    then show ?thesis using rq_store_step [OF assms(1), of k env] assms(2) by (auto simp del: rq_exec.simps)
  next
    case (Rq_Timer i)
    have "rq_exec env run e = None \<longleftrightarrow> rq_panics run e"
      by (cases "hm_get (=) i (rq_timers (rn_session run))") (auto simp: Rq_Timer rq_on_failure_def rq_pending_def Let_def)
    then show ?thesis using Rq_Timer rq_timer_step [OF assms(1), of env i] by (auto simp del: rq_exec.simps)
  qed
  then show "rq_exec env run e = None \<longleftrightarrow> rq_panics run e"
    and "rq_exec env run e = Some run' \<Longrightarrow> rq_moves run run' (rq_orderly env run e)" by auto
qed

lemma rq_reachable_books:
  assumes "rq_reachable (request_response_new j conf dir source identity) orderly run"
  shows "rq_entries run \<and> (\<forall>i. rq_settled i run + rq_open i run \<le> rq_sent i run) \<and>
    (orderly \<longrightarrow> (\<forall>i. rq_open i run \<le> 1 \<and> rq_settled i run + rq_open i run = rq_sent i run))"
  using assms
proof (induction rule: rq_reachable.induct)
  case start
  then show ?case by (simp add: rq_entries_def rq_books request_response_new_def rq_pending_def count_def)
next
  case (step orderly run e env run')
  have m: "rq_moves run run' (rq_orderly env run e)" using rq_exec_step(2) step by blast
  have "rq_settled i run' + rq_open i run' \<le> rq_sent i run'" for i
  proof -
    have "rq_settled i run' + rq_open i run' + rq_sent i run \<le> rq_settled i run + rq_open i run + rq_sent i run'"
      using m by (simp add: rq_moves_def)
    moreover have "rq_settled i run + rq_open i run \<le> rq_sent i run" using step.IH by simp
    ultimately show ?thesis by linarith
  qed
  moreover have "rq_open i run' \<le> 1 \<and> rq_settled i run' + rq_open i run' = rq_sent i run'" if "orderly" "rq_orderly env run e" for i
  proof -
    have ih: "\<forall>i. rq_open i run \<le> 1" "rq_settled i run + rq_open i run = rq_sent i run" using step.IH that(1) by simp_all
    then have "rq_open i run' \<le> 1" "rq_settled i run' + rq_open i run' + rq_sent i run = rq_settled i run + rq_open i run + rq_sent i run'"
      using m that(2) unfolding rq_moves_def by blast+
    then show ?thesis using ih(2) by linarith
  qed
  moreover have "rq_entries run'" using m by (simp add: rq_moves_def)
  ultimately show ?case by blast
qed

section \<open>Properties of request/response sessions\<close>

text \<open>
  C25: in every run of a request/response session, whatever identifiers the requests draw, whenever
  their timers fire and whether or not anyone listens, a request is settled at most once: for each
  identifier the replies and timeouts handed to the application, the requests waiting and those sent
  but not yet stored are together no more than the requests sent. What waits was sent, under its own
  identifier, with a timer of that identifier. A task panics exactly when a timer fires whose request
  is not stored (any more), or the application sends a message without session header. If moreover
  every request draws an identifier that is neither waiting nor in flight, timers fire only when
  stored, and the application listens, then no request is lost either: the numbers are equal, and at
  most one request is open per identifier.
\<close>

theorem requests_settled_once:
  assumes "rq_reachable (request_response_new j conf dir source identity) orderly run"
  shows "rq_entries run \<and> (\<forall>i. rq_settled i run + rq_open i run \<le> rq_sent i run) \<and>
    (\<forall>env e. rq_genuine run e \<longrightarrow> (rq_exec env run e = None \<longleftrightarrow> rq_panics run e)) \<and>
    (orderly \<longrightarrow> (\<forall>i. rq_open i run \<le> 1 \<and> rq_settled i run + rq_open i run = rq_sent i run))"
  using rq_reachable_books [OF assms] rq_exec_step(1) by blast

definition demo_rq :: request_response where
  "demo_rq = request_response_new 3 \<lparr>rr_timeout = 5\<rparr> Bidirectional sample_source None"

definition demo_rq_msg :: session_message where
  "demo_rq_msg = \<lparr>sm_message = new_publish sample_source sample_type None None ''text'' [1], sm_info = info_new 3\<rparr>"

text \<open>A request whose timer has fired, and one whose timer fires too early.\<close>

fun rq_execs :: "session_env \<Rightarrow> rq_run \<Rightarrow> rq_event list \<Rightarrow> rq_run option" where
  "rq_execs env run [] = Some run"
| "rq_execs env run (e # es) = (if rq_genuine run e \<and> rq_orderly env run e
     then Option.bind (rq_exec env run e) (\<lambda>run. rq_execs env run es) else None)"

lemma rq_execs_reachable: "rq_execs env run es = Some run' \<Longrightarrow> rq_reachable rq0 True run \<Longrightarrow> rq_reachable rq0 True run'"
proof (induction es arbitrary: run)
  case (Cons e es)
  then obtain run1 where "rq_genuine run e" "rq_orderly env run e" "rq_exec env run e = Some run1" "rq_execs env run1 es = Some run'"
    by (auto simp: bind_eq_Some_conv split: if_splits)
  then show ?case using rq_reachable.step [OF Cons.prems(2), of e env run1] Cons.IH [of run1] by simp
qed simp

definition demo_rq_start :: rq_run where
  "demo_rq_start = \<lparr>rn_session = demo_rq, rn_out = \<lparr>so_slim = [], so_app = []\<rparr>, rn_flight = []\<rparr>"

theorem requests_settled_once_witness:
  "\<exists>run1 run2. rq_execs \<lparr>se_slim_open = True, se_app_open = True\<rparr> demo_rq_start [Rq_South demo_rq_msg 5 0] = Some run1 \<and>
     in_flight 5 run1 = 1 \<and> rq_sent 5 run1 = 1 \<and> rq_settled 5 run1 = 0 \<and>
     rq_exec \<lparr>se_slim_open = True, se_app_open = True\<rparr> run1 (Rq_Timer 5) = None \<and>
     rq_execs \<lparr>se_slim_open = True, se_app_open = True\<rparr> run1 [Rq_Store 0, Rq_Timer 5] = Some run2 \<and>
     rq_open 5 run2 = 0 \<and> rq_settled 5 run2 = 1 \<and> rq_sent 5 run2 = 1"
proof -
  let ?env = "\<lparr>se_slim_open = True, se_app_open = True\<rparr>"
  have start: "rq_reachable demo_rq True demo_rq_start" unfolding demo_rq_start_def by (rule rq_reachable.start)
  have "map_option (\<lambda>run. in_flight 5 run = 1 \<and> rq_sent 5 run = 1 \<and> \<not> rq_pending (rn_session run) 5)
      (rq_execs ?env demo_rq_start [Rq_South demo_rq_msg 5 0]) = Some True" by code_simp
  then obtain run1 where run1: "rq_execs ?env demo_rq_start [Rq_South demo_rq_msg 5 0] = Some run1"
      "in_flight 5 run1 = 1" "rq_sent 5 run1 = 1" "\<not> rq_pending (rn_session run1) 5" by auto
  note reach1 = rq_execs_reachable [OF run1(1) start]
  have "map_option (\<lambda>run. rq_open 5 run = 0 \<and> rq_sent 5 run = 1)
      (rq_execs ?env demo_rq_start [Rq_South demo_rq_msg 5 0, Rq_Store 0, Rq_Timer 5]) = Some True" by code_simp
  then obtain run2 where run2: "rq_execs ?env run1 [Rq_Store 0, Rq_Timer 5] = Some run2" "rq_open 5 run2 = 0" "rq_sent 5 run2 = 1"
    using run1(1) by (auto simp del: rq_exec.simps rq_genuine.simps rq_orderly.simps split: if_splits bind_splits)
  note settled = requests_settled_once [OF reach1 [unfolded demo_rq_def]]
    requests_settled_once [OF rq_execs_reachable [OF run2(1) reach1, unfolded demo_rq_def]]
  have "rq_exec ?env run1 (Rq_Timer 5) = None" using settled(1) run1(4) by (simp del: rq_exec.simps)
  moreover have "rq_settled 5 run1 + rq_open 5 run1 = rq_sent 5 run1" "rq_settled 5 run2 + rq_open 5 run2 = rq_sent 5 run2"
    using settled by blast+
  then have "rq_settled 5 run1 = 0" "rq_settled 5 run2 = 1"
    using run1(2-4) run2(2,3) by (simp_all add: rq_open_def [of _ run1])
  ultimately show ?thesis using run1 run2 by blast
qed

end
