(* ===== verification/Fire_And_Forget.thy ===== *)
theory Fire_And_Forget
  imports Session
begin

text \<open>
  The fire-and-forget session of \<^verbatim>\<open>service/src/fire_and_forget.rs\<close>: plain and acknowledged
  messages, and sticky sessions, which discover one peer and then send everything to it. A task
  takes one internal message at a time from a channel. \<open>rnd\<close> and \<open>tok\<close> give the random message
  identifiers and the timer tokens an operation draws, counted from zero.
\<close>

section \<open>State and operations\<close>

datatype sticky_session_status = Uninitialized | Discovering | Established

datatype internal_message =
  OnMessage session_message message_direction
| SetConfig fire_and_forget_configuration
| TimerTimeout u32 u32
| TimerFailure u32 u32

record fire_and_forget_state =
  fs_session_id :: u32
  fs_source :: agent
  fs_config :: fire_and_forget_configuration
  fs_timers :: "(u32, timer \<times> message) hmap"
  fs_sticky_name :: "agent option"
  fs_sticky_connection :: "u64 option"
  fs_sticky_session_status :: sticky_session_status
  fs_sticky_buffer :: "message list"

type_synonym ff_result = "((session_error + unit) \<times> fire_and_forget_state \<times> session_out) option"

definition handle_timer_timeout ::
    "session_env \<Rightarrow> fire_and_forget_state \<Rightarrow> session_out \<Rightarrow> u32 \<Rightarrow> fire_and_forget_state \<times> session_out" where
  "handle_timer_timeout env st out message_id =
     (case hm_get (=) message_id (fs_timers st) of
        Some (timer, message) \<Rightarrow> (st, snd (send_slim env message out))
      | None \<Rightarrow> (st, out))"

definition handle_timer_failure ::
    "session_env \<Rightarrow> fire_and_forget_state \<Rightarrow> session_out \<Rightarrow> u32 \<Rightarrow> (fire_and_forget_state \<times> session_out) option" where
  "handle_timer_failure env st out message_id =
     (case hm_get (=) message_id (fs_timers st) of
        Some (timer, message) \<Rightarrow> do {
          let st = st\<lparr>fs_timers := hm_remove (=) message_id (fs_timers st)\<rparr>;
          m \<leftarrow> session_message_from message;
          Some (st, snd (send_app env (Inl (Timeout (fs_session_id st) message_id m)) out))
        }
      | None \<Rightarrow> Some (st, out))"

definition start_sticky_session_discovery ::
    "session_env \<Rightarrow> fire_and_forget_state \<Rightarrow> session_out \<Rightarrow> agent_type \<Rightarrow> ff_result" where
  "start_sticky_session_discovery env st out agent_type = do {
     let probe = new_publish (fs_source st) agent_type None None ''sticky_session_discovery'' [];
     probe \<leftarrow> get_session_header_mut (session_header_set_header_type FnfDiscovery) probe;
     probe \<leftarrow> get_session_header_mut (session_header_set_session_id (fs_session_id st)) probe;
     let st = st\<lparr>fs_sticky_session_status := Discovering\<rparr>;
     Some (case send_slim env probe out of (r, out) \<Rightarrow> (map_sum SlimTransmission id r, st, out))
   }"

definition ff_send_message ::
    "session_env \<Rightarrow> fire_and_forget_state \<Rightarrow> session_out \<Rightarrow> message \<Rightarrow> u32 \<Rightarrow> nat \<Rightarrow> ff_result" where
  "ff_send_message env st out message message_id token = do {
     message \<leftarrow> get_session_header_mut (session_header_set_message_id message_id) message;
     message \<leftarrow> get_session_header_mut (session_header_set_session_id (fs_session_id st)) message;
     message \<leftarrow> (case fs_sticky_name st of
         Some name \<Rightarrow> do {
           message \<leftarrow> get_slim_header_mut (slim_header_set_destination name) message;
           get_slim_header_mut (slim_header_set_forward_to (fs_sticky_connection st)) message
         }
       | None \<Rightarrow> Some message);
     st \<leftarrow> (case ff_timeout (fs_config st) of
         Some timeout_duration \<Rightarrow> do {
           message_id \<leftarrow> msg_get_id message;
           let timer = timer_new message_id Constant timeout_duration None (ff_max_retries (fs_config st)) token;
           Some (st\<lparr>fs_timers := hm_insert (=) message_id (timer, message) (fs_timers st)\<rparr>)
         }
       | None \<Rightarrow> Some st);
     Some (case send_slim env message out of (r, out) \<Rightarrow> (map_sum SlimTransmission id r, st, out))
   }"

definition handle_sticky_session_discovery ::
    "session_env \<Rightarrow> fire_and_forget_state \<Rightarrow> session_out \<Rightarrow> session_message \<Rightarrow> u32 \<Rightarrow> nat \<Rightarrow> ff_result" where
  "handle_sticky_session_discovery env st out message rid token = do {
     source \<leftarrow> msg_get_source (sm_message message);
     conn \<leftarrow> msg_get_incoming_conn (sm_message message);
     let reply = new_publish (fs_source st) (ag_type source) (Some (ag_id source))
           (Some (with_forward_to flags_default conn)) ''sticky_session_discovery_reply'' [];
     reply \<leftarrow> get_session_header_mut (session_header_set_header_type FnfDiscoveryReply) reply;
     let st = st\<lparr>fs_sticky_name := Some source, fs_sticky_connection := Some conn,
           fs_sticky_session_status := Established\<rparr>;
     ff_send_message env st out reply rid token
   }"

text \<open>Sending the buffered messages; the first failure ends the loop.\<close>

fun send_buffered ::
    "session_env \<Rightarrow> fire_and_forget_state \<Rightarrow> session_out \<Rightarrow> message list \<Rightarrow> nat \<Rightarrow> (nat \<Rightarrow> u32) \<Rightarrow> (nat \<Rightarrow> nat) \<Rightarrow> ff_result" where
  "send_buffered env st out [] k rnd tok = Some (Inr (), st, out)"
| "send_buffered env st out (m # ms) k rnd tok = do {
     (r, st, out) \<leftarrow> ff_send_message env st out m (rnd k) (tok k);
     case r of Inl e \<Rightarrow> Some (Inl e, st, out) | Inr _ \<Rightarrow> send_buffered env st out ms (k + 1) rnd tok
   }"

definition handle_sticky_session_discovery_reply ::
    "session_env \<Rightarrow> fire_and_forget_state \<Rightarrow> session_out \<Rightarrow> session_message \<Rightarrow> (nat \<Rightarrow> u32) \<Rightarrow> (nat \<Rightarrow> nat) \<Rightarrow> ff_result" where
  "handle_sticky_session_discovery_reply env st out message rnd tok = do {
     source \<leftarrow> msg_get_source (sm_message message);
     case fs_sticky_session_status st of
       Discovering \<Rightarrow> do {
         conn \<leftarrow> msg_get_incoming_conn (sm_message message);
         let messages = fs_sticky_buffer st;
         let st = st\<lparr>fs_sticky_name := Some source, fs_sticky_connection := Some conn,
               fs_sticky_session_status := Established, fs_sticky_buffer := []\<rparr>;
         send_buffered env st out messages 0 rnd tok
       }
     | _ \<Rightarrow>
         (case fs_sticky_name st of
            Some name \<Rightarrow>
              Some (Inl (AppTransmission
                (if \<not> agent_eq name source
                 then ''sticky session already established with a different name: '' @ agent_display name @
                      '', received: '' @ agent_display source
                 else ''sticky session already established'')), st, out)
          | None \<Rightarrow> Some (Inr (), st, out))
   }"

definition ff_handle_message_to_slim ::
    "session_env \<Rightarrow> fire_and_forget_state \<Rightarrow> session_out \<Rightarrow> session_message \<Rightarrow> u32 \<Rightarrow> nat \<Rightarrow> ff_result" where
  "ff_handle_message_to_slim env st out message rid token = do {
     msg \<leftarrow> get_session_header_mut (session_header_set_header_type
        (if ff_timeout (fs_config st) \<noteq> None then FnfReliable else Fnf)) (sm_message message);
     if ff_sticky (fs_config st)
     then (case fs_sticky_name st of
         Some name \<Rightarrow> do {
           msg \<leftarrow> get_slim_header_mut (slim_header_set_destination name) msg;
           msg \<leftarrow> get_slim_header_mut (slim_header_set_forward_to (fs_sticky_connection st)) msg;
           ff_send_message env st out msg rid token
         }
       | None \<Rightarrow>
           (case fs_sticky_session_status st of
              Uninitialized \<Rightarrow> do {
                header \<leftarrow> get_slim_header msg;
                (t, _) \<leftarrow> slim_header_get_dst header;
                (r, st, out) \<leftarrow> start_sticky_session_discovery env st out t;
                case r of
                  Inl e \<Rightarrow> Some (Inl e, st, out)
                | Inr _ \<Rightarrow> Some (Inr (), st\<lparr>fs_sticky_buffer := fs_sticky_buffer st @ [msg]\<rparr>, out)
              }
            | Established \<Rightarrow> Some (Inl (AppTransmission ''sticky session already established''), st, out)
            | Discovering \<Rightarrow> Some (Inr (), st\<lparr>fs_sticky_buffer := fs_sticky_buffer st @ [msg]\<rparr>, out)))
     else ff_send_message env st out msg rid token
   }"

definition ff_send_message_to_app ::
    "session_env \<Rightarrow> fire_and_forget_state \<Rightarrow> session_out \<Rightarrow> session_message \<Rightarrow> ff_result" where
  "ff_send_message_to_app env st out message =
     (case send_app env (Inr message) out of (r, out) \<Rightarrow> Some (map_sum SlimTransmission id r, st, out))"

definition stop_and_remove_timer ::
    "fire_and_forget_state \<Rightarrow> u32 \<Rightarrow> (session_error + unit) \<times> fire_and_forget_state" where
  "stop_and_remove_timer st message_id =
     (case hm_get (=) message_id (fs_timers st) of
        Some _ \<Rightarrow> (Inr (), st\<lparr>fs_timers := hm_remove (=) message_id (fs_timers st)\<rparr>)
      | None \<Rightarrow> (Inl (AppTransmission (''timer not found for message id '' @ show_u32 message_id)), st))"

definition ff_handle_message_to_app ::
    "session_env \<Rightarrow> fire_and_forget_state \<Rightarrow> session_out \<Rightarrow> session_message \<Rightarrow> (nat \<Rightarrow> u32) \<Rightarrow> (nat \<Rightarrow> nat) \<Rightarrow> ff_result" where
  "ff_handle_message_to_app env st out message rnd tok = do {
     message_id \<leftarrow> in_message_id (sm_info message);
     mismatch \<leftarrow> (if ff_sticky (fs_config st)
        then (case fs_sticky_name st of
            Some name \<Rightarrow> do {
              source \<leftarrow> msg_get_source (sm_message message);
              Some (if \<not> agent_eq name source
                then Some (''message source '' @ agent_display source @ '' does not match sticky name '' @ agent_display name)
                else None)
            }
          | None \<Rightarrow> Some None)
        else Some None);
     case mismatch of
       Some text \<Rightarrow> Some (Inl (AppTransmission text), st, out)
     | None \<Rightarrow> do {
         t \<leftarrow> msg_get_header_type (sm_message message);
         case t of
           Fnf \<Rightarrow> ff_send_message_to_app env st out message
         | FnfReliable \<Rightarrow> do {
             src \<leftarrow> msg_get_source (sm_message message);
             conn \<leftarrow> msg_get_incoming_conn (sm_message message);
             let ack = new_publish_with_headers
                   (Some (slim_header_new (fs_source st) (ag_type src) (Some (ag_id src))
                      (Some (with_forward_to flags_default conn))))
                   (Some (session_header_new (i32_of_header_type FnfAck) (in_id (sm_info message)) message_id)) '''' [];
             case send_slim env ack out of
               (Inl e, out) \<Rightarrow> Some (Inl (SlimTransmission e), st, out)
             | (Inr _, out) \<Rightarrow> ff_send_message_to_app env st out message
           }
         | FnfAck \<Rightarrow> Some (case stop_and_remove_timer st message_id of (r, st) \<Rightarrow> (r, st, out))
         | FnfDiscovery \<Rightarrow> handle_sticky_session_discovery env st out message (rnd 0) (tok 0)
         | FnfDiscoveryReply \<Rightarrow> handle_sticky_session_discovery_reply env st out message rnd tok
         | _ \<Rightarrow> Some (Inl (AppTransmission (''invalid session header '' @ digits 10 (unat (i32_of_header_type t)))), st, out)
       }
   }"

text \<open>One turn of \<open>process_loop\<close>; an error is only logged.\<close>

definition process_internal ::
    "session_env \<Rightarrow> fire_and_forget_state \<Rightarrow> session_out \<Rightarrow> internal_message \<Rightarrow> (nat \<Rightarrow> u32) \<Rightarrow> (nat \<Rightarrow> nat) \<Rightarrow>
     (fire_and_forget_state \<times> session_out) option" where
  "process_internal env st out im rnd tok =
     (case im of
        OnMessage message direction \<Rightarrow>
          map_option snd
            (case direction of
               North \<Rightarrow> ff_handle_message_to_app env st out message rnd tok
             | South \<Rightarrow> ff_handle_message_to_slim env st out message (rnd 0) (tok 0))
      | SetConfig config \<Rightarrow> Some (st\<lparr>fs_config := config\<rparr>, out)
      | TimerTimeout message_id timeouts \<Rightarrow> Some (handle_timer_timeout env st out message_id)
      | TimerFailure message_id timeouts \<Rightarrow> handle_timer_failure env st out message_id)"

text \<open>The loop over the messages taken from the channel; when it ends the timers are stopped.\<close>

type_synonym turn = "internal_message \<times> (nat \<Rightarrow> u32) \<times> (nat \<Rightarrow> nat)"

fun process_run ::
    "session_env \<Rightarrow> fire_and_forget_state \<Rightarrow> session_out \<Rightarrow> turn list \<Rightarrow> (fire_and_forget_state \<times> session_out) option" where
  "process_run env st out [] = Some (st, out)"
| "process_run env st out ((im, rnd, tok) # rest) = do {
     (st, out) \<leftarrow> process_internal env st out im rnd tok;
     process_run env st out rest
   }"

definition process_loop ::
    "session_env \<Rightarrow> fire_and_forget_state \<Rightarrow> session_out \<Rightarrow> turn list \<Rightarrow> (fire_and_forget_state \<times> session_out) option" where
  "process_loop env st out turns = do {
     (st, out) \<leftarrow> process_run env st out turns;
     Some (st\<lparr>fs_timers := []\<rparr>, out)
   }"

text \<open>
  The session as the layer above holds it: the channel to the processor with the messages waiting
  in it, and whether the processor still takes them. A panic of the processor ends its task only.
\<close>

record fire_and_forget =
  fa_common :: common
  fa_open :: bool
  fa_tx :: "internal_message list"
  fa_state :: fire_and_forget_state

definition fire_and_forget_new ::
    "u32 \<Rightarrow> fire_and_forget_configuration \<Rightarrow> session_direction \<Rightarrow> agent \<Rightarrow> string option \<Rightarrow> fire_and_forget" where
  "fire_and_forget_new i session_config session_direction agent identity =
     (let common = common_new i session_direction (FireAndForget_Config session_config) agent identity
      in \<lparr>fa_common = common, fa_open = True, fa_tx = [],
          fa_state = \<lparr>fs_session_id = i, fs_source = cm_source common, fs_config = session_config, fs_timers = [],
            fs_sticky_name = None, fs_sticky_connection = None, fs_sticky_session_status = Uninitialized,
            fs_sticky_buffer = []\<rparr>\<rparr>)"

definition ff_set_session_config :: "fire_and_forget \<Rightarrow> session_config \<Rightarrow> (session_error + unit) \<times> fire_and_forget" where
  "ff_set_session_config fa session_config =
     (case common_set_session_config (fa_common fa) session_config of
        Inl e \<Rightarrow> (Inl e, fa)
      | Inr common \<Rightarrow>
          (let fa = fa\<lparr>fa_common := common\<rparr>
           in case session_config of
                FireAndForget_Config config \<Rightarrow>
                  (Inr (), if fa_open fa then fa\<lparr>fa_tx := fa_tx fa @ [SetConfig config]\<rparr> else fa)
              | _ \<Rightarrow> (Inl (ConfigurationError ''invalid session config type''), fa)))"

definition ff_on_message :: "fire_and_forget \<Rightarrow> session_message \<Rightarrow> message_direction \<Rightarrow> (session_error + unit) \<times> fire_and_forget" where
  "ff_on_message fa message direction =
     (if fa_open fa then (Inr (), fa\<lparr>fa_tx := fa_tx fa @ [OnMessage message direction]\<rparr>)
      else (Inl (SessionClosed ''channel closed''), fa))"

definition fa_turn ::
    "session_env \<Rightarrow> fire_and_forget \<Rightarrow> session_out \<Rightarrow> (nat \<Rightarrow> u32) \<Rightarrow> (nat \<Rightarrow> nat) \<Rightarrow> fire_and_forget \<times> session_out" where
  "fa_turn env fa out rnd tok =
     (case fa_tx fa of
        [] \<Rightarrow> (fa, out)
      | im # rest \<Rightarrow>
          (case process_internal env (fa_state fa) out im rnd tok of
             Some (st, out) \<Rightarrow> (fa\<lparr>fa_tx := rest, fa_state := st\<rparr>, out)
           | None \<Rightarrow> (fa\<lparr>fa_open := False, fa_tx := []\<rparr>, out)))"

section \<open>What one operation sends\<close>

text \<open>The message \<open>m\<close> as the session sends it under the identifier \<open>i\<close>.\<close>

definition sent_as :: "fire_and_forget_state \<Rightarrow> u32 \<Rightarrow> message \<Rightarrow> message \<Rightarrow> bool" where
  "sent_as st i m m' \<longleftrightarrow> msg_get_payload m' = msg_get_payload m \<and> msg_metadata m' = msg_metadata m \<and>
     get_session_header m' = map_option (\<lambda>h. h\<lparr>se_session_id := fs_session_id st, se_message_id := i\<rparr>) (get_session_header m) \<and>
     get_slim_header m' = map_option (\<lambda>h. case fs_sticky_name st of None \<Rightarrow> h
       | Some n \<Rightarrow> h\<lparr>sh_destination := Some (proto_agent_from_agent n), sh_forward_to := fs_sticky_connection st\<rparr>) (get_slim_header m)"

definition with_timer :: "fire_and_forget_state \<Rightarrow> u32 \<Rightarrow> message \<Rightarrow> nat \<Rightarrow> fire_and_forget_state" where
  "with_timer st i m token = (case ff_timeout (fs_config st) of
      None \<Rightarrow> st
    | Some d \<Rightarrow> st\<lparr>fs_timers := hm_insert (=) i
        (timer_new i Constant d None (ff_max_retries (fs_config st)) token, m) (fs_timers st)\<rparr>)"

lemma ff_send_message_spec:
  assumes "get_session_header m = Some h" and "fs_sticky_name st = None \<or> get_slim_header m = Some g"
  shows "\<exists>m'. sent_as st i m m' \<and> ff_send_message env st out m i token =
    Some (map_sum SlimTransmission id (fst (send_slim env m' out)), with_timer st i m' token, snd (send_slim env m' out))"
proof -
  obtain m1 m2 where w: "get_session_header_mut (session_header_set_message_id i) m = Some m1"
      "get_session_header_mut (session_header_set_session_id (fs_session_id st)) m1 = Some m2"
      "get_session_header m2 = Some (session_header_set_session_id (fs_session_id st) (session_header_set_message_id i h))"
    using session_writes [OF assms(1)] by blast
  note sets = session_header_set_session_id_def session_header_set_message_id_def
    slim_header_set_destination_def slim_header_set_forward_to_def
  note fr = get_session_header_mut_frame [OF w(1)] get_session_header_mut_frame [OF w(2)]
  show ?thesis
  proof (cases "fs_sticky_name st")
    case None
    then have "sent_as st i m m2" using fr w(3) assms by (simp add: sent_as_def sets option.map_ident)
    moreover have "msg_get_id m2 = Some i" using w(3) by (simp add: msg_get_id_def sets)
    ultimately show ?thesis using w(1,2) None
      by (intro exI [of _ m2]) (simp add: ff_send_message_def with_timer_def case_prod_beta Let_def split: option.split)
  next
    case (Some n)
    have "get_slim_header m2 = Some g" using fr assms Some by simp
    then obtain m3 m4 where v: "get_slim_header_mut (slim_header_set_destination n) m2 = Some m3"
        "get_slim_header_mut (slim_header_set_forward_to (fs_sticky_connection st)) m3 = Some m4"
        "get_slim_header m4 = Some (slim_header_set_forward_to (fs_sticky_connection st) (slim_header_set_destination n g))"
      using slim_ref.wr_defined by blast
    note fr' = get_slim_header_mut_frame [OF v(1)] get_slim_header_mut_frame [OF v(2)]
    have "sent_as st i m m4" using fr fr' w(3) v(3) assms Some by (simp add: sent_as_def sets)
    moreover have "msg_get_id m4 = Some i" using w(3) fr' by (simp add: msg_get_id_def sets)
    ultimately show ?thesis using w(1,2) v(1,2) Some
      by (intro exI [of _ m4]) (simp add: ff_send_message_def with_timer_def case_prod_beta Let_def split: option.split)
  qed
qed

lemma with_timer_simps [simp]:
  "fs_sticky_name (with_timer st i m k) = fs_sticky_name st"
  "fs_sticky_connection (with_timer st i m k) = fs_sticky_connection st"
  "fs_sticky_session_status (with_timer st i m k) = fs_sticky_session_status st"
  "fs_sticky_buffer (with_timer st i m k) = fs_sticky_buffer st"
  "fs_config (with_timer st i m k) = fs_config st"
  "fs_session_id (with_timer st i m k) = fs_session_id st"
  by (simp_all add: with_timer_def split: option.split)

section \<open>Sticky sessions\<close>

text \<open>The message \<open>m\<close> of the application, sent to \<open>peer\<close> over \<open>conn\<close> by session \<open>sid\<close>.\<close>

definition stuck_to :: "agent \<Rightarrow> u64 \<Rightarrow> u32 \<Rightarrow> message \<Rightarrow> message \<Rightarrow> bool" where
  "stuck_to peer conn sid m m' \<longleftrightarrow> msg_get_payload m' = msg_get_payload m \<and> msg_metadata m' = msg_metadata m \<and>
     (\<exists>h. get_session_header m' = Some h \<and> se_session_id h = sid) \<and>
     (\<exists>g. get_slim_header m' = Some g \<and> sh_destination g = Some (proto_agent_from_agent peer) \<and> sh_forward_to g = Some conn)"

definition stuck :: "agent \<Rightarrow> u64 \<Rightarrow> fire_and_forget_state \<Rightarrow> bool" where
  "stuck peer conn st \<longleftrightarrow> ff_sticky (fs_config st) \<and> fs_sticky_name st = Some peer \<and>
     fs_sticky_connection st = Some conn \<and> fs_sticky_session_status st = Established \<and> fs_sticky_buffer st = []"

lemma stuck_with_timer [simp]: "stuck peer conn (with_timer st i m k) = stuck peer conn st"
  by (simp add: stuck_def)

text \<open>
  What an application hands over: a publication whose source can be read. The session keeps copies
  of such messages only, so that it can report their timeouts.
\<close>

definition app_message :: "message \<Rightarrow> bool" where
  "app_message m \<longleftrightarrow> publication m \<and> msg_get_source m \<noteq> None"

definition sticky_ready :: "fire_and_forget_state \<Rightarrow> bool" where
  "sticky_ready st \<longleftrightarrow> ff_sticky (fs_config st) \<and>
     (\<forall>j t m. hm_get (=) j (fs_timers st) = Some (t, m) \<longrightarrow> info_from_message m \<noteq> None)"

lemma sent_as_readable: "sent_as st i m m' \<Longrightarrow> app_message m \<Longrightarrow> info_from_message m' \<noteq> None"
  by (auto simp: sent_as_def app_message_def info_from_message_def msg_get_source_def slim_header_get_source_def
      bind_eq_None_conv elim!: publicationD split: option.splits)

lemma sticky_ready_with_timer:
  "sticky_ready st \<Longrightarrow> info_from_message m \<noteq> None \<Longrightarrow> sticky_ready (with_timer st i m k)"
  by (auto simp: sticky_ready_def with_timer_def split: option.splits if_splits)

lemma send_stuck:
  assumes "app_message m" and "stuck peer conn st" and "se_slim_open env" and "sticky_ready st"
  shows "\<exists>st' m'. ff_send_message env st out m i token = Some (Inr (), st', out\<lparr>so_slim := so_slim out @ [m']\<rparr>) \<and>
    stuck peer conn st' \<and> sticky_ready st' \<and> fs_session_id st' = fs_session_id st \<and> stuck_to peer conn (fs_session_id st) m m'"
proof -
  obtain h g d where hg: "get_session_header m = Some h" "get_slim_header m = Some g"
    using assms(1) publicationD unfolding app_message_def by metis
  obtain m' where m': "sent_as st i m m'" "ff_send_message env st out m i token =
      Some (map_sum SlimTransmission id (fst (send_slim env m' out)), with_timer st i m' token, snd (send_slim env m' out))"
    using ff_send_message_spec [OF hg(1) disjI2 [OF hg(2)]] by blast
  have "stuck_to peer conn (fs_session_id st) m m'"
    using m'(1) hg assms(2) by (simp add: sent_as_def stuck_to_def stuck_def)
  then show ?thesis using m'(2) assms(2,3) sticky_ready_with_timer [OF assms(4) sent_as_readable [OF m'(1) assms(1)]]
    by (intro exI [of _ "with_timer st i m' token"] exI [of _ m']) (simp add: send_slim_def)
qed

lemma send_buffered_stuck:
  assumes "\<forall>m\<in>set ms. app_message m" and "stuck peer conn st" and "se_slim_open env" and "sticky_ready st"
  shows "\<exists>st' sent. send_buffered env st out ms k rnd tok = Some (Inr (), st', out\<lparr>so_slim := so_slim out @ sent\<rparr>) \<and>
    stuck peer conn st' \<and> sticky_ready st' \<and> fs_session_id st' = fs_session_id st \<and>
    list_all2 (stuck_to peer conn (fs_session_id st)) ms sent"
  using assms
proof (induction ms arbitrary: st out k)
  case Nil
  then show ?case by simp
next
  case (Cons m ms)
  obtain st1 m' where 1: "ff_send_message env st out m (rnd k) (tok k) = Some (Inr (), st1, out\<lparr>so_slim := so_slim out @ [m']\<rparr>)"
      "stuck peer conn st1" "sticky_ready st1" "fs_session_id st1 = fs_session_id st" "stuck_to peer conn (fs_session_id st) m m'"
    using send_stuck [of m peer conn st env] Cons.prems by fastforce
  obtain st2 sent where 2: "send_buffered env st1 (out\<lparr>so_slim := so_slim out @ [m']\<rparr>) ms (k + 1) rnd tok =
        Some (Inr (), st2, out\<lparr>so_slim := so_slim out @ m' # sent\<rparr>)"
      "stuck peer conn st2" "sticky_ready st2" "fs_session_id st2 = fs_session_id st1"
      "list_all2 (stuck_to peer conn (fs_session_id st1)) ms sent"
    using Cons.IH [of st1 "out\<lparr>so_slim := so_slim out @ [m']\<rparr>" "k + 1"] Cons.prems 1(2,3) by auto
  then show ?case using 1 by (intro exI [of _ st2] exI [of _ "m' # sent"]) simp
qed

definition same_content :: "message \<Rightarrow> message \<Rightarrow> bool" where
  "same_content m m' \<longleftrightarrow> msg_get_payload m' = msg_get_payload m \<and> msg_metadata m' = msg_metadata m"

lemma stuck_to_write: "same_content m m' \<Longrightarrow> stuck_to peer conn sid m' s \<Longrightarrow> stuck_to peer conn sid m s"
  by (simp add: stuck_to_def same_content_def)

text \<open>The header type a message of the application gets.\<close>

definition typed :: "fire_and_forget_state \<Rightarrow> message \<Rightarrow> message \<Rightarrow> bool" where
  "typed st m m' \<longleftrightarrow> get_session_header_mut (session_header_set_header_type
     (if ff_timeout (fs_config st) \<noteq> None then FnfReliable else Fnf)) m = Some m'"

lemma typed_exists:
  assumes "app_message m"
  shows "\<exists>m'. typed st m m' \<and> app_message m' \<and> same_content m m'"
proof -
  let ?f = "session_header_set_header_type (if ff_timeout (fs_config st) \<noteq> None then FnfReliable else Fnf)"
  obtain h where "get_session_header m = Some h" using assms publicationD unfolding app_message_def by metis
  then obtain m' where m': "get_session_header_mut ?f m = Some m'" using session_ref.wr_defined by blast
  note fr = get_session_header_mut_frame [OF m']
  have "app_message m'" using assms publication_write [OF _ m'] fr(1) by (simp add: app_message_def msg_get_source_def)
  then show ?thesis using m' fr by (auto simp: typed_def same_content_def)
qed

lemma discovery_starts:
  assumes "ff_sticky (fs_config st)" and "fs_sticky_name st = None" and "fs_sticky_session_status st = Uninitialized"
    and "app_message (sm_message m)" and "se_slim_open env"
  shows "\<exists>probe b. process_internal env st out (OnMessage m South) rnd tok =
      Some (st\<lparr>fs_sticky_session_status := Discovering, fs_sticky_buffer := fs_sticky_buffer st @ [b]\<rparr>,
        out\<lparr>so_slim := so_slim out @ [probe]\<rparr>) \<and>
    same_content (sm_message m) b \<and> app_message b \<and> msg_get_header_type probe = Some FnfDiscovery"
proof -
  obtain b where b: "typed st (sm_message m) b" "app_message b" "same_content (sm_message m) b"
    using typed_exists assms(4) by blast
  obtain g d where g: "get_slim_header b = Some g" "sh_destination g = Some d"
    using b(2) publicationD unfolding app_message_def by metis
  let ?p = "new_publish (fs_source st) (agent_type_from_proto d) None None ''sticky_session_discovery'' []"
  have "get_session_header ?p = Some session_header_default"
    by (simp add: new_publish_def publish_new_def publish_with_header_def message_new_def get_session_header_def)
  then obtain p1 p2 where p: "get_session_header_mut (session_header_set_header_type FnfDiscovery) ?p = Some p1"
      "get_session_header_mut (session_header_set_session_id (fs_session_id st)) p1 = Some p2"
      "get_session_header p2 = Some (session_header_set_session_id (fs_session_id st)
        (session_header_set_header_type FnfDiscovery session_header_default))"
    using session_writes by blast
  have "msg_get_header_type p2 = Some FnfDiscovery" using p(3)
    by (simp add: msg_get_header_type_def session_header_set_session_id_def session_header_set_header_type_def)
  then show ?thesis using b g p(1,2) assms
    by (intro exI [of _ p2] exI [of _ b]) (simp add: process_internal_def ff_handle_message_to_slim_def typed_def
        start_sticky_session_discovery_def slim_header_get_dst_def send_slim_def)
qed

lemma discovering_turn:
  assumes "ff_sticky (fs_config st)" and "fs_sticky_name st = None" and "fs_sticky_session_status st = Discovering"
    and "app_message (sm_message m)"
  shows "\<exists>b. process_internal env st out (OnMessage m South) rnd tok = Some (st\<lparr>fs_sticky_buffer := fs_sticky_buffer st @ [b]\<rparr>, out) \<and>
    same_content (sm_message m) b \<and> app_message b"
proof -
  obtain b where "typed st (sm_message m) b" "app_message b" "same_content (sm_message m) b"
    using typed_exists assms(4) by blast
  then show ?thesis using assms(1-3)
    by (intro exI [of _ b]) (simp add: process_internal_def ff_handle_message_to_slim_def typed_def)
qed

lemma stuck_turn:
  assumes "app_message (sm_message m)" and "stuck peer conn st" and "se_slim_open env" and "sticky_ready st"
  shows "\<exists>st' s. process_internal env st out (OnMessage m South) rnd tok = Some (st', out\<lparr>so_slim := so_slim out @ [s]\<rparr>) \<and>
    stuck peer conn st' \<and> sticky_ready st' \<and> fs_session_id st' = fs_session_id st \<and>
    stuck_to peer conn (fs_session_id st) (sm_message m) s"
proof -
  obtain b where b: "typed st (sm_message m) b" "app_message b" "same_content (sm_message m) b"
    using typed_exists assms(1) by blast
  obtain g where g: "get_slim_header b = Some g" using b(2) publicationD unfolding app_message_def by metis
  obtain b1 b2 where v: "get_slim_header_mut (slim_header_set_destination peer) b = Some b1"
      "get_slim_header_mut (slim_header_set_forward_to (Some conn)) b1 = Some b2"
      "get_slim_header b2 = Some (slim_header_set_forward_to (Some conn) (slim_header_set_destination peer g))"
    using slim_ref.wr_defined g by blast
  note fr = get_slim_header_mut_frame [OF v(1)] get_slim_header_mut_frame [OF v(2)]
  have pb: "app_message b2" using b(2) v(3) fr g
    by (simp add: app_message_def publication_def msg_get_source_def slim_header_get_source_def
        slim_header_set_forward_to_def slim_header_set_destination_def)
  have "same_content (sm_message m) b2" using b(3) fr by (simp add: same_content_def)
  moreover obtain st1 s where 1: "ff_send_message env st out b2 (rnd 0) (tok 0) = Some (Inr (), st1, out\<lparr>so_slim := so_slim out @ [s]\<rparr>)"
      "stuck peer conn st1" "sticky_ready st1" "fs_session_id st1 = fs_session_id st" "stuck_to peer conn (fs_session_id st) b2 s"
    using send_stuck [OF pb assms(2-4)] by blast
  moreover have "process_internal env st out (OnMessage m South) rnd tok = Some (st1, out\<lparr>so_slim := so_slim out @ [s]\<rparr>)"
    using b(1) v(1,2) 1(1) assms(2) by (simp add: process_internal_def ff_handle_message_to_slim_def typed_def stuck_def)
  ultimately show ?thesis using stuck_to_write by blast
qed

text \<open>A received message of a given type from a readable source over a known connection.\<close>

definition received_from :: "session_header_type \<Rightarrow> agent \<Rightarrow> u64 \<Rightarrow> session_message \<Rightarrow> bool" where
  "received_from t peer conn m \<longleftrightarrow> in_message_id (sm_info m) \<noteq> None \<and> msg_get_header_type (sm_message m) = Some t \<and>
     msg_get_source (sm_message m) = Some peer \<and> msg_get_incoming_conn (sm_message m) = Some conn"

lemma reply_establishes:
  assumes "ff_sticky (fs_config st)" and "fs_sticky_name st = None" and "fs_sticky_session_status st = Discovering"
    and "\<forall>m\<in>set (fs_sticky_buffer st). app_message m" and "se_slim_open env"
    and "received_from FnfDiscoveryReply peer conn reply" and "sticky_ready st"
  shows "\<exists>st' sent. process_internal env st out (OnMessage reply North) rnd tok = Some (st', out\<lparr>so_slim := so_slim out @ sent\<rparr>) \<and>
    stuck peer conn st' \<and> sticky_ready st' \<and> fs_session_id st' = fs_session_id st \<and>
    list_all2 (stuck_to peer conn (fs_session_id st)) (fs_sticky_buffer st) sent"
proof -
  let ?st = "st\<lparr>fs_sticky_name := Some peer, fs_sticky_connection := Some conn,
      fs_sticky_session_status := Established, fs_sticky_buffer := []\<rparr>"
  have "stuck peer conn ?st" "sticky_ready ?st" using assms(1,7) by (simp_all add: stuck_def sticky_ready_def)
  then obtain st' sent where s: "send_buffered env ?st out (fs_sticky_buffer st) 0 rnd tok =
        Some (Inr (), st', out\<lparr>so_slim := so_slim out @ sent\<rparr>)"
      "stuck peer conn st'" "sticky_ready st'" "fs_session_id st' = fs_session_id st"
      "list_all2 (stuck_to peer conn (fs_session_id st)) (fs_sticky_buffer st) sent"
    using send_buffered_stuck [OF assms(4) _ assms(5), of peer conn ?st out 0 rnd tok] by auto
  obtain i where "in_message_id (sm_info reply) = Some i" using assms(6) by (auto simp: received_from_def)
  then have "process_internal env st out (OnMessage reply North) rnd tok = Some (st', out\<lparr>so_slim := so_slim out @ sent\<rparr>)"
    using assms(1-3,6) s(1) by (simp add: process_internal_def ff_handle_message_to_app_def received_from_def
        handle_sticky_session_discovery_reply_def)
  then show ?thesis using s(2-5) by blast
qed

lemma process_run_append:
  "process_run env st out (xs @ ys) = do { (st, out) \<leftarrow> process_run env st out xs; process_run env st out ys }"
  by (induction env st out xs rule: process_run.induct) (auto split: bind_split)

section \<open>Settled messages\<close>

definition ff_pending :: "fire_and_forget_state \<Rightarrow> u32 \<Rightarrow> bool" where
  "ff_pending st i \<longleftrightarrow> hm_get (=) i (fs_timers st) \<noteq> None"

definition is_reliable :: "u32 \<Rightarrow> message \<Rightarrow> bool" where
  "is_reliable i m \<longleftrightarrow> msg_get_header_type m = Some FnfReliable \<and> msg_get_id m = Some i"

definition is_timeout :: "u32 \<Rightarrow> session_error + session_message \<Rightarrow> bool" where
  "is_timeout i x \<longleftrightarrow> (case x of Inl (Timeout _ m _) \<Rightarrow> m = i | _ \<Rightarrow> False)"

text \<open>Every stored message is the one its timer stands for.\<close>

definition ff_keys :: "fire_and_forget_state \<Rightarrow> bool" where
  "ff_keys st \<longleftrightarrow> (\<forall>j t m. hm_get (=) j (fs_timers st) = Some (t, m) \<longrightarrow> msg_get_id m = Some j \<and> tm_timer_id t = j)"

text \<open>
  The messages \<open>i\<close> of the set are not waiting; \<open>n i\<close> copies of it were sent and \<open>k i\<close>
  timeouts of it were reported.
\<close>

definition ff_settled :: "u32 set \<Rightarrow> (u32 \<Rightarrow> nat) \<Rightarrow> (u32 \<Rightarrow> nat) \<Rightarrow> fire_and_forget_state \<Rightarrow> session_out \<Rightarrow> bool" where
  "ff_settled I n k st out \<longleftrightarrow> ff_keys st \<and> (\<forall>i\<in>I. \<not> ff_pending st i \<and>
     count (is_reliable i) (so_slim out) = n i \<and> count (is_timeout i) (so_app out) = k i)"

lemma ff_send_message_cases:
  assumes "ff_send_message env st out m j token = Some (r, st', out')"
  obtains m' where "msg_get_id m' = Some j" "st' = with_timer st j m' token" "out' = snd (send_slim env m' out)"
    "msg_get_header_type m' = msg_get_header_type m"
proof -
  have "get_session_header m \<noteq> None"
  proof
    assume "get_session_header m = None"
    then have "get_session_header_mut f m = None" for f by (rule session_ref.wr_panics)
    then show False using assms by (simp add: ff_send_message_def)
  qed
  then obtain h where h: "get_session_header m = Some h" by blast
  obtain m1 m2 where w: "get_session_header_mut (session_header_set_message_id j) m = Some m1"
      "get_session_header_mut (session_header_set_session_id (fs_session_id st)) m1 = Some m2"
    using session_writes [OF h] by blast
  have "get_slim_header m2 = get_slim_header m"
    using get_session_header_mut_frame(1) [OF w(1)] get_session_header_mut_frame(1) [OF w(2)] by simp
  then have "fs_sticky_name st = None \<or> get_slim_header m \<noteq> None"
    using assms w by (cases "fs_sticky_name st"; cases "get_slim_header m") (simp_all add: ff_send_message_def slim_ref.wr_panics)
  then obtain g where "fs_sticky_name st = None \<or> get_slim_header m = Some g" by blast
  then obtain m' where "sent_as st j m m'" "st' = with_timer st j m' token" "out' = snd (send_slim env m' out)"
    using ff_send_message_spec [OF h, of st g j env out token] assms by auto
  moreover from this(1) have "msg_get_id m' = Some j" "msg_get_header_type m' = msg_get_header_type m"
    using h by (simp_all add: sent_as_def msg_get_id_def msg_get_header_type_def)
  ultimately show thesis using that by blast
qed

lemma settled_slim:
  "ff_settled I n k st out \<Longrightarrow> (\<forall>i\<in>I. \<not> is_reliable i m) \<Longrightarrow> ff_settled I n k st (snd (send_slim env m out))"
  by (simp add: ff_settled_def send_slim_def)

lemma settled_app:
  "ff_settled I n k st out \<Longrightarrow> (\<forall>i\<in>I. \<not> is_timeout i x) \<Longrightarrow> ff_settled I n k st (snd (send_app env x out))"
  by (simp add: ff_settled_def send_app_def)

lemma settled_updates [simp]:
  "ff_settled I n k (st\<lparr>fs_sticky_name := a\<rparr>) out = ff_settled I n k st out"
  "ff_settled I n k (st\<lparr>fs_sticky_connection := b\<rparr>) out = ff_settled I n k st out"
  "ff_settled I n k (st\<lparr>fs_sticky_session_status := c\<rparr>) out = ff_settled I n k st out"
  "ff_settled I n k (st\<lparr>fs_sticky_buffer := d\<rparr>) out = ff_settled I n k st out"
  "ff_settled I n k (st\<lparr>fs_config := e\<rparr>) out = ff_settled I n k st out"
  by (simp_all add: ff_settled_def ff_keys_def ff_pending_def)

lemma settled_with_timer:
  "ff_settled I n k st out \<Longrightarrow> j \<notin> I \<Longrightarrow> msg_get_id m = Some j \<Longrightarrow> ff_settled I n k (with_timer st j m token) out"
  by (auto simp: ff_settled_def with_timer_def ff_keys_def ff_pending_def timer_new_def split: option.split)

lemma settled_remove:
  "ff_settled I n k st out \<Longrightarrow> ff_settled I n k (st\<lparr>fs_timers := hm_remove (=) j (fs_timers st)\<rparr>) out"
  by (auto simp: ff_settled_def ff_keys_def ff_pending_def split: if_splits)

lemma settled_send:
  assumes "ff_settled I n k st out" and "j \<notin> I" and "ff_send_message env st out m j token = Some (r, st', out')"
  shows "ff_settled I n k st' out'"
proof -
  obtain m' where m: "msg_get_id m' = Some j" "st' = with_timer st j m' token" "out' = snd (send_slim env m' out)"
    using ff_send_message_cases [OF assms(3)] by blast
  have "\<forall>i\<in>I. \<not> is_reliable i m'" using m(1) assms(2) by (auto simp: is_reliable_def)
  then show ?thesis unfolding m(2,3) by (rule settled_slim [OF settled_with_timer [OF assms(1,2) m(1)]])
qed

lemma settled_buffered:
  assumes "ff_settled I n k st out" and "\<And>j. rnd j \<notin> I" and "send_buffered env st out ms l rnd tok = Some (r, st', out')"
  shows "ff_settled I n k st' out'"
  using assms
proof (induction env st out ms l rnd tok rule: send_buffered.induct)
  case (1 env st out l rnd tok)
  then show ?case by simp
next
  case (2 env st out m ms l rnd tok)
  then obtain r1 st1 out1 where 1: "ff_send_message env st out m (rnd l) (tok l) = Some (r1, st1, out1)"
    by (auto simp: bind_eq_Some_conv)
  have s: "ff_settled I n k st1 out1" using settled_send [OF 2(2) _ 1] 2(3) by blast
  show ?case
  proof (cases r1)
    case (Inl e)
    then show ?thesis using 1 s 2(4) by simp
  next
    case (Inr u)
    then show ?thesis using 2(1) [OF 1 refl refl Inr s 2(3)] 2(4) 1 by simp
  qed
qed

lemma start_discovery_spec:
  "\<exists>probe. msg_get_header_type probe = Some FnfDiscovery \<and> start_sticky_session_discovery env st out t =
     Some (map_sum SlimTransmission id (fst (send_slim env probe out)), st\<lparr>fs_sticky_session_status := Discovering\<rparr>,
       snd (send_slim env probe out))"
proof -
  let ?p = "new_publish (fs_source st) t None None ''sticky_session_discovery'' []"
  have "get_session_header ?p = Some session_header_default"
    by (simp add: new_publish_def publish_new_def publish_with_header_def message_new_def get_session_header_def)
  then obtain p1 p2 where p: "get_session_header_mut (session_header_set_header_type FnfDiscovery) ?p = Some p1"
      "get_session_header_mut (session_header_set_session_id (fs_session_id st)) p1 = Some p2"
      "get_session_header p2 = Some (session_header_set_session_id (fs_session_id st)
        (session_header_set_header_type FnfDiscovery session_header_default))"
    using session_writes by blast
  then show ?thesis
    by (intro exI [of _ p2]) (simp add: start_sticky_session_discovery_def msg_get_header_type_def case_prod_beta
        session_header_set_session_id_def session_header_set_header_type_def)
qed

lemma settled_to_slim:
  assumes s: "ff_settled I n k st out" and j: "j \<notin> I"
    and e: "ff_handle_message_to_slim env st out m j token = Some (r, st', out')"
  shows "ff_settled I n k st' out'"
proof -
  obtain msg where msg: "typed st (sm_message m) msg"
    using e by (auto simp: ff_handle_message_to_slim_def typed_def bind_eq_Some_conv)
  show ?thesis
  proof (cases "ff_sticky (fs_config st) \<and> fs_sticky_name st = None")
    case False
    then obtain x where "ff_send_message env st out x j token = Some (r, st', out')"
      using e msg by (auto simp: ff_handle_message_to_slim_def typed_def bind_eq_Some_conv split: if_splits)
    then show ?thesis using settled_send [OF s j] by blast
  next
    case True
    have settled_discovery: "ff_settled I n k st1 out1"
      if d: "start_sticky_session_discovery env st out t = Some (r1, st1, out1)" for t r1 st1 out1
    proof -
      obtain probe where p: "msg_get_header_type probe = Some FnfDiscovery" "st1 = st\<lparr>fs_sticky_session_status := Discovering\<rparr>"
          "out1 = snd (send_slim env probe out)"
        using start_discovery_spec [of env st out t] d by auto
      then show ?thesis using settled_slim [OF s, of probe env] by (simp add: is_reliable_def)
    qed
    show ?thesis
    proof (cases "fs_sticky_session_status st")
      case Uninitialized
      then obtain t r1 st1 out1 where d: "start_sticky_session_discovery env st out t = Some (r1, st1, out1)"
          "(case r1 of Inl e \<Rightarrow> Some (Inl e, st1, out1)
            | Inr _ \<Rightarrow> Some (Inr (), st1\<lparr>fs_sticky_buffer := fs_sticky_buffer st1 @ [msg]\<rparr>, out1)) = Some (r, st', out')"
        using e msg True by (auto simp: ff_handle_message_to_slim_def typed_def bind_eq_Some_conv)
      then show ?thesis using settled_discovery [OF d(1)] by (cases r1) auto
    qed (use e msg True s in \<open>auto simp: ff_handle_message_to_slim_def typed_def\<close>)
  qed
qed

lemma settled_discovery_reply:
  assumes s: "ff_settled I n k st out" and j: "\<And>l. rnd l \<notin> I"
    and e: "handle_sticky_session_discovery_reply env st out m rnd tok = Some (r, st', out')"
  shows "ff_settled I n k st' out'"
proof (cases "fs_sticky_session_status st = Discovering")
  case True
  then obtain source conn where sb: "send_buffered env (st\<lparr>fs_sticky_name := Some source, fs_sticky_connection := Some conn,
      fs_sticky_session_status := Established, fs_sticky_buffer := []\<rparr>) out (fs_sticky_buffer st) 0 rnd tok = Some (r, st', out')"
    using e by (auto simp: handle_sticky_session_discovery_reply_def bind_eq_Some_conv Let_def)
  show ?thesis by (rule settled_buffered [OF _ j sb]) (simp add: s)
next
  case False
  then have "st' = st \<and> out' = out" using e
    by (cases "fs_sticky_session_status st"; cases "fs_sticky_name st")
      (auto simp: handle_sticky_session_discovery_reply_def bind_eq_Some_conv)
  then show ?thesis using s by simp
qed

lemma settled_discovery:
  assumes s: "ff_settled I n k st out" and j: "j \<notin> I"
    and e: "handle_sticky_session_discovery env st out m j token = Some (r, st', out')"
  shows "ff_settled I n k st' out'"
proof -
  obtain source conn reply where sd: "ff_send_message env (st\<lparr>fs_sticky_name := Some source, fs_sticky_connection := Some conn,
      fs_sticky_session_status := Established\<rparr>) out reply j token = Some (r, st', out')"
    using e by (auto simp: handle_sticky_session_discovery_def bind_eq_Some_conv Let_def)
  show ?thesis by (rule settled_send [OF _ j sd]) (simp add: s)
qed

text \<open>Whether the session takes a message from its source: a sticky session only hears its peer.\<close>

definition ff_source_check :: "fire_and_forget_state \<Rightarrow> session_message \<Rightarrow> string option option" where
  "ff_source_check st message = (if ff_sticky (fs_config st)
     then (case fs_sticky_name st of
         Some name \<Rightarrow> do {
           source \<leftarrow> msg_get_source (sm_message message);
           Some (if \<not> agent_eq name source
             then Some (''message source '' @ agent_display source @ '' does not match sticky name '' @ agent_display name)
             else None)
         }
       | None \<Rightarrow> Some None)
     else Some None)"

lemma settled_to_app:
  assumes s: "ff_settled I n k st out" and j: "\<And>l. rnd l \<notin> I"
    and e: "ff_handle_message_to_app env st out m rnd tok = Some (r, st', out')"
  shows "ff_settled I n k st' out'"
proof -
  obtain mid where mid: "in_message_id (sm_info m) = Some mid"
    using e by (auto simp: ff_handle_message_to_app_def bind_eq_Some_conv)
  obtain mis where mis: "ff_source_check st m = Some mis"
    using e mid by (auto simp: ff_handle_message_to_app_def ff_source_check_def bind_eq_Some_conv)
  show ?thesis
  proof (cases mis)
    case (Some why)
    then show ?thesis using e mid mis s by (simp add: ff_handle_message_to_app_def ff_source_check_def)
  next
    case None
    then obtain t where t: "msg_get_header_type (sm_message m) = Some t"
      using e mid mis by (auto simp: ff_handle_message_to_app_def ff_source_check_def bind_eq_Some_conv)
    note e' = e [unfolded ff_handle_message_to_app_def, folded ff_source_check_def, simplified mid mis None t, simplified]
    have app: "ff_settled I n k st2 out2" if "ff_send_message_to_app env st out1 m = Some (r, st2, out2)" "ff_settled I n k st out1"
      for st2 out1 out2
      using that settled_app [OF that(2), of "Inr m" env]
      by (auto simp: ff_send_message_to_app_def is_timeout_def split: prod.splits)
    show ?thesis
    proof (cases t)
      case Fnf
      then show ?thesis using app [OF _ s] e' by simp
    next
      case FnfReliable
      then obtain h sid where h: "(case send_slim env (new_publish_with_headers h
            (Some (session_header_new (i32_of_header_type FnfAck) sid mid)) '''' []) out of
          (Inl e, out) \<Rightarrow> Some (Inl (SlimTransmission e), st, out)
        | (Inr _, out) \<Rightarrow> ff_send_message_to_app env st out m) = Some (r, st', out')"
        using e' by (auto simp: bind_eq_Some_conv Let_def)
      let ?ack = "new_publish_with_headers h (Some (session_header_new (i32_of_header_type FnfAck) sid mid)) '''' []"
      have "ff_settled I n k st (snd (send_slim env ?ack out))" using settled_slim [OF s] by (simp add: is_reliable_def)
      then show ?thesis using h app by (cases "send_slim env ?ack out" rule: prod.exhaust; cases "fst (send_slim env ?ack out)") auto
    next
      case FnfAck
      then show ?thesis using e' s settled_remove [OF s] by (auto simp: stop_and_remove_timer_def split: option.splits)
    next
      case FnfDiscovery
      then show ?thesis using e' settled_discovery [OF s j] by simp
    next
      case FnfDiscoveryReply
      then show ?thesis using e' settled_discovery_reply [OF s j] by simp
    qed (use e' s in simp_all)
  qed
qed

lemma settled_internal:
  assumes s: "ff_settled I n k st out" and j: "\<And>l. rnd l \<notin> I"
    and e: "process_internal env st out im rnd tok = Some (st', out')"
  shows "ff_settled I n k st' out'"
proof (cases im)
  case (OnMessage m d)
  then show ?thesis using e settled_to_app [OF s j] settled_to_slim [OF s j]
    by (cases d) (auto simp: process_internal_def)
next
  case (TimerTimeout l t)
  have "\<forall>i\<in>I. \<not> is_reliable i m" if "hm_get (=) l (fs_timers st) = Some (x, m)" for x m
    using that s by (auto simp: ff_settled_def ff_keys_def ff_pending_def is_reliable_def)
  then show ?thesis using e TimerTimeout s settled_slim [OF s]
    by (auto simp: process_internal_def handle_timer_timeout_def split: option.splits)
next
  case (TimerFailure l t)
  show ?thesis
  proof (cases "hm_get (=) l (fs_timers st)")
    case None
    then show ?thesis using e TimerFailure s by (simp add: process_internal_def handle_timer_failure_def)
  next
    case (Some tm)
    then have "l \<notin> I" using s by (cases tm) (auto simp: ff_settled_def ff_pending_def)
    then show ?thesis using e TimerFailure Some
      by (cases tm) (auto simp: process_internal_def handle_timer_failure_def bind_eq_Some_conv is_timeout_def Let_def
          intro!: settled_app settled_remove [OF s])
  qed
qed (use e s in \<open>auto simp: process_internal_def\<close>)

lemma settled_run:
  assumes "ff_settled I n k st out" and "\<forall>(im, rnd, tok)\<in>set turns. \<forall>l. rnd l \<notin> I"
    and "process_run env st out turns = Some (st', out')"
  shows "ff_settled I n k st' out'"
  using assms
proof (induction env st out turns rule: process_run.induct)
  case (1 env st out)
  then show ?case by simp
next
  case (2 env st out im rnd tok rest)
  then obtain st1 out1 where 1: "process_internal env st out im rnd tok = Some (st1, out1)"
    by (auto simp: bind_eq_Some_conv)
  have "ff_settled I n k st1 out1" by (rule settled_internal [OF 2(2) _ 1]) (use 2(3) in auto)
  then show ?case using 2(1) [OF 1 refl] 2(3,4) 1 by simp
qed

text \<open>The messages of the session have the identifiers of their timers in every run.\<close>

lemma ff_keys_run:
  assumes "process_run env (fa_state (fire_and_forget_new sid conf dir source identity)) out turns = Some (st, out')"
  shows "ff_keys st"
proof -
  have "ff_settled {} (\<lambda>_. 0) (\<lambda>_. 0) (fa_state (fire_and_forget_new sid conf dir source identity)) out"
    by (simp add: ff_settled_def ff_keys_def fire_and_forget_new_def Let_def)
  from settled_run [OF this _ assms] show ?thesis by (simp add: ff_settled_def)
qed

text \<open>The events that settle message \<open>i\<close>: its acknowledgement, or the failure of its timer.\<close>

definition settles :: "fire_and_forget_state \<Rightarrow> u32 \<Rightarrow> internal_message \<Rightarrow> bool" where
  "settles st i im = (case im of
      OnMessage m North \<Rightarrow> in_message_id (sm_info m) = Some i \<and>
        msg_get_header_type (sm_message m) = Some FnfAck \<and> ff_source_check st m = Some None
    | TimerFailure l _ \<Rightarrow> l = i
    | _ \<Rightarrow> False)"

lemma settles_spec:
  assumes "settles st i im" and "process_internal env st out im rnd tok = Some (st', out')"
  shows "fs_timers st' = hm_remove (=) i (fs_timers st) \<and> so_slim out' = so_slim out \<and>
    count (is_timeout i) (so_app out') = count (is_timeout i) (so_app out) +
      (if (\<exists>t. im = TimerFailure i t) \<and> ff_pending st i \<and> se_app_open env then 1 else 0)"
proof (cases im)
  case (OnMessage m d)
  then have d: "d = North" using assms(1) by (cases d) (simp_all add: settles_def)
  have "process_internal env st out im rnd tok = Some (snd (stop_and_remove_timer st i), out)"
    using assms(1) OnMessage d
    by (simp add: settles_def process_internal_def ff_handle_message_to_app_def ff_source_check_def case_prod_beta)
  then show ?thesis using assms(2) OnMessage by (auto simp: stop_and_remove_timer_def plain_eq.hm_remove_absent split: option.splits)
next
  case (TimerFailure l t)
  then have l: "l = i" using assms(1) by (simp add: settles_def)
  show ?thesis
  proof (cases "hm_get (=) i (fs_timers st)")
    case None
    then show ?thesis using assms(2) TimerFailure l by (simp add: process_internal_def handle_timer_failure_def ff_pending_def plain_eq.hm_remove_absent)
  next
    case (Some tm)
    then show ?thesis using assms(2) TimerFailure l
      by (cases tm) (auto simp: process_internal_def handle_timer_failure_def ff_pending_def bind_eq_Some_conv send_app_def
          is_timeout_def split: if_splits)
  qed
qed (use assms(1) in \<open>simp_all add: settles_def\<close>)

text \<open>Handling a discovery reply acknowledges nothing.\<close>

definition is_ack :: "message \<Rightarrow> bool" where
  "is_ack m \<longleftrightarrow> msg_get_header_type m = Some FnfAck"

lemma send_buffered_no_ack:
  assumes "send_buffered env st out ms l rnd tok = Some (r, st', out')" and "\<forall>m\<in>set ms. \<not> is_ack m"
  shows "count is_ack (so_slim out') = count is_ack (so_slim out)"
  using assms
proof (induction env st out ms l rnd tok rule: send_buffered.induct)
  case (1 env st out l rnd tok)
  then show ?case by simp
next
  case (2 env st out m ms l rnd tok)
  then obtain r1 st1 out1 where 1: "ff_send_message env st out m (rnd l) (tok l) = Some (r1, st1, out1)"
    by (auto simp: bind_eq_Some_conv)
  obtain m' where "out1 = snd (send_slim env m' out)" "msg_get_header_type m' = msg_get_header_type m"
    using ff_send_message_cases [OF 1] by blast
  then have "count is_ack (so_slim out1) = count is_ack (so_slim out)"
    using 2(3) by (simp add: is_ack_def send_slim_def)
  then show ?case using 2(1) [OF 1 refl refl] 2(2,3) 1 by (cases r1) auto
qed

lemma discovery_reply_no_ack:
  assumes "received_from FnfDiscoveryReply peer conn m" and "\<forall>b\<in>set (fs_sticky_buffer st). \<not> is_ack b"
    and "process_internal env st out (OnMessage m North) rnd tok = Some (st', out')"
  shows "count is_ack (so_slim out') = count is_ack (so_slim out)"
proof -
  obtain i where i: "in_message_id (sm_info m) = Some i" using assms(1) by (auto simp: received_from_def)
  have "ff_source_check st m \<noteq> None"
    using assms(1) by (auto simp: received_from_def ff_source_check_def split: option.splits)
  then obtain mis where mis: "ff_source_check st m = Some mis" by blast
  consider "mis \<noteq> None" | "mis = None" "fs_sticky_session_status st \<noteq> Discovering" | "mis = None" "fs_sticky_session_status st = Discovering"
    by blast
  then show ?thesis
  proof cases
    case 1
    then show ?thesis using assms i mis
      by (auto simp: process_internal_def ff_handle_message_to_app_def ff_source_check_def [symmetric])
  next
    case 2
    then show ?thesis using assms i mis
      by (cases "fs_sticky_session_status st"; cases "fs_sticky_name st")
        (auto simp: process_internal_def ff_handle_message_to_app_def ff_source_check_def [symmetric] received_from_def
          handle_sticky_session_discovery_reply_def)
  next
    case 3
    then show ?thesis using assms i mis send_buffered_no_ack
      by (fastforce simp: process_internal_def ff_handle_message_to_app_def ff_source_check_def [symmetric] received_from_def
          handle_sticky_session_discovery_reply_def)
  qed
qed

lemma discovery_answered:
  assumes "received_from FnfDiscovery peer conn m" and "ff_source_check st m = Some None" and "se_slim_open env"
    and "ff_timeout (fs_config st) = Some d"
  shows "\<exists>st' reply. process_internal env st out (OnMessage m North) rnd tok =
      Some (st', out\<lparr>so_slim := so_slim out @ [reply]\<rparr>) \<and> ff_pending st' (rnd 0) \<and>
    msg_get_header_type reply = Some FnfDiscoveryReply \<and> msg_get_id reply = Some (rnd 0) \<and> fs_sticky_name st' = Some peer"
proof -
  obtain i where i: "in_message_id (sm_info m) = Some i" using assms(1) by (auto simp: received_from_def)
  let ?r = "new_publish (fs_source st) (ag_type peer) (Some (ag_id peer)) (Some (with_forward_to flags_default conn))
    ''sticky_session_discovery_reply'' []"
    and ?st = "st\<lparr>fs_sticky_name := Some peer, fs_sticky_connection := Some conn, fs_sticky_session_status := Established\<rparr>"
  have h: "get_session_header ?r = Some session_header_default" "get_slim_header ?r \<noteq> None"
    by (simp_all add: new_publish_def publish_new_def publish_with_header_def message_new_def get_session_header_def get_slim_header_def)
  obtain r1 where r1: "get_session_header_mut (session_header_set_header_type FnfDiscoveryReply) ?r = Some r1"
      "get_session_header r1 = Some (session_header_set_header_type FnfDiscoveryReply session_header_default)"
    using session_ref.wr_defined [OF h(1)] by blast
  obtain g where g: "get_slim_header r1 = Some g" using get_session_header_mut_frame(1) [OF r1(1)] h(2) by auto
  obtain m' where m': "sent_as ?st (rnd 0) r1 m'" "ff_send_message env ?st out r1 (rnd 0) (tok 0) =
      Some (map_sum SlimTransmission id (fst (send_slim env m' out)), with_timer ?st (rnd 0) m' (tok 0), snd (send_slim env m' out))"
    using ff_send_message_spec [OF r1(2) disjI2 [OF g]] by blast
  have "process_internal env st out (OnMessage m North) rnd tok =
      Some (with_timer ?st (rnd 0) m' (tok 0), out\<lparr>so_slim := so_slim out @ [m']\<rparr>)"
    using assms(1-3) i m'(2) r1(1) by (simp add: process_internal_def ff_handle_message_to_app_def ff_source_check_def [symmetric]
        received_from_def handle_sticky_session_discovery_def send_slim_def)
  moreover have "msg_get_header_type m' = Some FnfDiscoveryReply" "msg_get_id m' = Some (rnd 0)"
    using m'(1) r1(2) by (simp_all add: sent_as_def msg_get_header_type_def msg_get_id_def session_header_set_header_type_def)
  moreover have "ff_pending (with_timer ?st (rnd 0) m' (tok 0)) (rnd 0)"
    using assms(4) by (simp add: with_timer_def ff_pending_def)
  ultimately show ?thesis by (intro exI [of _ "with_timer ?st (rnd 0) m' (tok 0)"] exI [of _ m']) simp
qed

section \<open>Sticky sessions with other traffic\<close>

text \<open>
  What may happen between the messages of the application: timers, acknowledgements and messages of
  any peer, and new configurations that stay sticky. A discovery from another peer is not among
  them: it would make the session stick to that peer and leave the buffered messages behind. Answers
  to the probe count once the session is established; the first one establishes it.
\<close>

fun app_turn :: "internal_message \<Rightarrow> bool" where
  "app_turn (OnMessage m South) \<longleftrightarrow> app_message (sm_message m)"
| "app_turn im \<longleftrightarrow> False"

fun side_turn :: "bool \<Rightarrow> internal_message \<Rightarrow> bool" where
  "side_turn answered (OnMessage m North) \<longleftrightarrow> info_from_message (sm_message m) = Some (sm_info m) \<and>
     msg_get_incoming_conn (sm_message m) \<noteq> None \<and> msg_get_header_type (sm_message m) \<noteq> Some FnfDiscovery \<and>
     (msg_get_header_type (sm_message m) = Some FnfDiscoveryReply \<longrightarrow> answered)"
| "side_turn answered (OnMessage m South) \<longleftrightarrow> False"
| "side_turn answered (SetConfig c) \<longleftrightarrow> ff_sticky c"
| "side_turn answered im \<longleftrightarrow> True"

fun app_messages :: "turn list \<Rightarrow> message list" where
  "app_messages [] = []"
| "app_messages ((im, _) # turns) =
     (case im of OnMessage m South \<Rightarrow> sm_message m # app_messages turns | _ \<Rightarrow> app_messages turns)"

text \<open>
  A run that tells what the turns of the application and the answers to the probe sent. What the
  other turns send are acknowledgements and copies of messages that were sent before.
\<close>

definition own_turn :: "internal_message \<Rightarrow> bool" where
  "own_turn im = (case im of
      OnMessage m South \<Rightarrow> True
    | OnMessage m North \<Rightarrow> msg_get_header_type (sm_message m) = Some FnfDiscoveryReply
    | _ \<Rightarrow> False)"

fun own_sends ::
    "session_env \<Rightarrow> fire_and_forget_state \<Rightarrow> session_out \<Rightarrow> turn list \<Rightarrow> (fire_and_forget_state \<times> session_out \<times> message list) option" where
  "own_sends env st out [] = Some (st, out, [])"
| "own_sends env st out ((im, rnd, tok) # turns) = do {
     (st', out') \<leftarrow> process_internal env st out im rnd tok;
     (st'', out'', sent) \<leftarrow> own_sends env st' out' turns;
     Some (st'', out'', (if own_turn im then drop (length (so_slim out)) (so_slim out') else []) @ sent)
   }"

lemma own_sends_run: "map_option (\<lambda>(st, out, _). (st, out)) (own_sends env st out turns) = process_run env st out turns"
proof (induction env st out turns rule: own_sends.induct)
  case (2 env st out im rnd tok turns)
  show ?case
  proof (cases "process_internal env st out im rnd tok")
    case (Some p)
    obtain st' out' where p: "p = (st', out')" by fastforce
    show ?thesis using 2 [OF Some p [symmetric]] Some p
      by (cases "own_sends env st' out' turns") auto
  qed simp
qed simp

lemma own_sends_append_run:
  assumes "own_sends env st out xs = Some (st1, out1, sent1)" and "own_sends env st1 out1 ys = Some (st2, out2, sent2)"
  shows "process_run env st out (xs @ ys) = Some (st2, out2)"
  using assms own_sends_run [of env st out xs, symmetric] own_sends_run [of env st1 out1 ys, symmetric]
  by (simp add: process_run_append)

text \<open>A turn of another kind leaves the sticky state alone.\<close>

definition same_sticky :: "fire_and_forget_state \<Rightarrow> fire_and_forget_state \<Rightarrow> bool" where
  "same_sticky st st' \<longleftrightarrow> fs_sticky_name st' = fs_sticky_name st \<and> fs_sticky_connection st' = fs_sticky_connection st \<and>
     fs_sticky_session_status st' = fs_sticky_session_status st \<and> fs_sticky_buffer st' = fs_sticky_buffer st \<and>
     fs_session_id st' = fs_session_id st"

lemma same_sticky_refl [simp]: "same_sticky st st"
  by (simp add: same_sticky_def)

lemma sticky_ready_remove: "sticky_ready st \<Longrightarrow> sticky_ready (st\<lparr>fs_timers := hm_remove (=) j (fs_timers st)\<rparr>)"
  by (auto simp: sticky_ready_def split: if_splits)

lemma side_message:
  assumes side: "side_turn answered (OnMessage m North)" and ready: "sticky_ready st"
    and ans: "answered \<Longrightarrow> stuck peer conn st"
  shows "\<exists>st' out'. process_internal env st out (OnMessage m North) rnd tok = Some (st', out') \<and> sticky_ready st' \<and>
    same_sticky st st' \<and> (own_turn (OnMessage m North) \<longrightarrow> out' = out)"
proof -
  obtain h src where h: "get_session_header (sm_message m) = Some h" "in_message_id (sm_info m) = Some (se_message_id h)"
      "msg_get_source (sm_message m) = Some src"
    using side that by (force simp: info_from_message_def bind_eq_Some_conv dest: arg_cong [of _ _ in_message_id])
  obtain c where c: "msg_get_incoming_conn (sm_message m) = Some c" using side by auto
  let ?t = "header_type_of_i32 (se_header_type h)"
  have t: "msg_get_header_type (sm_message m) = Some ?t" using h(1) by (simp add: msg_get_header_type_def)
  obtain mis where mis: "ff_source_check st m = Some mis"
    using h(3) that by (cases "fs_sticky_name st"; cases "ff_sticky (fs_config st)") (simp_all add: ff_source_check_def)
  note unf = process_internal_def ff_handle_message_to_app_def ff_source_check_def [symmetric] h(2) mis
  show ?thesis
  proof (cases mis)
    case (Some why)
    then show ?thesis using ready by (simp add: unf)
  next
    case None
    have app: "ff_send_message_to_app env st out1 m =
        Some (map_sum SlimTransmission id (fst (send_app env (Inr m) out1)), st, snd (send_app env (Inr m) out1))" for out1
      by (simp add: ff_send_message_to_app_def case_prod_beta)
    have reply: "?t = FnfDiscoveryReply \<Longrightarrow> stuck peer conn st" using side t ans by auto
    show ?thesis
    proof (cases ?t)
      case Fnf
      then show ?thesis using ready None t by (simp add: unf own_turn_def app)
    next
      case FnfReliable
      then show ?thesis using ready None t h(3) c
        by (auto simp: unf own_turn_def app Let_def split: prod.split sum.split)
    next
      case FnfAck
      then show ?thesis using ready None t sticky_ready_remove [OF ready]
        by (auto simp: unf own_turn_def stop_and_remove_timer_def same_sticky_def split: option.split)
    next
      case FnfDiscovery
      then show ?thesis using side t by simp
    next
      case FnfDiscoveryReply
      then show ?thesis using ready None t h(3) reply
        by (auto simp: unf handle_sticky_session_discovery_reply_def stuck_def)
    qed (use ready None t in \<open>simp_all add: unf own_turn_def\<close>)
  qed
qed

lemma side_turn_spec:
  assumes side: "side_turn answered im" and ready: "sticky_ready st" and ans: "answered \<Longrightarrow> stuck peer conn st"
  shows "\<exists>st' out'. process_internal env st out im rnd tok = Some (st', out') \<and> sticky_ready st' \<and>
    same_sticky st st' \<and> (own_turn im \<longrightarrow> out' = out)"
proof (cases im)
  case (OnMessage m d)
  show ?thesis
  proof (cases d)
    case North
    have side': "side_turn answered (OnMessage m North)" using OnMessage North side by (simp only:)
    show ?thesis unfolding OnMessage North by (rule side_message [OF side' ready ans])
  qed (use OnMessage side in simp)
next
  case (SetConfig c)
  then show ?thesis using side ready by (simp add: process_internal_def sticky_ready_def same_sticky_def own_turn_def)
next
  case (TimerTimeout i n)
  then show ?thesis using ready
    by (auto simp: process_internal_def handle_timer_timeout_def own_turn_def split: option.split)
next
  case (TimerFailure i n)
  show ?thesis
  proof (cases "hm_get (=) i (fs_timers st)")
    case (Some p)
    obtain t m where p: "p = (t, m)" by fastforce
    then have "info_from_message m \<noteq> None" using ready Some by (simp add: sticky_ready_def)
    then have "session_message_from m \<noteq> None" by (auto simp: session_message_from_def)
    then show ?thesis using Some p TimerFailure sticky_ready_remove [OF ready]
      by (auto simp: process_internal_def handle_timer_failure_def own_turn_def same_sticky_def Let_def)
  qed (use TimerFailure ready in \<open>simp add: process_internal_def handle_timer_failure_def own_turn_def\<close>)
qed

lemma discovering_run:
  assumes "fs_sticky_name st = None" and "fs_sticky_session_status st = Discovering" and "sticky_ready st"
    and "\<forall>t\<in>set turns. app_turn (fst t) \<or> side_turn False (fst t)"
  shows "\<exists>st' out' bs. own_sends env st out turns = Some (st', out', []) \<and> fs_sticky_name st' = None \<and>
    fs_sticky_session_status st' = Discovering \<and> sticky_ready st' \<and> fs_session_id st' = fs_session_id st \<and>
    fs_sticky_buffer st' = fs_sticky_buffer st @ bs \<and> list_all2 (\<lambda>m b. same_content m b \<and> app_message b) (app_messages turns) bs"
  using assms
proof (induction turns arbitrary: st out)
  case (Cons t turns)
  obtain im rnd tok where t: "t = (im, rnd, tok)" by (cases t) auto
  have sticky: "ff_sticky (fs_config st)" using Cons.prems(3) by (simp add: sticky_ready_def)
  obtain st1 out1 bs1 where 1: "process_internal env st out im rnd tok = Some (st1, out1)" "own_turn im \<longrightarrow> out1 = out"
      "fs_sticky_name st1 = None" "fs_sticky_session_status st1 = Discovering" "sticky_ready st1" "fs_session_id st1 = fs_session_id st"
      "fs_sticky_buffer st1 = fs_sticky_buffer st @ bs1"
      "list_all2 (\<lambda>m b. same_content m b \<and> app_message b) (app_messages [t]) bs1"
  proof (cases "app_turn im")
    case True
    then obtain m where m: "im = OnMessage m South" "app_message (sm_message m)" by (cases im rule: app_turn.cases) auto
    obtain b where "process_internal env st out im rnd tok = Some (st\<lparr>fs_sticky_buffer := fs_sticky_buffer st @ [b]\<rparr>, out)"
        "same_content (sm_message m) b" "app_message b"
      using discovering_turn [OF sticky Cons.prems(1,2) m(2)] m(1) by blast
    then show thesis using that [of "st\<lparr>fs_sticky_buffer := fs_sticky_buffer st @ [b]\<rparr>" out "[b]"] Cons.prems m t
      by (simp add: sticky_ready_def)
  next
    case False
    then have side: "side_turn False im" using Cons.prems(4) t by auto
    then have "app_messages [t] = []" using t by (cases im rule: app_turn.cases) auto
    moreover obtain st' out' where "process_internal env st out im rnd tok = Some (st', out')" "sticky_ready st'"
        "same_sticky st st'" "own_turn im \<longrightarrow> out' = out"
      using side_turn_spec [OF side Cons.prems(3), of undefined undefined env out rnd tok] by auto
    ultimately show thesis using that [of st' out' "[]"] Cons.prems(1,2) by (simp add: same_sticky_def)
  qed
  obtain st2 out2 bs2 where 2: "own_sends env st1 out1 turns = Some (st2, out2, [])" "fs_sticky_name st2 = None"
      "fs_sticky_session_status st2 = Discovering" "sticky_ready st2" "fs_session_id st2 = fs_session_id st1"
      "fs_sticky_buffer st2 = fs_sticky_buffer st1 @ bs2" "list_all2 (\<lambda>m b. same_content m b \<and> app_message b) (app_messages turns) bs2"
    using Cons.IH [OF 1(3-5), of out1] Cons.prems(4) by auto
  have "app_messages (t # turns) = app_messages [t] @ app_messages turns"
    by (auto simp: t split: internal_message.split message_direction.split)
  then show ?case using 1 2 t list_all2_appendI [OF 1(8) 2(7)]
    by (intro exI [of _ st2] exI [of _ out2] exI [of _ "bs1 @ bs2"]) auto
qed simp

lemma stuck_run:
  assumes "stuck peer conn st" and "sticky_ready st" and "se_slim_open env"
    and "\<forall>t\<in>set turns. app_turn (fst t) \<or> side_turn True (fst t)"
  shows "\<exists>st' out' sent. own_sends env st out turns = Some (st', out', sent) \<and> stuck peer conn st' \<and>
    list_all2 (stuck_to peer conn (fs_session_id st)) (app_messages turns) sent"
  using assms
proof (induction turns arbitrary: st out)
  case (Cons t turns)
  obtain im rnd tok where t: "t = (im, rnd, tok)" by (cases t) auto
  obtain st1 out1 sent1 where 1: "process_internal env st out im rnd tok = Some (st1, out1)"
      "(if own_turn im then drop (length (so_slim out)) (so_slim out1) else []) = sent1"
      "stuck peer conn st1" "sticky_ready st1" "fs_session_id st1 = fs_session_id st"
      "list_all2 (stuck_to peer conn (fs_session_id st)) (app_messages [t]) sent1"
  proof (cases "app_turn im")
    case True
    then obtain m where m: "im = OnMessage m South" "app_message (sm_message m)" by (cases im rule: app_turn.cases) auto
    obtain st' s where "process_internal env st out (OnMessage m South) rnd tok = Some (st', out\<lparr>so_slim := so_slim out @ [s]\<rparr>)"
        "stuck peer conn st'" "sticky_ready st'" "fs_session_id st' = fs_session_id st"
        "stuck_to peer conn (fs_session_id st) (sm_message m) s"
      using stuck_turn [OF m(2) Cons.prems(1,3,2), of out rnd tok] by blast
    then show thesis using that [of st' "out\<lparr>so_slim := so_slim out @ [s]\<rparr>" "[s]"] m t by (simp add: own_turn_def)
  next
    case False
    then have side: "side_turn True im" using Cons.prems(4) t by auto
    then have "app_messages [t] = []" using t by (cases im rule: app_turn.cases) auto
    moreover obtain st' out' where "process_internal env st out im rnd tok = Some (st', out')" "sticky_ready st'"
        "same_sticky st st'" "own_turn im \<longrightarrow> out' = out"
      using side_turn_spec [OF side Cons.prems(2), of peer conn env out rnd tok] Cons.prems(1) by auto
    moreover from this have "stuck peer conn st'"
      using Cons.prems(1) by (simp add: same_sticky_def stuck_def sticky_ready_def)
    ultimately show thesis using that [of st' out' "[]"] by (simp add: same_sticky_def)
  qed
  obtain st2 out2 sent2 where 2: "own_sends env st1 out1 turns = Some (st2, out2, sent2)" "stuck peer conn st2"
      "list_all2 (stuck_to peer conn (fs_session_id st1)) (app_messages turns) sent2"
    using Cons.IH [OF 1(3,4) Cons.prems(3), of out1] Cons.prems(4) by auto
  have "app_messages (t # turns) = app_messages [t] @ app_messages turns"
    by (auto simp: t split: internal_message.split message_direction.split)
  then show ?case using 1 2 t list_all2_appendI [OF 1(6), of "app_messages turns" sent2]
    by (intro exI [of _ st2] exI [of _ out2] exI [of _ "sent1 @ sent2"]) auto
qed simp

text \<open>
  Once a session is established its buffer is never touched again. So when a discovery of another
  peer establishes a session that is still discovering, what is buffered is never sent.
\<close>

definition settled_down :: "message list \<Rightarrow> fire_and_forget_state \<Rightarrow> bool" where
  "settled_down bs st \<longleftrightarrow> fs_sticky_session_status st = Established \<and> fs_sticky_name st \<noteq> None \<and> fs_sticky_buffer st = bs"

lemma settled_down_simps [simp]:
  "settled_down bs (with_timer st i m k) = settled_down bs st"
  "settled_down bs (st\<lparr>fs_timers := ts\<rparr>) = settled_down bs st"
  "settled_down bs (st\<lparr>fs_config := c\<rparr>) = settled_down bs st"
  by (simp_all add: settled_down_def)

lemma settled_down_send:
  assumes "settled_down bs st" and "ff_send_message env st out m i token = Some (r, st', out')"
  shows "settled_down bs st'"
  using assms(1) by (auto intro: ff_send_message_cases [OF assms(2)])

lemma settled_down_discovery:
  assumes "fs_sticky_buffer st = bs" and "handle_sticky_session_discovery env st out m i token = Some (r, st', out')"
  shows "settled_down bs st'"
proof -
  obtain source conn reply where sd: "ff_send_message env (st\<lparr>fs_sticky_name := Some source, fs_sticky_connection := Some conn,
      fs_sticky_session_status := Established\<rparr>) out reply i token = Some (r, st', out')"
    using assms(2) by (auto simp: handle_sticky_session_discovery_def bind_eq_Some_conv Let_def)
  show ?thesis by (rule settled_down_send [OF _ sd]) (simp add: settled_down_def assms(1))
qed

lemma settled_down_to_app:
  assumes d: "settled_down bs st" and e: "ff_handle_message_to_app env st out m rnd tok = Some (r, st', out')"
  shows "settled_down bs st'"
proof -
  obtain mid where mid: "in_message_id (sm_info m) = Some mid"
    using e by (auto simp: ff_handle_message_to_app_def bind_eq_Some_conv)
  obtain mis where mis: "ff_source_check st m = Some mis"
    using e mid by (auto simp: ff_handle_message_to_app_def ff_source_check_def bind_eq_Some_conv)
  have app: "ff_send_message_to_app env st out1 m = Some (r, st2, out2) \<Longrightarrow> st2 = st" for st2 out1 out2
    by (auto simp: ff_send_message_to_app_def split: prod.splits)
  show ?thesis
  proof (cases mis)
    case (Some why)
    then show ?thesis using e mid mis d by (simp add: ff_handle_message_to_app_def ff_source_check_def)
  next
    case None
    then obtain t where t: "msg_get_header_type (sm_message m) = Some t"
      using e mid mis by (auto simp: ff_handle_message_to_app_def ff_source_check_def bind_eq_Some_conv)
    note e' = e [unfolded ff_handle_message_to_app_def, folded ff_source_check_def, simplified mid mis None t, simplified]
    show ?thesis
    proof (cases t)
      case FnfReliable
      then obtain ack where ack: "(case send_slim env ack out of (Inl e, out) \<Rightarrow> Some (Inl (SlimTransmission e), st, out)
        | (Inr _, out) \<Rightarrow> ff_send_message_to_app env st out m) = Some (r, st', out')"
        using e' by (auto simp: bind_eq_Some_conv Let_def)
      then have "st' = st" using app by (cases "fst (send_slim env ack out)") (auto simp: case_prod_beta)
      then show ?thesis using d by simp
    next
      case FnfAck
      then show ?thesis using e' d by (auto simp: stop_and_remove_timer_def split: option.splits)
    next
      case FnfDiscovery
      then show ?thesis using e' d settled_down_discovery [of st bs env out m "rnd 0" "tok 0" r st' out']
        by (simp add: settled_down_def [of bs st])
    next
      case FnfDiscoveryReply
      then have "st' = st" using e' d
        by (auto simp: handle_sticky_session_discovery_reply_def settled_down_def bind_eq_Some_conv)
      then show ?thesis using d by simp
    qed (use e' d app in auto)
  qed
qed

lemma settled_down_turn:
  assumes d: "settled_down bs st" and e: "process_internal env st out im rnd tok = Some (st', out')"
  shows "settled_down bs st'"
proof (cases im)
  case (OnMessage m d')
  show ?thesis
  proof (cases d')
    case North
    then show ?thesis using e OnMessage settled_down_to_app [OF d] by (auto simp: process_internal_def)
  next
    case South
    then show ?thesis using e OnMessage d settled_down_send [OF d]
      by (auto simp: process_internal_def ff_handle_message_to_slim_def bind_eq_Some_conv settled_down_def [of bs st] split: if_splits)
  qed
qed (use d e in \<open>auto simp: process_internal_def handle_timer_timeout_def handle_timer_failure_def bind_eq_Some_conv Let_def
    split: option.splits\<close>)

section \<open>Properties of fire-and-forget sessions\<close>

text \<open>
  C26: a new sticky session that is given messages before its peer has answered sends one discovery
  probe, and the messages stay in its buffer until the answer comes. From then on everything the
  application sent and sends goes to the peer that answered, over the connection of the answer,
  complete and in the order it was sent, and none of it is held back. In between there may be timer
  events, messages and acknowledgements of any peer, later answers to the probe and new
  configurations, as long as these stay sticky; no discovery of another peer comes in. The messages
  have a source that can be read, and the channel to the network is open.
\<close>

theorem sticky_messages_sent_in_order:
  assumes "ff_sticky conf" and "se_slim_open env" and "received_from FnfDiscoveryReply peer conn reply"
    and "app_message (sm_message m)" and "\<forall>t\<in>set before. app_turn (fst t) \<or> side_turn False (fst t)"
    and "\<forall>t\<in>set after. app_turn (fst t) \<or> side_turn True (fst t)"
  shows "\<exists>probe st1 out1 st2 out2 sent.
    own_sends env (fa_state (fire_and_forget_new sid conf dir source identity)) out ((OnMessage m South, rnd1, tok1) # before)
      = Some (st1, out1, [probe]) \<and> msg_get_header_type probe = Some FnfDiscovery \<and>
    own_sends env st1 out1 ((OnMessage reply North, rnd2, tok2) # after) = Some (st2, out2, sent) \<and>
    process_run env (fa_state (fire_and_forget_new sid conf dir source identity)) out
      ((OnMessage m South, rnd1, tok1) # before @ (OnMessage reply North, rnd2, tok2) # after) = Some (st2, out2) \<and>
    list_all2 (stuck_to peer conn sid) (sm_message m # app_messages before @ app_messages after) sent \<and> fs_sticky_buffer st2 = []"
proof -
  let ?new = "fa_state (fire_and_forget_new sid conf dir source identity)"
  have st0: "ff_sticky (fs_config ?new)" "fs_sticky_name ?new = None" "fs_sticky_session_status ?new = Uninitialized"
      "fs_sticky_buffer ?new = []" "fs_session_id ?new = sid" "fs_timers ?new = []"
    using assms(1) by (simp_all add: fire_and_forget_new_def Let_def)
  obtain probe b where 1: "process_internal env ?new out (OnMessage m South) rnd1 tok1 =
      Some (?new\<lparr>fs_sticky_session_status := Discovering, fs_sticky_buffer := [b]\<rparr>, out\<lparr>so_slim := so_slim out @ [probe]\<rparr>)"
      "same_content (sm_message m) b" "app_message b" "msg_get_header_type probe = Some FnfDiscovery"
    using discovery_starts [OF st0(1-3) assms(4,2), of out rnd1 tok1] st0(4) by auto
  let ?st = "?new\<lparr>fs_sticky_session_status := Discovering, fs_sticky_buffer := [b]\<rparr>"
    and ?out = "out\<lparr>so_slim := so_slim out @ [probe]\<rparr>"
  have "sticky_ready ?st" using st0(1,6) by (simp add: sticky_ready_def)
  then obtain st1 out1 bs where 2: "own_sends env ?st ?out before = Some (st1, out1, [])" "fs_sticky_name st1 = None"
      "fs_sticky_session_status st1 = Discovering" "sticky_ready st1" "fs_session_id st1 = sid" "fs_sticky_buffer st1 = b # bs"
      "list_all2 (\<lambda>m b. same_content m b \<and> app_message b) (app_messages before) bs"
    using discovering_run [OF _ _ _ assms(5), of ?st env ?out] st0 by auto
  have c: "list_all2 (\<lambda>m b. same_content m b \<and> app_message b) (sm_message m # app_messages before) (b # bs)" using 1(2,3) 2(7) by simp
  then have buf: "\<forall>x\<in>set (fs_sticky_buffer st1). app_message x"
    unfolding 2(6) list_all2_conv_all_nth by (metis in_set_conv_nth)
  obtain st3 sent1 where 3: "process_internal env st1 out1 (OnMessage reply North) rnd2 tok2 = Some (st3, out1\<lparr>so_slim := so_slim out1 @ sent1\<rparr>)"
      "stuck peer conn st3" "sticky_ready st3" "fs_session_id st3 = sid" "list_all2 (stuck_to peer conn sid) (b # bs) sent1"
    using reply_establishes [OF _ 2(2,3) buf assms(2,3) 2(4), of out1 rnd2 tok2] 2(4-6) by (auto simp: sticky_ready_def)
  obtain st2 out2 sent2 where 4: "own_sends env st3 (out1\<lparr>so_slim := so_slim out1 @ sent1\<rparr>) after = Some (st2, out2, sent2)"
      "stuck peer conn st2" "list_all2 (stuck_to peer conn sid) (app_messages after) sent2"
    using stuck_run [OF 3(2,3) assms(2,6), of "out1\<lparr>so_slim := so_slim out1 @ sent1\<rparr>"] 3(4) by blast
  have "own_turn (OnMessage reply North)" using assms(3) by (simp add: own_turn_def received_from_def)
  then have o: "own_sends env ?new out ((OnMessage m South, rnd1, tok1) # before) = Some (st1, out1, [probe])"
      "own_sends env st1 out1 ((OnMessage reply North, rnd2, tok2) # after) = Some (st2, out2, sent1 @ sent2)"
    using 1(1) 2(1) 3(1) 4(1) by (simp_all add: own_turn_def)
  have "list_all2 (stuck_to peer conn sid) (sm_message m # app_messages before) sent1"
    by (rule list_all2_trans [OF _ c 3(5)]) (use stuck_to_write in blast)
  then have "list_all2 (stuck_to peer conn sid) (sm_message m # app_messages before @ app_messages after) (sent1 @ sent2)"
    using list_all2_appendI [OF _ 4(3)] by fastforce
  moreover have "process_run env ?new out ((OnMessage m South, rnd1, tok1) # before @ (OnMessage reply North, rnd2, tok2) # after) =
      Some (st2, out2)"
    using own_sends_append_run [OF o] unfolding append_Cons .
  ultimately show ?thesis using o 1(4) 4(2)
    by (intro exI [of _ probe] exI [of _ st1] exI [of _ out1] exI [of _ st2] exI [of _ out2] exI [of _ "sent1 @ sent2"]) (simp add: stuck_def)
qed

definition demo_ff_msg :: session_message where
  "demo_ff_msg = \<lparr>sm_message = new_publish sample_source sample_type None None ''text'' [1], sm_info = info_new 3\<rparr>"

definition demo_ff_received :: "session_header_type \<Rightarrow> u32 \<Rightarrow> session_message" where
  "demo_ff_received t i = (let m = new_publish_with_headers
      (Some (slim_header_new sample_source sample_type None (Some (with_incoming_conn flags_default 8))))
      (Some (session_header_new (i32_of_header_type t) 3 i)) '''' []
    in \<lparr>sm_message = m, sm_info = the (info_from_message m)\<rparr>)"

theorem sticky_messages_sent_in_order_witness:
  "\<exists>probe st1 out1 st2 out2 sent.
    own_sends open_env (fa_state (fire_and_forget_new 3 \<lparr>ff_timeout = Some 5, ff_max_retries = None, ff_sticky = True\<rparr>
        Bidirectional sample_source None)) empty_out
      [(OnMessage demo_ff_msg South, \<lambda>_. 1, \<lambda>_. 0), (OnMessage (demo_ff_received FnfReliable 9) North, \<lambda>_. 2, \<lambda>_. 1),
       (OnMessage demo_ff_msg South, \<lambda>_. 3, \<lambda>_. 2)] = Some (st1, out1, [probe]) \<and>
    own_sends open_env st1 out1
      [(OnMessage (demo_ff_received FnfDiscoveryReply 4) North, \<lambda>k. of_nat k + 4, \<lambda>k. k + 3), (TimerTimeout 4 1, \<lambda>_. 6, \<lambda>_. 5),
       (OnMessage demo_ff_msg South, \<lambda>_. 7, \<lambda>_. 6)] = Some (st2, out2, sent) \<and> length sent = 3"
proof -
  let ?conf = "\<lparr>ff_timeout = Some 5, ff_max_retries = None, ff_sticky = True\<rparr>"
  have "map_option (agent_eq sample_source) (msg_get_source (sm_message (demo_ff_received FnfDiscoveryReply 4))) = Some True"
    by code_simp
  then obtain peer where peer: "msg_get_source (sm_message (demo_ff_received FnfDiscoveryReply 4)) = Some peer" by auto
  have "in_message_id (sm_info (demo_ff_received FnfDiscoveryReply 4)) = Some 4"
      "msg_get_header_type (sm_message (demo_ff_received FnfDiscoveryReply 4)) = Some FnfDiscoveryReply"
      "msg_get_incoming_conn (sm_message (demo_ff_received FnfDiscoveryReply 4)) = Some 8" by code_simp+
  then have r: "received_from FnfDiscoveryReply peer 8 (demo_ff_received FnfDiscoveryReply 4)"
    using peer by (simp add: received_from_def)
  have "app_message (sm_message demo_ff_msg)" "side_turn False (OnMessage (demo_ff_received FnfReliable 9) North)" by code_simp+
  then show ?thesis
    using sticky_messages_sent_in_order [of ?conf open_env peer 8 "demo_ff_received FnfDiscoveryReply 4" demo_ff_msg
        "[(OnMessage (demo_ff_received FnfReliable 9) North, \<lambda>_. 2, \<lambda>_. 1), (OnMessage demo_ff_msg South, \<lambda>_. 3, \<lambda>_. 2)]"
        "[(TimerTimeout 4 1, \<lambda>_. 6, \<lambda>_. 5), (OnMessage demo_ff_msg South, \<lambda>_. 7, \<lambda>_. 6)]"
        3 Bidirectional sample_source None empty_out "\<lambda>_. 1" "\<lambda>_. 0" "\<lambda>k. of_nat k + 4" "\<lambda>k. k + 3"] r
    by (auto simp: open_env_def simp del: own_sends.simps process_run.simps dest: list_all2_lengthD)
qed

text \<open>
  C27: an acknowledgement or the failure of its timer settles a message of the session for good.
  The acknowledgement reports nothing to the application and the failure reports one timeout, if
  the message was waiting. After that, whatever arrives and whatever timer events are still under
  way, the message is neither sent again nor reported again, unless a later message draws the same
  identifier.
\<close>

theorem settled_message_stays_settled:
  assumes "process_run env (fa_state (fire_and_forget_new sid conf dir source identity)) out turns = Some (st1, out1)"
    and "settles st1 i im" and "process_internal env st1 out1 im rnd tok = Some (st2, out2)"
    and "process_run env st2 out2 later = Some (st3, out3)"
    and "\<forall>(im, rnd, tok)\<in>set later. \<forall>l. rnd l \<noteq> i"
  shows "\<not> ff_pending st3 i \<and> count (is_reliable i) (so_slim out3) = count (is_reliable i) (so_slim out1) \<and>
    count (is_timeout i) (so_app out3) = count (is_timeout i) (so_app out1) +
      (if (\<exists>t. im = TimerFailure i t) \<and> ff_pending st1 i \<and> se_app_open env then 1 else 0)"
proof -
  have k1: "ff_keys st1" using ff_keys_run [OF assms(1)] .
  note s = settles_spec [OF assms(2,3)]
  have "ff_settled {i} (\<lambda>i. count (is_reliable i) (so_slim out2)) (\<lambda>i. count (is_timeout i) (so_app out2)) st2 out2"
    using k1 s by (auto simp: ff_settled_def ff_keys_def ff_pending_def split: if_splits)
  from settled_run [OF this _ assms(4)] assms(5) have "\<not> ff_pending st3 i"
      "count (is_reliable i) (so_slim out3) = count (is_reliable i) (so_slim out2)"
      "count (is_timeout i) (so_app out3) = count (is_timeout i) (so_app out2)"
    by (auto simp: ff_settled_def)
  then show ?thesis using s by simp
qed

definition demo_ff_reliable :: fire_and_forget_configuration where
  "demo_ff_reliable = \<lparr>ff_timeout = Some 5, ff_max_retries = Some 2, ff_sticky = False\<rparr>"

definition demo_ff_run :: "(fire_and_forget_state \<times> session_out) option" where
  "demo_ff_run = process_run open_env (fa_state (fire_and_forget_new 3 demo_ff_reliable Bidirectional sample_source None))
     empty_out [(OnMessage demo_ff_msg South, \<lambda>_. 7, \<lambda>_. 0)]"

theorem settled_message_stays_settled_witness:
  "\<exists>st1 out1 st2 out2 st3 out3. demo_ff_run = Some (st1, out1) \<and> ff_pending st1 7 \<and>
     process_internal open_env st1 out1 (OnMessage (demo_ff_received FnfAck 7) North) (\<lambda>_. 0) (\<lambda>_. 0) = Some (st2, out2) \<and>
     process_run open_env st2 out2 [(TimerTimeout 7 1, \<lambda>_. 0, \<lambda>_. 0), (TimerFailure 7 3, \<lambda>_. 0, \<lambda>_. 0)] = Some (st3, out3) \<and>
     \<not> ff_pending st3 7 \<and> count (is_reliable 7) (so_slim out3) = 1 \<and> count (is_timeout 7) (so_app out3) = 0"
proof -
  let ?ack = "OnMessage (demo_ff_received FnfAck 7) North"
    and ?late = "[(TimerTimeout 7 1, \<lambda>_. 0, \<lambda>_. 0), (TimerFailure 7 3, \<lambda>_. 0, \<lambda>_. 0)] :: turn list"
  have "(case demo_ff_run of None \<Rightarrow> False | Some (st1, out1) \<Rightarrow> ff_pending st1 7 \<and> settles st1 7 ?ack \<and>
      count (is_reliable 7) (so_slim out1) = 1 \<and> count (is_timeout 7) (so_app out1) = 0 \<and>
      (case process_internal open_env st1 out1 ?ack (\<lambda>_. 0) (\<lambda>_. 0) of None \<Rightarrow> False
       | Some (st2, out2) \<Rightarrow> process_run open_env st2 out2 ?late \<noteq> None))" by code_simp
  then obtain st1 out1 st2 out2 st3 out3 where r: "demo_ff_run = Some (st1, out1)" "ff_pending st1 7" "settles st1 7 ?ack"
      "count (is_reliable 7) (so_slim out1) = 1" "count (is_timeout 7) (so_app out1) = 0"
      "process_internal open_env st1 out1 ?ack (\<lambda>_. 0) (\<lambda>_. 0) = Some (st2, out2)"
      "process_run open_env st2 out2 ?late = Some (st3, out3)" by (auto split: option.splits)
  have "\<not> ff_pending st3 7" "count (is_reliable 7) (so_slim out3) = 1" "count (is_timeout 7) (so_app out3) = 0"
    using r(4,5) settled_message_stays_settled [OF r(1) [unfolded demo_ff_run_def] r(3,6,7)] by simp_all
  then show ?thesis using r(1,2,6,7) by blast
qed

text \<open>
  C28: a session with acknowledgements that answers a discovery keeps its answer waiting for an
  acknowledgement, but the session that receives the answer never sends one: the answer is
  repeated until its retries are used up, and then reported to the application as a timeout.
\<close>

theorem discovery_reply_never_acknowledged:
  assumes "received_from FnfDiscovery asker conn m" and "se_slim_open env" and "ff_timeout conf = Some d"
    and "received_from FnfDiscoveryReply peer conn' reply" and "\<forall>b\<in>set (fs_sticky_buffer st). \<not> is_ack b"
    and "process_internal env' st out' (OnMessage reply North) rnd tok = Some (st', out'')"
  shows "(\<exists>answer st2. process_internal env (fa_state (fire_and_forget_new sid conf dir source identity)) out (OnMessage m North) rnd tok =
        Some (st2, out\<lparr>so_slim := so_slim out @ [answer]\<rparr>) \<and> msg_get_header_type answer = Some FnfDiscoveryReply \<and>
        msg_get_id answer = Some (rnd 0) \<and> ff_pending st2 (rnd 0)) \<and>
    count is_ack (so_slim out'') = count is_ack (so_slim out')"
proof
  let ?st = "fa_state (fire_and_forget_new sid conf dir source identity)"
  have "ff_source_check ?st m = Some None" "ff_timeout (fs_config ?st) = Some d"
    using assms(3) by (simp_all add: fire_and_forget_new_def Let_def ff_source_check_def)
  then show "\<exists>answer st2. process_internal env ?st out (OnMessage m North) rnd tok =
        Some (st2, out\<lparr>so_slim := so_slim out @ [answer]\<rparr>) \<and> msg_get_header_type answer = Some FnfDiscoveryReply \<and>
        msg_get_id answer = Some (rnd 0) \<and> ff_pending st2 (rnd 0)"
    using discovery_answered [OF assms(1) _ assms(2)] by blast
  show "count is_ack (so_slim out'') = count is_ack (so_slim out')"
    by (rule discovery_reply_no_ack [OF assms(4,5,6)])
qed

theorem discovery_reply_never_acknowledged_witness:
  "\<exists>answer st2. process_internal open_env (fa_state (fire_and_forget_new 3 demo_ff_reliable Bidirectional sample_source None)) empty_out
        (OnMessage (demo_ff_received FnfDiscovery 0) North) (\<lambda>_. 7) (\<lambda>_. 0) = Some (st2, empty_out\<lparr>so_slim := [answer]\<rparr>) \<and>
     ff_pending st2 7 \<and> msg_get_header_type answer = Some FnfDiscoveryReply"
proof -
  let ?st = "fa_state (fire_and_forget_new 3 demo_ff_reliable Bidirectional sample_source None)"
    and ?d = "demo_ff_received FnfDiscovery 0" and ?r = "demo_ff_received FnfDiscoveryReply 7"
  have "(case msg_get_source (sm_message ?d) of None \<Rightarrow> False | Some a \<Rightarrow> in_message_id (sm_info ?d) \<noteq> None \<and>
      msg_get_header_type (sm_message ?d) = Some FnfDiscovery \<and> msg_get_incoming_conn (sm_message ?d) = Some 8)"
    "(case msg_get_source (sm_message ?r) of None \<Rightarrow> False | Some a \<Rightarrow> in_message_id (sm_info ?r) \<noteq> None \<and>
      msg_get_header_type (sm_message ?r) = Some FnfDiscoveryReply \<and> msg_get_incoming_conn (sm_message ?r) = Some 8)"
    by code_simp+
  then obtain a b where ab: "received_from FnfDiscovery a 8 ?d" "received_from FnfDiscoveryReply b 8 ?r"
    by (auto simp: received_from_def split: option.splits)
  have "process_internal open_env ?st empty_out (OnMessage ?r North) (\<lambda>_. 7) (\<lambda>_. 0) = Some (?st, empty_out)"
    using ab(2) by (auto simp: process_internal_def ff_handle_message_to_app_def received_from_def fire_and_forget_new_def Let_def
        handle_sticky_session_discovery_reply_def demo_ff_reliable_def)
  moreover have "se_slim_open open_env" "ff_timeout demo_ff_reliable = Some 5" "so_slim empty_out = []" "fs_sticky_buffer ?st = []"
    by (simp_all add: open_env_def demo_ff_reliable_def empty_out_def fire_and_forget_new_def Let_def)
  ultimately show ?thesis
    using discovery_reply_never_acknowledged [OF ab(1) _ _ ab(2), of open_env demo_ff_reliable 5 ?st open_env empty_out "\<lambda>_. 7" "\<lambda>_. 0"
        ?st empty_out 3 Bidirectional sample_source None empty_out] by auto
qed

end
