(* ===== verification/Streaming.thy ===== *)
theory Streaming
  imports Session Receiver_Buffer Producer_Buffer
begin

text \<open>
  The streaming session of \<^verbatim>\<open>service/src/streaming.rs\<close>: producers number their messages and
  answer retransmission requests from a buffer, receivers put the messages of each producer back in
  order and ask for what is missing. A task takes one event at a time: a message, a timer of a
  retransmission request, or the beacon timer of the producer. \<open>tok\<close> gives the tokens of new
  timers.
\<close>

section \<open>State\<close>

definition STREAM_BROADCAST :: u32 where
  "STREAM_BROADCAST = 50"

record producer_state =
  ps_buffer :: producer_buffer
  ps_next_id :: u32
  ps_timer :: timer

record receiver =
  rc_buffer :: receiver_buffer
  rc_producer_name :: agent
  rc_rtx_map :: "(u32, message) hmap"
  rc_timers_map :: "(u32, timer) hmap"

type_synonym receiver_state = "(agent, receiver) hmap"

datatype endpoint =
  Producer_Endpoint producer_state
| Receiver_Endpoint receiver_state
| Bidirectional_Endpoint receiver_state producer_state

definition receiver_new :: "agent \<Rightarrow> receiver" where
  "receiver_new producer_name = \<lparr>rc_buffer = receiver_buffer_default, rc_producer_name = producer_name,
     rc_rtx_map = [], rc_timers_map = []\<rparr>"

definition producer_state_new :: "duration \<Rightarrow> nat \<Rightarrow> producer_state" where
  "producer_state_new d token = \<lparr>ps_buffer = producer_buffer_with_capacity 500, ps_next_id = 0,
     ps_timer = timer_new 1 Exponential d (Some (from_millis 30000)) None token\<rparr>"

section \<open>Operations\<close>

fun st_send_message_to_app ::
    "session_env \<Rightarrow> u32 \<Rightarrow> session_out \<Rightarrow> message option list \<Rightarrow> session_out option" where
  "st_send_message_to_app env session_id out [] = Some out"
| "st_send_message_to_app env session_id out (Some m # rest) = do {
     inf0 \<leftarrow> info_from_message m;
     st_send_message_to_app env session_id (snd (send_app env (Inr \<lparr>sm_message = m, sm_info = inf0\<rparr>) out)) rest
   }"
| "st_send_message_to_app env session_id out (None # rest) =
     st_send_message_to_app env session_id (snd (send_app env (Inl (MessageLost (show_u32 session_id))) out)) rest"

definition send_beacon_msg ::
    "session_env \<Rightarrow> agent \<Rightarrow> agent_type \<Rightarrow> session_header_type \<Rightarrow> u32 \<Rightarrow> u32 \<Rightarrow> session_out \<Rightarrow> session_out" where
  "send_beacon_msg env source topic beacon_type last_msg_id session_id out =
     (let slim_header = slim_header_new source topic None (Some (with_fanout flags_default STREAM_BROADCAST));
          session_header = session_header_new (i32_of_header_type beacon_type) session_id last_msg_id;
          msg = new_publish_with_headers (Some slim_header) (Some session_header) '''' []
      in snd (send_slim env msg out))"

definition process_incoming_rtx_request ::
    "session_env \<Rightarrow> message \<Rightarrow> u32 \<Rightarrow> producer_state \<Rightarrow> agent \<Rightarrow> session_out \<Rightarrow> session_out option" where
  "process_incoming_rtx_request env msg session_id producer source out = do {
     msg_rtx_id \<leftarrow> msg_get_id msg;
     pkt_src \<leftarrow> msg_get_source msg;
     incoming_conn \<leftarrow> msg_get_incoming_conn msg;
     let session_header = session_header_new (i32_of_header_type RtxReply) session_id msg_rtx_id;
     packet \<leftarrow> pb_get (ps_buffer producer) (unat msg_rtx_id);
     case packet of
       Some packet \<Rightarrow> do {
         payload \<leftarrow> msg_get_payload packet;
         case payload of
           None \<Rightarrow> Some out
         | Some p \<Rightarrow>
             (let slim_header = slim_header_new source (ag_type pkt_src) (Some (ag_id pkt_src))
                    (Some (with_fanout (with_forward_to flags_default incoming_conn) 1));
                  rtx_pub = new_publish_with_headers (Some slim_header) (Some session_header) '''' (ct_blob p)
              in Some (snd (send_slim env rtx_pub out)))
       }
     | None \<Rightarrow>
         (let flags = with_error (with_forward_to flags_default incoming_conn) True;
              slim_header = slim_header_new source (ag_type pkt_src) (Some (ag_id pkt_src)) (Some flags);
              rtx_pub = new_publish_with_headers (Some slim_header) (Some session_header) '''' []
          in Some (snd (send_slim env rtx_pub out)))
   }"

definition process_message_from_app ::
    "(u8 list \<Rightarrow> u64) \<Rightarrow> session_env \<Rightarrow> message \<Rightarrow> u32 \<Rightarrow> producer_state \<Rightarrow> bool \<Rightarrow> session_out \<Rightarrow> nat \<Rightarrow>
     (producer_state \<times> session_out) option" where
  "process_message_from_app xx env msg session_id producer is_bidirectional out token = do {
     msg \<leftarrow> msg_set_header_type (if is_bidirectional then PubSub else StreamMsg) msg;
     msg \<leftarrow> msg_set_message_id (ps_next_id producer) msg;
     msg \<leftarrow> msg_set_fanout STREAM_BROADCAST msg;
     (_, buffer) \<leftarrow> pb_push xx (ps_buffer producer) msg;
     let producer = producer\<lparr>ps_buffer := buffer, ps_next_id := ps_next_id producer + 1\<rparr>;
     out \<leftarrow> (case send_slim env msg out of
         (Inr _, out) \<Rightarrow> Some out
       | (Inl _, out) \<Rightarrow>
           (case send_app env (Inl (Processing ''error sending message to local slim instance'')) out of
              (Inr _, out) \<Rightarrow> Some out
            | (Inl _, _) \<Rightarrow> None));
     Some (producer\<lparr>ps_timer := snd (timer_reset token (ps_timer producer))\<rparr>, out)
   }"

text \<open>Asking for the missing messages, each with a timer of its own.\<close>

fun send_rtx ::
    "session_env \<Rightarrow> agent \<Rightarrow> u32 \<Rightarrow> u32 \<Rightarrow> duration \<Rightarrow> agent \<Rightarrow> u64 \<Rightarrow> (nat \<Rightarrow> nat) \<Rightarrow> receiver \<Rightarrow> session_out \<Rightarrow> u32 list \<Rightarrow>
     receiver \<times> session_out" where
  "send_rtx env source session_id max_retries timeout producer_name producer_conn tok receiver out [] = (receiver, out)"
| "send_rtx env source session_id max_retries timeout producer_name producer_conn tok receiver out (r # rest) =
     (let slim_header = slim_header_new source (ag_type producer_name) (Some (ag_id producer_name))
            (Some (with_forward_to flags_default producer_conn));
          session_header = session_header_new (i32_of_header_type RtxRequest) session_id r;
          rtx = new_publish_with_headers (Some slim_header) (Some session_header) '''' [];
          timer = timer_new r Constant timeout None (Some max_retries) (tok (length rest));
          receiver = receiver\<lparr>rc_rtx_map := hm_insert (=) r rtx (rc_rtx_map receiver),
            rc_timers_map := hm_insert (=) r timer (rc_timers_map receiver)\<rparr>
      in send_rtx env source session_id max_retries timeout producer_name producer_conn tok receiver
           (snd (send_slim env rtx out)) rest)"

text \<open>What a message does to the buffer of its producer; \<open>None\<close> inside is an invalid type.\<close>

definition receiver_step ::
    "message \<Rightarrow> receiver \<Rightarrow> ((message option list \<times> u32 list) \<times> receiver) option option" where
  "receiver_step msg receiver = do {
     header_type \<leftarrow> msg_get_header_type msg;
     msg_id \<leftarrow> msg_get_id msg;
     case header_type of
       StreamMsg \<Rightarrow> do {
         (res, b) \<leftarrow> on_received_message (rc_buffer receiver) msg;
         Some (Some (res, receiver\<lparr>rc_buffer := b\<rparr>))
       }
     | PubSub \<Rightarrow> do {
         (res, b) \<leftarrow> on_received_message (rc_buffer receiver) msg;
         Some (Some (res, receiver\<lparr>rc_buffer := b\<rparr>))
       }
     | RtxReply \<Rightarrow> do {
         e \<leftarrow> msg_get_error msg;
         (res, b) \<leftarrow> (if e = Some True
            then (case on_lost_message (rc_buffer receiver) msg_id of (recv, b) \<Rightarrow> Some ((recv, []), b))
            else on_received_message (rc_buffer receiver) msg);
         Some (Some (res, receiver\<lparr>rc_buffer := b, rc_rtx_map := hm_remove (=) msg_id (rc_rtx_map receiver),
           rc_timers_map := hm_remove (=) msg_id (rc_timers_map receiver)\<rparr>))
       }
     | BeaconStream \<Rightarrow> do {
         (rtx, b) \<leftarrow> on_beacon_message (rc_buffer receiver) msg_id;
         Some (Some (([], rtx), receiver\<lparr>rc_buffer := b\<rparr>))
       }
     | BeaconPubSub \<Rightarrow> do {
         (rtx, b) \<leftarrow> on_beacon_message (rc_buffer receiver) msg_id;
         Some (Some (([], rtx), receiver\<lparr>rc_buffer := b\<rparr>))
       }
     | _ \<Rightarrow> Some None
   }"

record stream_conf =
  sc_session_id :: u32
  sc_source :: agent
  sc_max_retries :: u32
  sc_timeout :: duration

definition process_message_from_slim ::
    "session_env \<Rightarrow> stream_conf \<Rightarrow> message \<Rightarrow> receiver_state \<Rightarrow> session_out \<Rightarrow> (nat \<Rightarrow> nat) \<Rightarrow>
     (receiver_state \<times> session_out) option" where
  "process_message_from_slim env sc msg receiver_state out tok = do {
     producer_name \<leftarrow> msg_get_source msg;
     producer_conn \<leftarrow> msg_get_incoming_conn msg;
     let receiver_state = (case hm_get agent_eq producer_name receiver_state of
           Some _ \<Rightarrow> receiver_state
         | None \<Rightarrow> hm_insert agent_eq producer_name (receiver_new producer_name) receiver_state);
     receiver \<leftarrow> hm_get agent_eq producer_name receiver_state;
     step \<leftarrow> receiver_step msg receiver;
     case step of
       None \<Rightarrow> Some (receiver_state, out)
     | Some ((recv, rtx), receiver) \<Rightarrow> do {
         out \<leftarrow> (if recv \<noteq> [] then st_send_message_to_app env (sc_session_id sc) out recv else Some out);
         let (receiver, out) = send_rtx env (sc_source sc) (sc_session_id sc) (sc_max_retries sc) (sc_timeout sc)
               producer_name producer_conn tok receiver out rtx;
         Some (hm_insert agent_eq producer_name receiver receiver_state, out)
       }
   }"

definition handle_rtx_timeout ::
    "session_env \<Rightarrow> receiver_state \<Rightarrow> agent \<Rightarrow> u32 \<Rightarrow> session_out \<Rightarrow> nat \<Rightarrow> receiver_state \<times> session_out" where
  "handle_rtx_timeout env receiver_state producer_name msg_id out token =
     (case hm_get agent_eq producer_name receiver_state of
        None \<Rightarrow> (receiver_state, out)
      | Some receiver \<Rightarrow>
          (case hm_get (=) msg_id (rc_rtx_map receiver) of
             Some rtx \<Rightarrow> (receiver_state, snd (send_slim env rtx out))
           | None \<Rightarrow>
               (case hm_get (=) msg_id (rc_timers_map receiver) of
                  None \<Rightarrow> (receiver_state, out)
                | Some timer \<Rightarrow>
                    (hm_insert agent_eq producer_name
                       (receiver\<lparr>rc_timers_map := hm_insert (=) msg_id (snd (timer_stop token timer)) (rc_timers_map receiver)\<rparr>)
                       receiver_state, out))))"

definition handle_rtx_failure ::
    "session_env \<Rightarrow> receiver_state \<Rightarrow> agent \<Rightarrow> u32 \<Rightarrow> u32 \<Rightarrow> session_out \<Rightarrow> (receiver_state \<times> session_out) option" where
  "handle_rtx_failure env receiver_state producer_name msg_id session_id out =
     (case hm_get agent_eq producer_name receiver_state of
        None \<Rightarrow> Some (receiver_state, out)
      | Some receiver \<Rightarrow>
          (case on_lost_message (rc_buffer receiver) msg_id of
             (recv, b) \<Rightarrow> do {
               let receiver = receiver\<lparr>rc_buffer := b, rc_rtx_map := hm_remove (=) msg_id (rc_rtx_map receiver),
                     rc_timers_map := hm_remove (=) msg_id (rc_timers_map receiver)\<rparr>;
               out \<leftarrow> st_send_message_to_app env session_id out recv;
               Some (hm_insert agent_eq producer_name receiver receiver_state, out)
             }))"

section \<open>The session task\<close>

datatype st_event =
  St_Msg message message_direction
| Rtx_Timer u32 bool agent
| Prod_Timer

definition endpoint_new :: "session_direction \<Rightarrow> nat \<Rightarrow> endpoint" where
  "endpoint_new session_direction token = (case session_direction of
      Sender \<Rightarrow> Producer_Endpoint (producer_state_new (from_millis 1000) token)
    | Receiver \<Rightarrow> Receiver_Endpoint []
    | Bidirectional \<Rightarrow> Bidirectional_Endpoint [] (producer_state_new (from_millis 500) token))"

definition on_stream_message ::
    "(u8 list \<Rightarrow> u64) \<Rightarrow> session_env \<Rightarrow> stream_conf \<Rightarrow> endpoint \<Rightarrow> session_out \<Rightarrow> message \<Rightarrow> message_direction \<Rightarrow> (nat \<Rightarrow> nat) \<Rightarrow>
     (endpoint \<times> session_out) option" where
  "on_stream_message xx env sc ep out msg direction tok = (case ep of
      Producer_Endpoint producer \<Rightarrow>
        (case direction of
           North \<Rightarrow> do {
             header_type \<leftarrow> msg_get_header_type msg;
             if header_type = RtxRequest
             then map_option (\<lambda>out. (ep, out))
               (process_incoming_rtx_request env msg (sc_session_id sc) producer (sc_source sc) out)
             else Some (ep, out)
           }
         | South \<Rightarrow>
             map_option (\<lambda>(producer, out). (Producer_Endpoint producer, out))
               (process_message_from_app xx env msg (sc_session_id sc) producer False out (tok 0)))
    | Receiver_Endpoint receiver \<Rightarrow>
        map_option (\<lambda>(receiver, out). (Receiver_Endpoint receiver, out))
          (process_message_from_slim env sc msg receiver out tok)
    | Bidirectional_Endpoint receiver producer \<Rightarrow>
        (case direction of
           North \<Rightarrow> do {
             header_type \<leftarrow> msg_get_header_type msg;
             if header_type = RtxRequest
             then map_option (\<lambda>out. (ep, out))
               (process_incoming_rtx_request env msg (sc_session_id sc) producer (sc_source sc) out)
             else map_option (\<lambda>(receiver, out). (Bidirectional_Endpoint receiver producer, out))
               (process_message_from_slim env sc msg receiver out tok)
           }
         | South \<Rightarrow>
             map_option (\<lambda>(producer, out). (Bidirectional_Endpoint receiver producer, out))
               (process_message_from_app xx env msg (sc_session_id sc) producer True out (tok 0))))"

definition on_rtx_timer ::
    "session_env \<Rightarrow> stream_conf \<Rightarrow> receiver_state \<Rightarrow> session_out \<Rightarrow> u32 \<Rightarrow> bool \<Rightarrow> agent \<Rightarrow> nat \<Rightarrow>
     (receiver_state \<times> session_out) option" where
  "on_rtx_timer env sc receiver out msg_id retry producer_name token =
     (if retry then Some (handle_rtx_timeout env receiver producer_name msg_id out token)
      else handle_rtx_failure env receiver producer_name msg_id (sc_session_id sc) out)"

definition on_producer_timer ::
    "session_env \<Rightarrow> stream_conf \<Rightarrow> producer_state \<Rightarrow> session_header_type \<Rightarrow> session_out \<Rightarrow> session_out" where
  "on_producer_timer env sc producer beacon_type out =
     send_beacon_msg env (sc_source sc) (pb_destination_name (ps_buffer producer)) beacon_type
       (ps_next_id producer - 1) (sc_session_id sc) out"

definition stream_turn ::
    "(u8 list \<Rightarrow> u64) \<Rightarrow> session_env \<Rightarrow> stream_conf \<Rightarrow> endpoint \<Rightarrow> session_out \<Rightarrow> st_event \<Rightarrow> (nat \<Rightarrow> nat) \<Rightarrow>
     (endpoint \<times> session_out) option" where
  "stream_turn xx env sc ep out ev tok = (case ev of
      St_Msg msg direction \<Rightarrow> on_stream_message xx env sc ep out msg direction tok
    | Rtx_Timer msg_id retry producer_name \<Rightarrow>
        (case ep of
           Receiver_Endpoint receiver \<Rightarrow>
             map_option (\<lambda>(receiver, out). (Receiver_Endpoint receiver, out))
               (on_rtx_timer env sc receiver out msg_id retry producer_name (tok 0))
         | Producer_Endpoint _ \<Rightarrow> Some (ep, out)
         | Bidirectional_Endpoint receiver producer \<Rightarrow>
             map_option (\<lambda>(receiver, out). (Bidirectional_Endpoint receiver producer, out))
               (on_rtx_timer env sc receiver out msg_id retry producer_name (tok 0)))
    | Prod_Timer \<Rightarrow>
        (case ep of
           Producer_Endpoint producer \<Rightarrow> Some (ep, on_producer_timer env sc producer BeaconStream out)
         | Bidirectional_Endpoint receiver producer \<Rightarrow> Some (ep, on_producer_timer env sc producer BeaconPubSub out)
         | Receiver_Endpoint _ \<Rightarrow> Some (ep, out)))"

fun stream_run ::
    "(u8 list \<Rightarrow> u64) \<Rightarrow> session_env \<Rightarrow> stream_conf \<Rightarrow> endpoint \<Rightarrow> session_out \<Rightarrow> (st_event \<times> (nat \<Rightarrow> nat)) list \<Rightarrow>
     (endpoint \<times> session_out) option" where
  "stream_run xx env sc ep out [] = Some (ep, out)"
| "stream_run xx env sc ep out ((ev, tok) # rest) = do {
     (ep, out) \<leftarrow> stream_turn xx env sc ep out ev tok;
     stream_run xx env sc ep out rest
   }"

text \<open>
  The session as the layer above holds it. The retries and the timeout are those of the
  configuration at creation; a panic of the task closes the channel.
\<close>

record streaming =
  sg_common :: common
  sg_open :: bool
  sg_tx :: "(message \<times> message_direction) list"
  sg_conf :: stream_conf
  sg_endpoint :: endpoint

definition streaming_new ::
    "u32 \<Rightarrow> streaming_configuration \<Rightarrow> session_direction \<Rightarrow> agent \<Rightarrow> string option \<Rightarrow> nat \<Rightarrow> streaming" where
  "streaming_new i session_config session_direction agent identity token =
     (let common = common_new i session_direction (Streaming_Config session_config) agent identity
      in \<lparr>sg_common = common, sg_open = True, sg_tx = [],
          sg_conf = \<lparr>sc_session_id = i, sc_source = cm_source common, sc_max_retries = st_max_retries session_config,
            sc_timeout = st_timeout session_config\<rparr>,
          sg_endpoint = endpoint_new session_direction token\<rparr>)"

definition sg_on_message :: "streaming \<Rightarrow> session_message \<Rightarrow> message_direction \<Rightarrow> (session_error + unit) \<times> streaming" where
  "sg_on_message sg message direction =
     (if sg_open sg then (Inr (), sg\<lparr>sg_tx := sg_tx sg @ [(sm_message message, direction)]\<rparr>)
      else (Inl (Processing ''channel closed''), sg))"

definition sg_turn ::
    "(u8 list \<Rightarrow> u64) \<Rightarrow> session_env \<Rightarrow> streaming \<Rightarrow> session_out \<Rightarrow> (nat \<Rightarrow> nat) \<Rightarrow> streaming \<times> session_out" where
  "sg_turn xx env sg out tok =
     (case sg_tx sg of
        [] \<Rightarrow> (sg, out)
      | (msg, direction) # rest \<Rightarrow>
          (case on_stream_message xx env (sg_conf sg) (sg_endpoint sg) out msg direction tok of
             Some (ep, out) \<Rightarrow> (sg\<lparr>sg_tx := rest, sg_endpoint := ep\<rparr>, out)
           | None \<Rightarrow> (sg\<lparr>sg_open := False, sg_tx := []\<rparr>, out)))"

section \<open>Receivers\<close>

text \<open>The requests of a receiver that are kept with their timer.\<close>

definition rc_pending :: "receiver \<Rightarrow> u32 set" where
  "rc_pending r = {i. hm_get (=) i (rc_rtx_map r) \<noteq> None \<and> hm_get (=) i (rc_timers_map r) \<noteq> None}"

definition is_rtx_request :: "u32 \<Rightarrow> message \<Rightarrow> bool" where
  "is_rtx_request i m \<longleftrightarrow> msg_get_header_type m = Some RtxRequest \<and> msg_get_id m = Some i"

text \<open>
  The invariant of a receiver: the buffer is in order and its messages can be handed over, every
  gap is covered by a pending request or known to be lost, and what is pending asks for its own
  identifier.
\<close>

definition rc_requests :: "receiver \<Rightarrow> bool" where
  "rc_requests r \<longleftrightarrow> (\<forall>i m. hm_get (=) i (rc_rtx_map r) = Some m \<longrightarrow> is_rtx_request i m) \<and>
     (\<forall>i t. hm_get (=) i (rc_timers_map r) = Some t \<longrightarrow> tm_timer_id t = i)"

definition rc_ok :: "receiver \<Rightarrow> bool" where
  "rc_ok r \<longleftrightarrow> rb_inv (rc_buffer r) \<and> (\<forall>m\<in>rb_msgs (rc_buffer r). info_from_message m \<noteq> None) \<and>
     gaps_covered (rc_buffer r) (rc_pending r) \<and> rc_requests r"

definition rs_ok :: "receiver_state \<Rightarrow> bool" where
  "rs_ok rs \<longleftrightarrow> (\<forall>p r. hm_get agent_eq p rs = Some r \<longrightarrow> rc_ok r)"

lemma rc_ok_new: "rc_ok (receiver_new p)"
  using covered_default by (simp add: rc_ok_def rc_requests_def receiver_new_def)

lemma gaps_covered_mono: "gaps_covered rb P \<Longrightarrow> P \<subseteq> P' \<Longrightarrow> gaps_covered rb P'"
  by (auto simp: gaps_covered_def)

lemma new_publish_id [simp]:
  "msg_get_id (new_publish_with_headers g (Some (session_header_new t s i)) c b) = Some i"
  by (simp add: new_publish_with_headers_def publish_with_header_def message_new_def session_header_new_def
      msg_get_id_def get_session_header_def)

lemma send_rtx_spec:
  assumes "send_rtx env source sid mr tmo p c tok r out rtx = (r', out')"
  shows "rc_buffer r' = rc_buffer r" "rc_pending r' = rc_pending r \<union> set rtx"
    "so_app out' = so_app out"
    "rc_requests r \<Longrightarrow> rc_requests r'"
proof -
  have "rc_buffer r' = rc_buffer r \<and> rc_pending r' = rc_pending r \<union> set rtx \<and> so_app out' = so_app out \<and>
      (rc_requests r \<longrightarrow> rc_requests r')"
    using assms
  proof (induction env source sid mr tmo p c tok r out rtx rule: send_rtx.induct)
    case (2 env source sid mr tmo p c tok r out x rest)
    let ?rtx = "new_publish_with_headers (Some (slim_header_new source (ag_type p) (Some (ag_id p)) (Some (with_forward_to flags_default c))))
        (Some (session_header_new (i32_of_header_type RtxRequest) sid x)) '''' []"
      and ?t = "timer_new x Constant tmo None (Some mr) (tok (length rest))"
    let ?r = "r\<lparr>rc_rtx_map := hm_insert (=) x ?rtx (rc_rtx_map r), rc_timers_map := hm_insert (=) x ?t (rc_timers_map r)\<rparr>"
    have "is_rtx_request x ?rtx" by (simp add: is_rtx_request_def)
    then have "rc_requests r \<Longrightarrow> rc_requests ?r" by (simp add: rc_requests_def timer_new_def)
    moreover have "rc_pending ?r = insert x (rc_pending r)" by (auto simp: rc_pending_def)
    moreover have "so_app (snd (send_slim env ?rtx out)) = so_app out" by (simp add: send_slim_def)
    ultimately show ?case using 2(1) [OF refl refl refl refl refl] 2(2) by (simp add: Let_def)
  qed simp
  then show "rc_buffer r' = rc_buffer r" "rc_pending r' = rc_pending r \<union> set rtx" "so_app out' = so_app out"
    "rc_requests r \<Longrightarrow> rc_requests r'" by blast+
qed

text \<open>The operation on the buffer that a message stands for.\<close>

definition receiver_op :: "message \<Rightarrow> rb_op option" where
  "receiver_op msg = (case (msg_get_header_type msg, msg_get_id msg) of
      (Some t, Some i) \<Rightarrow>
        (if t = StreamMsg \<or> t = PubSub then Some (Rb_Msg msg)
         else if t = RtxReply then Some (if msg_get_error msg = Some (Some True) then Rb_Lost i else Rb_Msg msg)
         else if t = BeaconStream \<or> t = BeaconPubSub then Some (Rb_Beacon i)
         else None)
    | _ \<Rightarrow> None)"

definition answered :: "message \<Rightarrow> receiver \<Rightarrow> receiver" where
  "answered msg r = (case (msg_get_header_type msg, msg_get_id msg) of
      (Some RtxReply, Some i) \<Rightarrow> r\<lparr>rc_rtx_map := hm_remove (=) i (rc_rtx_map r), rc_timers_map := hm_remove (=) i (rc_timers_map r)\<rparr>
    | _ \<Rightarrow> r)"

lemma readable_message:
  assumes "info_from_message m \<noteq> None"
  obtains t i e p where "msg_get_header_type m = Some t" "msg_get_id m = Some i" "msg_get_error m = Some e" "msg_get_source m = Some p"
  using assms by (auto simp: info_from_message_def bind_eq_Some_conv msg_get_header_type_def msg_get_id_def msg_get_error_def)

lemma receiver_step_op:
  assumes "info_from_message m \<noteq> None"
  shows "receiver_step m r = (case receiver_op m of None \<Rightarrow> Some None
    | Some op \<Rightarrow> map_option (\<lambda>(res, b). Some (res, (answered m r)\<lparr>rc_buffer := b\<rparr>)) (rb_exec (rc_buffer r) op))"
proof -
  obtain t i e where m: "msg_get_header_type m = Some t" "msg_get_id m = Some i" "msg_get_error m = Some e"
    using readable_message [OF assms] by blast
  show ?thesis
    using m by (cases t; cases "on_received_message (rc_buffer r) m"; cases "on_beacon_message (rc_buffer r) i")
      (auto simp: receiver_step_def receiver_op_def answered_def case_prod_beta Let_def)
qed

text \<open>What the application gets for an entry of the buffer.\<close>

definition app_entry :: "u32 \<Rightarrow> message option \<Rightarrow> session_error + session_message" where
  "app_entry session_id x = (case x of
      Some m \<Rightarrow> Inr \<lparr>sm_message = m, sm_info = the (info_from_message m)\<rparr>
    | None \<Rightarrow> Inl (MessageLost (show_u32 session_id)))"

definition to_app_log :: "session_env \<Rightarrow> u32 \<Rightarrow> session_out \<Rightarrow> message option list \<Rightarrow> session_out" where
  "to_app_log env session_id out ms =
     (if se_app_open env then out\<lparr>so_app := so_app out @ map (app_entry session_id) ms\<rparr> else out)"

lemma to_app_log_Nil [simp]: "to_app_log env session_id out [] = out"
  by (simp add: to_app_log_def)

lemma send_message_to_app_spec:
  assumes "\<And>m. Some m \<in> set ms \<Longrightarrow> info_from_message m \<noteq> None"
  shows "st_send_message_to_app env session_id out ms = Some (to_app_log env session_id out ms)"
  using assms
proof (induction env session_id out ms rule: st_send_message_to_app.induct)
  case (2 env session_id out m rest)
  then obtain i where "info_from_message m = Some i" by fastforce
  then show ?case using 2 by (simp add: to_app_log_def send_app_def app_entry_def)
next
  case (3 env session_id out rest)
  then show ?case by (simp add: to_app_log_def send_app_def app_entry_def)
qed (simp add: to_app_log_def)

text \<open>The receiver a message goes to, created on its first message.\<close>

definition receiver_of :: "agent \<Rightarrow> receiver_state \<Rightarrow> receiver" where
  "receiver_of p rs = (case hm_get agent_eq p rs of Some r \<Rightarrow> r | None \<Rightarrow> receiver_new p)"

lemma rc_ok_receiver_of: "rs_ok rs \<Longrightarrow> rc_ok (receiver_of p rs)"
  using rc_ok_new by (auto simp: rs_ok_def receiver_of_def split: option.split)

lemma rs_ok_insert: "rs_ok rs \<Longrightarrow> rc_ok r \<Longrightarrow> rs_ok (hm_insert agent_eq p r rs)"
  by (auto simp: rs_ok_def)

definition readable :: "message \<Rightarrow> bool" where
  "readable m \<longleftrightarrow> info_from_message m \<noteq> None \<and> msg_get_incoming_conn m \<noteq> None"

text \<open>How a step changes the receivers: only the one of producer \<open>p\<close>, by an operation on its buffer.\<close>

definition rs_step :: "agent \<Rightarrow> rb_op \<Rightarrow> receiver_state \<Rightarrow> message option list \<Rightarrow> receiver_state \<Rightarrow> bool" where
  "rs_step p op rs recv rs' \<longleftrightarrow> (\<exists>r' rtx. rs' = hm_insert agent_eq p r' rs \<and>
     rb_exec (rc_buffer (receiver_of p rs)) op = Some ((recv, rtx), rc_buffer r'))"

lemma covered_answer:
  assumes ok: "rc_ok r" and op: "op_ok op" "\<forall>m\<in>op_received op. info_from_message m \<noteq> None"
    and r1: "rc_buffer r1 = rc_buffer r" "rc_requests r1" "rc_pending r - op_settles op \<subseteq> rc_pending r1"
    and e: "rb_exec (rc_buffer r) op = Some ((recv, rtx), b)"
  shows "rb_inv b" "\<forall>m\<in>rb_msgs b. info_from_message m \<noteq> None" "gaps_covered b (rc_pending r1 \<union> set rtx)"
    "\<And>m. Some m \<in> set recv \<Longrightarrow> info_from_message m \<noteq> None"
proof -
  have inv: "rb_inv (rc_buffer r)" "gaps_covered (rc_buffer r) (rc_pending r)" "\<forall>m\<in>rb_msgs (rc_buffer r). info_from_message m \<noteq> None"
    using ok by (simp_all add: rc_ok_def)
  note c = covered_op [OF inv(1,2) op(1), unfolded exec_covered_def e]
  then have c': "rb_inv b" "gaps_covered b (rc_pending r - op_settles op \<union> set rtx)"
      "rb_msgs b \<union> {m. Some m \<in> set recv} \<subseteq> rb_msgs (rc_buffer r) \<union> op_received op" by auto
  show "rb_inv b" by (rule c'(1))
  show "gaps_covered b (rc_pending r1 \<union> set rtx)" by (rule gaps_covered_mono [OF c'(2)]) (use r1(3) in blast)
  have *: "info_from_message m \<noteq> None" if "m \<in> rb_msgs b \<union> {m. Some m \<in> set recv}" for m
    using c'(3) that inv(3) op(2) by blast
  show "\<forall>m\<in>rb_msgs b. info_from_message m \<noteq> None" "\<And>m. Some m \<in> set recv \<Longrightarrow> info_from_message m \<noteq> None"
    using * by auto
qed

lemma receiver_op_props:
  assumes "receiver_op m = Some op" and "info_from_message m \<noteq> None"
  shows "op_ok op" "\<forall>x\<in>op_received op. info_from_message x \<noteq> None" "\<forall>x\<in>op_received op. x = m"
  using assms by (auto simp: receiver_op_def op_ok_def split: option.splits if_splits)

lemma answered_props:
  assumes "receiver_op m = Some op" and "rc_requests r"
  shows "rc_buffer (answered m r) = rc_buffer r" "rc_requests (answered m r)"
    "rc_pending r - op_settles op \<subseteq> rc_pending (answered m r)"
proof -
  have "answered m r = r \<or> (\<exists>i. op_settles op = {i} \<and> answered m r = r\<lparr>rc_rtx_map := hm_remove (=) i (rc_rtx_map r),
      rc_timers_map := hm_remove (=) i (rc_timers_map r)\<rparr>)"
    using assms(1) by (auto simp: receiver_op_def answered_def split: option.splits if_splits session_header_type.splits)
  then show "rc_buffer (answered m r) = rc_buffer r" "rc_requests (answered m r)"
      "rc_pending r - op_settles op \<subseteq> rc_pending (answered m r)"
    using assms(2) by (auto simp: rc_requests_def rc_pending_def split: if_splits)
qed

lemma from_slim_spec:
  assumes ok: "rs_ok rs" and m: "readable m" and p: "msg_get_source m = Some p"
  shows "\<exists>rs' out' recv. process_message_from_slim env sc m rs out tok = Some (rs', out') \<and> rs_ok rs' \<and>
    so_app out' = so_app (to_app_log env (sc_session_id sc) out recv) \<and>
    (case receiver_op m of
       None \<Rightarrow> recv = [] \<and> rs' = hm_insert agent_eq p (receiver_of p rs) rs
     | Some op \<Rightarrow> rs_step p op rs recv rs')"
proof -
  obtain c where c: "msg_get_incoming_conn m = Some c" and inf: "info_from_message m \<noteq> None" using m by (auto simp: readable_def)
  let ?r = "receiver_of p rs" and ?rs = "hm_insert agent_eq p (receiver_of p rs) rs"
  have rs: "(case hm_get agent_eq p rs of Some _ \<Rightarrow> rs | None \<Rightarrow> hm_insert agent_eq p (receiver_new p) rs) = ?rs"
    by (cases "hm_get agent_eq p rs") (simp_all add: receiver_of_def hm_insert_same)
  have get: "hm_get agent_eq p ?rs = Some ?r" by simp
  have okr: "rc_ok ?r" by (rule rc_ok_receiver_of [OF ok])
  show ?thesis
  proof (cases "receiver_op m")
    case None
    then have "process_message_from_slim env sc m rs out tok = Some (?rs, out)"
      using p c rs get receiver_step_op [OF inf] by (simp add: process_message_from_slim_def Let_def)
    then show ?thesis using None rs_ok_insert [OF ok okr] by (auto simp: to_app_log_def)
  next
    case (Some op)
    note opp = receiver_op_props [OF Some inf]
    have req: "rc_requests ?r" using okr by (simp add: rc_ok_def)
    note ans = answered_props [OF Some req]
    obtain recv rtx b where e: "rb_exec (rc_buffer ?r) op = Some ((recv, rtx), b)"
      using covered_op [OF _ _ opp(1)] okr unfolding exec_covered_def rc_ok_def by blast
    note cov = covered_answer [OF okr opp(1,2) ans e]
    let ?r1 = "(answered m ?r)\<lparr>rc_buffer := b\<rparr>" and ?out = "to_app_log env (sc_session_id sc) out recv"
    obtain r' out' where s: "send_rtx env (sc_source sc) (sc_session_id sc) (sc_max_retries sc) (sc_timeout sc) p c tok ?r1 ?out rtx = (r', out')"
      by fastforce
    note s' = send_rtx_spec [OF s]
    have "receiver_step m ?r = Some (Some ((recv, rtx), ?r1))" using receiver_step_op [OF inf] Some e by simp
    moreover have "(if recv \<noteq> [] then st_send_message_to_app env (sc_session_id sc) out recv else Some out) = Some ?out"
      using send_message_to_app_spec [OF cov(4)] by simp
    ultimately have "process_message_from_slim env sc m rs out tok = Some (hm_insert agent_eq p r' rs, out')"
      using p c rs get s by (simp add: process_message_from_slim_def Let_def)
    moreover have "rc_pending ?r1 = rc_pending (answered m ?r)" "rc_requests ?r1"
      using ans(2) by (simp_all add: rc_pending_def rc_requests_def)
    then have "rc_ok r'" unfolding rc_ok_def using s' cov by simp
    ultimately show ?thesis using Some s'(1,3) e rs_ok_insert [OF ok]
      by (intro exI [of _ "hm_insert agent_eq p r' rs"] exI [of _ out'] exI [of _ recv]) (auto simp: rs_step_def)
  qed
qed

lemma rtx_timeout_spec:
  assumes "rs_ok rs"
  shows "rs_ok (fst (handle_rtx_timeout env rs p i out token))"
    and "so_app (snd (handle_rtx_timeout env rs p i out token)) = so_app out"
    and "map_option rc_buffer (hm_get agent_eq q (fst (handle_rtx_timeout env rs p i out token))) =
      map_option rc_buffer (hm_get agent_eq q rs)"
proof -
  have "fst (handle_rtx_timeout env rs p i out token) = rs \<or>
    (\<exists>r t. hm_get agent_eq p rs = Some r \<and> hm_get (=) i (rc_timers_map r) = Some t \<and>
      fst (handle_rtx_timeout env rs p i out token) = hm_insert agent_eq p
         (r\<lparr>rc_timers_map := hm_insert (=) i (snd (timer_stop token t)) (rc_timers_map r)\<rparr>) rs)"
    by (auto simp: handle_rtx_timeout_def split: option.split)
  then consider "fst (handle_rtx_timeout env rs p i out token) = rs"
    | r t where "hm_get agent_eq p rs = Some r" "hm_get (=) i (rc_timers_map r) = Some t"
      "fst (handle_rtx_timeout env rs p i out token) = hm_insert agent_eq p
         (r\<lparr>rc_timers_map := hm_insert (=) i (snd (timer_stop token t)) (rc_timers_map r)\<rparr>) rs"
    by blast
  note cs = this
  show "so_app (snd (handle_rtx_timeout env rs p i out token)) = so_app out"
    by (auto simp: handle_rtx_timeout_def send_slim_def split: option.splits)
  show "rs_ok (fst (handle_rtx_timeout env rs p i out token))"
    using cs
  proof cases
    case 1
    then show ?thesis using assms by simp
  next
    case (2 r t)
    let ?r = "r\<lparr>rc_timers_map := hm_insert (=) i (snd (timer_stop token t)) (rc_timers_map r)\<rparr>"
    have "rc_ok r" using assms 2(1) by (auto simp: rs_ok_def)
    moreover have "rc_pending ?r = rc_pending r" using 2(2) by (auto simp: rc_pending_def)
    ultimately have "rc_ok ?r" using 2(2) by (auto simp: rc_ok_def rc_requests_def timer_stop_def)
    then show ?thesis using rs_ok_insert [OF assms] 2(3) by simp
  qed
  show "map_option rc_buffer (hm_get agent_eq q (fst (handle_rtx_timeout env rs p i out token))) =
      map_option rc_buffer (hm_get agent_eq q rs)"
    using cs
  proof cases
    case (2 r t)
    then show ?thesis using ag_eq.hm_get_cong [of p q rs] by (cases "agent_eq p q") auto
  qed simp
qed

lemma rtx_failure_spec:
  assumes ok: "rs_ok rs"
  shows "\<exists>rs' out' recv. handle_rtx_failure env rs p i sid out = Some (rs', out') \<and> rs_ok rs' \<and>
    so_app out' = so_app (to_app_log env sid out recv) \<and>
    (case hm_get agent_eq p rs of None \<Rightarrow> recv = [] \<and> rs' = rs | Some _ \<Rightarrow> rs_step p (Rb_Lost i) rs recv rs')"
proof (cases "hm_get agent_eq p rs")
  case None
  then show ?thesis using ok by (auto simp: handle_rtx_failure_def to_app_log_def)
next
  case (Some r)
  have okr: "rc_ok r" using ok Some by (auto simp: rs_ok_def)
  obtain recv b where l: "on_lost_message (rc_buffer r) i = (recv, b)" by fastforce
  then have e: "rb_exec (rc_buffer r) (Rb_Lost i) = Some ((recv, []), b)" by simp
  let ?r1 = "r\<lparr>rc_rtx_map := hm_remove (=) i (rc_rtx_map r), rc_timers_map := hm_remove (=) i (rc_timers_map r)\<rparr>"
  have r1: "rc_buffer ?r1 = rc_buffer r" "rc_requests ?r1" "rc_pending r - op_settles (Rb_Lost i) \<subseteq> rc_pending ?r1"
    using okr by (auto simp: rc_ok_def rc_requests_def rc_pending_def split: if_splits)
  have "op_ok (Rb_Lost i)" by (simp add: op_ok_def)
  note cov = covered_answer [OF okr this _ r1 e]
  let ?r2 = "r\<lparr>rc_buffer := b, rc_rtx_map := hm_remove (=) i (rc_rtx_map r), rc_timers_map := hm_remove (=) i (rc_timers_map r)\<rparr>"
  have "rc_pending ?r2 = rc_pending ?r1" "rc_requests ?r2" using r1(2) by (simp_all add: rc_pending_def rc_requests_def)
  then have "rc_ok ?r2" unfolding rc_ok_def using cov by simp
  moreover have "handle_rtx_failure env rs p i sid out = Some (hm_insert agent_eq p ?r2 rs, to_app_log env sid out recv)"
    using Some l send_message_to_app_spec [OF cov(4)] by (simp add: handle_rtx_failure_def Let_def)
  ultimately show ?thesis using Some e rs_ok_insert [OF ok]
    by (intro exI [of _ "hm_insert agent_eq p ?r2 rs"] exI [of _ "to_app_log env sid out recv"] exI [of _ recv])
      (auto simp: rs_step_def receiver_of_def)
qed

section \<open>Producers\<close>

definition ps_ok :: "producer_state \<Rightarrow> bool" where
  "ps_ok ps \<longleftrightarrow> pb_inv (ps_buffer ps) \<and> pb_capacity (ps_buffer ps) = 500 \<and>
     (\<forall>m\<in>set (pb_contents (ps_buffer ps)). msg_get_payload m \<noteq> None)"

text \<open>The message \<open>m\<close> of the application as number \<open>i\<close> of a stream of type \<open>t\<close>.\<close>

definition numbered :: "session_header_type \<Rightarrow> u32 \<Rightarrow> message \<Rightarrow> message \<Rightarrow> bool" where
  "numbered t i m m' \<longleftrightarrow> msg_get_header_type m' = Some t \<and> msg_get_id m' = Some i \<and>
     msg_get_fanout m' = Some STREAM_BROADCAST \<and> msg_get_payload m' = msg_get_payload m \<and> msg_metadata m' = msg_metadata m"

lemma publication_name: "publication m \<Longrightarrow> msg_get_name xx m \<noteq> None"
  by (auto simp: publication_def msg_get_name_def slim_header_get_dst_def split: option.splits message_type.splits)

lemma publication_payload: "publication m \<Longrightarrow> msg_get_payload m \<noteq> None"
  by (auto simp: publication_def msg_get_payload_def get_session_header_def split: option.splits message_type.splits)

lemma number_message:
  assumes "publication m"
  shows "\<exists>m1 m2 m3. msg_set_header_type t m = Some m1 \<and> msg_set_message_id i m1 = Some m2 \<and>
    msg_set_fanout STREAM_BROADCAST m2 = Some m3 \<and> numbered t i m m3 \<and> publication m3"
proof -
  obtain h g d where hg: "get_session_header m = Some h" "get_slim_header m = Some g" "sh_destination g = Some d"
    using publicationD [OF assms] .
  obtain m1 m2 where w: "get_session_header_mut (session_header_set_header_type t) m = Some m1"
      "get_session_header_mut (session_header_set_message_id i) m1 = Some m2"
      "get_session_header m2 = Some (session_header_set_message_id i (session_header_set_header_type t h))"
    using session_writes [OF hg(1)] by blast
  note fr = get_session_header_mut_frame [OF w(1)] get_session_header_mut_frame [OF w(2)]
  obtain m3 where v: "get_slim_header_mut (slim_header_set_fanout STREAM_BROADCAST) m2 = Some m3"
      "get_slim_header m3 = Some (slim_header_set_fanout STREAM_BROADCAST g)"
    using slim_ref.wr_defined [of m2 g] fr hg(2) by auto
  note fr' = get_slim_header_mut_frame [OF v(1)]
  have "numbered t i m m3" using fr fr' w(3) v(2)
    by (simp add: numbered_def msg_get_header_type_def msg_get_id_def msg_get_fanout_def session_header_set_message_id_def
        session_header_set_header_type_def slim_header_set_fanout_def)
  moreover have "publication m3" using fr' w(3) v(2) hg(3) by (simp add: publication_def slim_header_set_fanout_def)
  ultimately show ?thesis using w(1,2) v(1) by (simp add: msg_set_header_type_def msg_set_message_id_def msg_set_fanout_def)
qed

lemma from_app_spec:
  assumes ok: "ps_ok ps" and m: "publication m" and env: "se_app_open env"
  shows "\<exists>ps' out' m'. process_message_from_app xx env m sid ps bi out token = Some (ps', out') \<and> ps_ok ps' \<and>
    ps_next_id ps' = ps_next_id ps + 1 \<and> numbered (if bi then PubSub else StreamMsg) (ps_next_id ps) m m' \<and>
    pb_contents (ps_buffer ps') = window_push 500 (pb_contents (ps_buffer ps)) m' \<and>
    (se_slim_open env \<longrightarrow> out' = out\<lparr>so_slim := so_slim out @ [m']\<rparr>)"
proof -
  obtain m1 m2 m3 where n: "msg_set_header_type (if bi then PubSub else StreamMsg) m = Some m1"
      "msg_set_message_id (ps_next_id ps) m1 = Some m2" "msg_set_fanout STREAM_BROADCAST m2 = Some m3"
      "numbered (if bi then PubSub else StreamMsg) (ps_next_id ps) m m3" "publication m3"
    using number_message [OF m] by blast
  have i3: "msg_get_id m3 = Some (ps_next_id ps)" using n(4) by (simp add: numbered_def)
  have inv: "pb_inv (ps_buffer ps)" "pb_capacity (ps_buffer ps) = 500" using ok by (simp_all add: ps_ok_def)
  obtain b where b: "pb_push xx (ps_buffer ps) m3 = Some (True, b)" "pb_inv b" "pb_capacity b = 500"
      "pb_contents b = window_push 500 (pb_contents (ps_buffer ps)) m3"
    using pb_push_spec [OF inv(1) i3 publication_name [OF n(5)]] inv(2) by auto
  let ?ps = "ps\<lparr>ps_buffer := b, ps_next_id := ps_next_id ps + 1, ps_timer := snd (timer_reset token (ps_timer ps))\<rparr>"
  have "set (pb_contents b) \<subseteq> insert m3 (set (pb_contents (ps_buffer ps)))"
    unfolding b(4) window_push_def using list.set_sel(2) [of "pb_contents (ps_buffer ps)"]
    by (cases "pb_contents (ps_buffer ps)") auto
  then have "ps_ok ?ps" using ok b(2,3) publication_payload [OF n(5)] by (auto simp: ps_ok_def)
  moreover obtain out' where "process_message_from_app xx env m sid ps bi out token = Some (?ps, out')"
      "se_slim_open env \<longrightarrow> out' = out\<lparr>so_slim := so_slim out @ [m3]\<rparr>"
    using n(1-3) b(1) env by (cases "se_slim_open env")
      (simp_all add: process_message_from_app_def send_slim_def send_app_def Let_def)
  ultimately show ?thesis using n(4) b(4) by (intro exI [of _ ?ps] exI [of _ out'] exI [of _ m3]) simp
qed

text \<open>The answer to a request for number \<open>i\<close>, from the messages kept.\<close>

definition rtx_answer :: "message list \<Rightarrow> u32 \<Rightarrow> agent \<Rightarrow> u64 \<Rightarrow> message \<Rightarrow> bool" where
  "rtx_answer kept i p c m \<longleftrightarrow> msg_get_header_type m = Some RtxReply \<and> msg_get_id m = Some i \<and>
     (\<exists>h. get_slim_header m = Some h \<and> sh_forward_to h = Some c \<and>
        sh_destination h = Some (proto_agent_from_type (ag_type p) (Some (ag_id p)))) \<and>
     (case find (\<lambda>x. msg_get_id x = Some i) kept of
        None \<Rightarrow> msg_get_error m = Some (Some True)
      | Some x \<Rightarrow> msg_get_error m = Some None \<and>
          (\<exists>b. msg_get_payload x = Some (Some b) \<and> msg_get_payload m = Some (Some \<lparr>ct_content_type = '''', ct_blob = ct_blob b\<rparr>)))"

lemma rtx_request_spec:
  assumes ok: "ps_ok ps" and m: "readable m" "msg_get_source m = Some p" "msg_get_id m = Some i" "msg_get_incoming_conn m = Some c"
  shows "\<exists>out'. process_incoming_rtx_request env m sid ps source out = Some out' \<and> so_app out' = so_app out \<and>
    (se_slim_open env \<longrightarrow> (\<forall>x\<in>set (pb_contents (ps_buffer ps)). msg_get_payload x \<noteq> Some None) \<longrightarrow>
      (\<exists>a. so_slim out' = so_slim out @ [a] \<and> rtx_answer (pb_contents (ps_buffer ps)) i p c a))"
proof -
  have get: "pb_get (ps_buffer ps) (unat i) = Some (find (\<lambda>x. msg_get_id x = Some i) (pb_contents (ps_buffer ps)))"
    using ok pb_get_spec by (simp add: ps_ok_def)
  show ?thesis
  proof (cases "find (\<lambda>x. msg_get_id x = Some i) (pb_contents (ps_buffer ps))")
    case None
    then show ?thesis using m get by (auto simp: process_incoming_rtx_request_def Let_def send_slim_def rtx_answer_def
        slim_header_new_def with_error_def with_forward_to_def flags_default_def msg_get_error_def)
  next
    case (Some x)
    then have x: "x \<in> set (pb_contents (ps_buffer ps))" by (auto simp: find_Some_iff)
    then obtain pl where pl: "msg_get_payload x = Some pl" using ok by (auto simp: ps_ok_def)
    show ?thesis
    proof (cases pl)
      case None
      then show ?thesis using m get Some pl x by (auto simp: process_incoming_rtx_request_def Let_def)
    next
      case (Some b)
      then show ?thesis using m get \<open>find _ _ = Some x\<close> pl by (auto simp: process_incoming_rtx_request_def Let_def send_slim_def
          rtx_answer_def slim_header_new_def with_fanout_def with_forward_to_def flags_default_def msg_get_error_def)
    qed
  qed
qed

lemma ps_ok_new: "ps_ok (producer_state_new d token)" "pb_contents (ps_buffer (producer_state_new d token)) = []"
  using pb_empty [of 500 "producer_buffer_with_capacity 500"]
  by (simp_all add: ps_ok_def producer_state_new_def producer_buffer_with_capacity_def)

section \<open>Runs of a session\<close>

definition ep_ok :: "endpoint \<Rightarrow> bool" where
  "ep_ok ep = (case ep of Producer_Endpoint ps \<Rightarrow> ps_ok ps | Receiver_Endpoint rs \<Rightarrow> rs_ok rs
    | Bidirectional_Endpoint rs ps \<Rightarrow> rs_ok rs \<and> ps_ok ps)"

definition ep_direction :: "endpoint \<Rightarrow> session_direction" where
  "ep_direction ep = (case ep of Producer_Endpoint _ \<Rightarrow> Sender | Receiver_Endpoint _ \<Rightarrow> Receiver
    | Bidirectional_Endpoint _ _ \<Rightarrow> Bidirectional)"

definition ep_receivers :: "endpoint \<Rightarrow> receiver_state" where
  "ep_receivers ep = (case ep of Producer_Endpoint _ \<Rightarrow> [] | Receiver_Endpoint rs \<Rightarrow> rs
    | Bidirectional_Endpoint rs _ \<Rightarrow> rs)"

text \<open>
  The events a session can meet: received messages are readable and carry the connection they came
  from, messages of the application are publications, and a receiver has no application that sends.
\<close>

definition st_legal :: "session_direction \<Rightarrow> st_event \<Rightarrow> bool" where
  "st_legal dir ev = (case ev of
      St_Msg m d \<Rightarrow> if d = South \<and> dir \<noteq> Receiver then publication m else readable m
    | _ \<Rightarrow> True)"

text \<open>The operation an event performs on the buffer of a producer.\<close>

definition ev_op :: "session_direction \<Rightarrow> st_event \<Rightarrow> (agent \<times> rb_op) option" where
  "ev_op dir ev = (case ev of
      St_Msg m d \<Rightarrow>
        if d = South \<and> dir \<noteq> Receiver then None
        else (case (msg_get_source m, receiver_op m) of (Some p, Some op) \<Rightarrow> Some (p, op) | _ \<Rightarrow> None)
    | Rtx_Timer i retry p \<Rightarrow> if retry then None else Some (p, Rb_Lost i)
    | Prod_Timer \<Rightarrow> None)"

definition buffer_of :: "agent \<Rightarrow> receiver_state \<Rightarrow> receiver_buffer" where
  "buffer_of p rs = rc_buffer (receiver_of p rs)"

text \<open>What the application got from producer \<open>p\<close>, in order.\<close>

definition handed_entry :: "agent \<Rightarrow> session_error + session_message \<Rightarrow> message option" where
  "handed_entry p x = (case x of
      Inl _ \<Rightarrow> None
    | Inr sm \<Rightarrow> (case msg_get_source (sm_message sm) of
        None \<Rightarrow> None | Some q \<Rightarrow> if agent_eq p q then Some (sm_message sm) else None))"

definition handed :: "agent \<Rightarrow> session_out \<Rightarrow> message list" where
  "handed p out = List.map_filter (handed_entry p) (so_app out)"

definition turn_effect ::
    "session_env \<Rightarrow> session_direction \<Rightarrow> st_event \<Rightarrow> receiver_state \<Rightarrow> session_out \<Rightarrow> receiver_state \<Rightarrow> session_out \<Rightarrow> bool" where
  "turn_effect env dir ev rs out rs' out' \<longleftrightarrow>
     (\<exists>q op recv sid. ev_op dir ev = Some (q, op) \<and> rs_step q op rs recv rs' \<and> so_app out' = so_app (to_app_log env sid out recv)) \<or>
     (\<forall>p. buffer_of p rs' = buffer_of p rs) \<and> (\<forall>p. handed p out' = handed p out) \<and>
       (\<forall>q op. ev_op dir ev = Some (q, op) \<longrightarrow> op_received op = {})"

lemma buffer_of_insert: "buffer_of p (hm_insert agent_eq q r rs) = (if agent_eq q p then rc_buffer r else buffer_of p rs)"
  by (simp add: buffer_of_def receiver_of_def)

lemma buffer_of_cong: "agent_eq q p \<Longrightarrow> buffer_of q rs = buffer_of p rs"
  using ag_eq.hm_get_cong [of q p rs] by (simp add: buffer_of_def receiver_of_def receiver_new_def split: option.split)

lemma slim_turn:
  assumes "rs_ok rs" and "readable m" and "ev_op dir ev = (case receiver_op m of None \<Rightarrow> None | Some op \<Rightarrow> Some (the (msg_get_source m), op))"
  shows "\<exists>rs' out'. process_message_from_slim env sc m rs out tok = Some (rs', out') \<and> rs_ok rs' \<and>
    turn_effect env dir ev rs out rs' out'"
proof -
  have "info_from_message m \<noteq> None" using assms(2) by (simp add: readable_def)
  then obtain p where p: "msg_get_source m = Some p" using readable_message by blast
  obtain rs' out' recv where s: "process_message_from_slim env sc m rs out tok = Some (rs', out')" "rs_ok rs'"
      "so_app out' = so_app (to_app_log env (sc_session_id sc) out recv)"
      "case receiver_op m of None \<Rightarrow> recv = [] \<and> rs' = hm_insert agent_eq p (receiver_of p rs) rs
       | Some op \<Rightarrow> rs_step p op rs recv rs'"
    using from_slim_spec [OF assms(1,2) p] by blast
  have "turn_effect env dir ev rs out rs' out'"
  proof (cases "receiver_op m")
    case None
    then have "buffer_of q rs' = buffer_of q rs" for q
      using s(4) buffer_of_cong by (auto simp: buffer_of_insert) (auto simp: buffer_of_def)
    then show ?thesis using None s(3,4) assms(3) by (simp add: turn_effect_def handed_def)
  next
    case (Some op)
    then show ?thesis using s(3,4) assms(3) p by (auto simp: turn_effect_def)
  qed
  then show ?thesis using s(1,2) by blast
qed

lemma timer_turn_rtx:
  assumes "rs_ok rs"
  shows "\<exists>rs' out'. on_rtx_timer env sc rs out i retry p token = Some (rs', out') \<and> rs_ok rs' \<and>
    turn_effect env dir (Rtx_Timer i retry p) rs out rs' out'"
proof (cases retry)
  case True
  note t = rtx_timeout_spec [OF assms, where env = env and p = p and i = i and out = out and token = token]
  let ?rs = "fst (handle_rtx_timeout env rs p i out token)"
  have "buffer_of q ?rs = buffer_of q rs" for q
    using t(3) [where q = q] by (auto simp: buffer_of_def receiver_of_def split: option.splits)
  then show ?thesis using True t(1,2) by (auto simp: on_rtx_timer_def turn_effect_def handed_def ev_op_def
      intro!: exI [of _ ?rs] exI [of _ "snd (handle_rtx_timeout env rs p i out token)"])
next
  case False
  obtain rs' out' recv where s: "handle_rtx_failure env rs p i (sc_session_id sc) out = Some (rs', out')" "rs_ok rs'"
      "so_app out' = so_app (to_app_log env (sc_session_id sc) out recv)"
      "case hm_get agent_eq p rs of None \<Rightarrow> recv = [] \<and> rs' = rs | Some _ \<Rightarrow> rs_step p (Rb_Lost i) rs recv rs'"
    using rtx_failure_spec [OF assms] by blast
  have "turn_effect env dir (Rtx_Timer i retry p) rs out rs' out'"
    using s(3,4) False by (cases "hm_get agent_eq p rs") (auto simp: turn_effect_def ev_op_def handed_def)
  then show ?thesis using s(1,2) False by (auto simp: on_rtx_timer_def)
qed

end
