(* ===== verification/Streaming_Runs.thy ===== *)
theory Streaming_Runs
  imports Streaming
begin

text \<open>
  Runs of the streaming session: no legal event makes the task panic, what waits in a receiver has
  its retransmission request pending, the application gets the messages of each producer in order
  whatever the interleaving of producers, timers and answers, and a producer numbers its messages
  and answers requests from the last five hundred of them.
\<close>

section \<open>One event\<close>

lemma effect_none:
  assumes "so_app out' = so_app out" and "\<And>q op. ev_op dir ev = Some (q, op) \<Longrightarrow> op_received op = {}"
  shows "turn_effect env dir ev rs out rs out'"
  using assms by (auto simp: turn_effect_def handed_def)

lemma effect_app_error:
  assumes "\<And>p. handed p out' = handed p out" and "ev_op dir ev = None"
  shows "turn_effect env dir ev rs out rs out'"
  using assms by (auto simp: turn_effect_def)

lemma from_app_handed:
  assumes "process_message_from_app xx env m sid ps bi out token = Some (ps', out')"
  shows "handed p out' = handed p out"
  using assms by (auto simp: process_message_from_app_def bind_eq_Some_conv send_slim_def send_app_def handed_def
      List.map_filter_def handed_entry_def split: prod.splits sum.splits if_splits)

definition turn_result ::
    "session_env \<Rightarrow> endpoint \<Rightarrow> st_event \<Rightarrow> session_out \<Rightarrow> (endpoint \<times> session_out) option \<Rightarrow> bool" where
  "turn_result env ep ev out res \<longleftrightarrow> (\<exists>ep' out'. res = Some (ep', out') \<and> ep_ok ep' \<and> ep_direction ep' = ep_direction ep \<and>
     (ep_direction ep \<noteq> Sender \<longrightarrow> turn_effect env (ep_direction ep) ev (ep_receivers ep) out (ep_receivers ep') out'))"

lemma turn_message_north:
  assumes ok: "ep_ok ep" and m: "readable m" and d: "d = North \<or> ep_direction ep = Receiver"
  shows "turn_result env ep (St_Msg m d) out (on_stream_message xx env sc ep out m d tok)"
proof -
  have "info_from_message m \<noteq> None" using m by (simp add: readable_def)
  then obtain t i p where m': "msg_get_header_type m = Some t" "msg_get_id m = Some i" "msg_get_source m = Some p"
    using readable_message by blast
  obtain c where c: "msg_get_incoming_conn m = Some c" using m by (auto simp: readable_def)
  have ev: "ev_op (ep_direction ep) (St_Msg m d) = (case receiver_op m of None \<Rightarrow> None | Some op \<Rightarrow> Some (the (msg_get_source m), op))"
    using d m'(3) by (cases "receiver_op m") (auto simp: ev_op_def)
  have rtx: "receiver_op m = None" if "t = RtxRequest" using that m' by (simp add: receiver_op_def)
  show ?thesis
  proof (cases ep)
    case (Producer_Endpoint ps)
    then have "d = North" "ps_ok ps" using d ok by (simp_all add: ep_direction_def ep_ok_def)
    then show ?thesis using Producer_Endpoint m' rtx_request_spec [OF _ m m'(3,2) c, of ps env "sc_session_id sc" "sc_source sc" out]
      by (auto simp: turn_result_def on_stream_message_def ep_ok_def ep_direction_def)
  next
    case (Receiver_Endpoint rs)
    then obtain rs' out' where "process_message_from_slim env sc m rs out tok = Some (rs', out')" "rs_ok rs'"
        "turn_effect env Receiver (St_Msg m d) rs out rs' out'"
      using slim_turn [OF _ m ev] ok by (fastforce simp: ep_ok_def ep_direction_def)
    then show ?thesis using Receiver_Endpoint
      by (simp add: turn_result_def on_stream_message_def ep_ok_def ep_direction_def ep_receivers_def)
  next
    case (Bidirectional_Endpoint rs ps)
    then have n: "d = North" "rs_ok rs" "ps_ok ps" using d ok by (simp_all add: ep_direction_def ep_ok_def)
    show ?thesis
    proof (cases "t = RtxRequest")
      case True
      obtain out' where o: "process_incoming_rtx_request env m (sc_session_id sc) ps (sc_source sc) out = Some out'" "so_app out' = so_app out"
        using rtx_request_spec [OF n(3) m m'(3,2) c] by blast
      have "turn_effect env Bidirectional (St_Msg m d) rs out rs out'"
        using ev rtx [OF True] Bidirectional_Endpoint by (intro effect_none [OF o(2)]) (simp add: ep_direction_def)
      then show ?thesis using Bidirectional_Endpoint n True m' o(1)
        by (simp add: turn_result_def on_stream_message_def ep_ok_def ep_direction_def ep_receivers_def)
    next
      case False
      obtain rs' out' where "process_message_from_slim env sc m rs out tok = Some (rs', out')" "rs_ok rs'"
          "turn_effect env Bidirectional (St_Msg m d) rs out rs' out'"
        using slim_turn [OF n(2) m ev] Bidirectional_Endpoint by (fastforce simp: ep_direction_def)
      then show ?thesis using Bidirectional_Endpoint n False m'
        by (simp add: turn_result_def on_stream_message_def ep_ok_def ep_direction_def ep_receivers_def)
    qed
  qed
qed

lemma turn_message_south:
  assumes ok: "ep_ok ep" and m: "publication m" and d: "ep_direction ep \<noteq> Receiver" and env: "se_app_open env"
  shows "turn_result env ep (St_Msg m South) out (on_stream_message xx env sc ep out m South tok)"
proof (cases ep)
  case (Producer_Endpoint ps)
  then show ?thesis using ok from_app_spec [OF _ m env, of ps xx "sc_session_id sc" False out "tok 0"]
    by (auto simp: turn_result_def on_stream_message_def ep_ok_def ep_direction_def)
next
  case (Receiver_Endpoint rs)
  then show ?thesis using d by (simp add: ep_direction_def)
next
  case (Bidirectional_Endpoint rs ps)
  then obtain ps' out' where s: "process_message_from_app xx env m (sc_session_id sc) ps True out (tok 0) = Some (ps', out')" "ps_ok ps'"
    using ok from_app_spec [OF _ m env, of ps xx "sc_session_id sc" True out "tok 0"] by (auto simp: ep_ok_def)
  have "turn_effect env Bidirectional (St_Msg m South) rs out rs out'"
    by (rule effect_app_error [OF from_app_handed [OF s(1)]]) (simp add: ev_op_def)
  then show ?thesis using Bidirectional_Endpoint s ok
    by (simp add: turn_result_def on_stream_message_def ep_ok_def ep_direction_def ep_receivers_def)
qed

lemma turn_ok:
  assumes ok: "ep_ok ep" and legal: "st_legal (ep_direction ep) ev" and env: "se_app_open env"
  shows "turn_result env ep ev out (stream_turn xx env sc ep out ev tok)"
proof (cases ev)
  case (St_Msg m d)
  then show ?thesis using legal turn_message_north [OF ok, of m d] turn_message_south [OF ok, of m]  env
    by (cases d) (auto simp: stream_turn_def st_legal_def split: if_splits)
next
  case (Rtx_Timer i retry p)
  show ?thesis
  proof (cases ep)
    case (Producer_Endpoint ps)
    then show ?thesis using ok Rtx_Timer by (simp add: turn_result_def stream_turn_def ep_direction_def)
  next
    case (Receiver_Endpoint rs)
    then obtain rs' out' where "on_rtx_timer env sc rs out i retry p (tok 0) = Some (rs', out')" "rs_ok rs'"
        "turn_effect env Receiver ev rs out rs' out'"
      using timer_turn_rtx [of rs env sc out i retry p "tok 0" Receiver] ok Rtx_Timer by (auto simp: ep_ok_def)
    then show ?thesis using Receiver_Endpoint Rtx_Timer
      by (simp add: turn_result_def stream_turn_def ep_ok_def ep_direction_def ep_receivers_def)
  next
    case (Bidirectional_Endpoint rs ps)
    then obtain rs' out' where "on_rtx_timer env sc rs out i retry p (tok 0) = Some (rs', out')" "rs_ok rs'"
        "turn_effect env Bidirectional ev rs out rs' out'"
      using timer_turn_rtx [of rs env sc out i retry p "tok 0" Bidirectional] ok Rtx_Timer by (auto simp: ep_ok_def)
    then show ?thesis using Bidirectional_Endpoint Rtx_Timer ok
      by (simp add: turn_result_def stream_turn_def ep_ok_def ep_direction_def ep_receivers_def)
  qed
next
  case Prod_Timer
  have beacon: "so_app (on_producer_timer env sc ps t out) = so_app out" for ps t
    by (simp add: on_producer_timer_def send_beacon_msg_def Let_def send_slim_def)
  then show ?thesis using ok Prod_Timer by (cases ep)
    (auto simp: turn_result_def stream_turn_def ep_direction_def ep_receivers_def ev_op_def intro!: effect_none)
qed

section \<open>Runs\<close>

lemma endpoint_new_ok: "ep_ok (endpoint_new dir token)" "ep_direction (endpoint_new dir token) = dir"
  "ep_receivers (endpoint_new dir token) = []"
  using ps_ok_new by (cases dir; simp add: endpoint_new_def ep_ok_def ep_direction_def ep_receivers_def rs_ok_def)+

text \<open>
  \<open>ops\<close> is what has been done to the buffers. For every producer, what the application got from it is
  what its buffer has passed on, in the sense of the receiver buffer's own invariant.
\<close>

definition ops_received :: "agent \<Rightarrow> (agent \<times> rb_op) set \<Rightarrow> message set" where
  "ops_received p ops = {m. \<exists>q op. (q, op) \<in> ops \<and> agent_eq p q \<and> m \<in> op_received op}"

definition ops_lost :: "agent \<Rightarrow> (agent \<times> rb_op) set \<Rightarrow> nat set" where
  "ops_lost p ops = {n. \<exists>q op. (q, op) \<in> ops \<and> agent_eq p q \<and> n \<in> op_lost op}"

definition traced :: "(agent \<times> rb_op) set \<Rightarrow> receiver_state \<Rightarrow> session_out \<Rightarrow> bool" where
  "traced ops rs out \<longleftrightarrow>
     (\<forall>q op m. (q, op) \<in> ops \<longrightarrow> m \<in> op_received op \<longrightarrow> op_ok op \<and> (\<exists>p. msg_get_source m = Some p \<and> agent_eq q p)) \<and>
     (\<forall>p. \<exists>outs Q. rb_trace (buffer_of p rs) outs (ops_received p ops) (ops_lost p ops) Q \<and>
        handed p out = List.map_filter id outs)"

definition ev_ops :: "session_direction \<Rightarrow> st_event \<Rightarrow> (agent \<times> rb_op) set" where
  "ev_ops dir ev = set_option (ev_op dir ev)"

lemma rb_trace_lost_mono:
  assumes "rb_trace rb outs R L Q" and "L \<subseteq> L'"
  shows "rb_trace rb outs R L' Q"
  using assms in_order_mono [of "rb_next rb - length outs" outs R L R L'] unfolding rb_trace_def by blast

lemma in_order_received: "in_order n outs R L \<Longrightarrow> Some m \<in> set outs \<Longrightarrow> m \<in> R"
  by (induction n outs R L rule: in_order.induct) auto

lemma in_order_suffix: "in_order n (xs @ ys) R L \<Longrightarrow> in_order (n + length xs) ys R L"
proof (induction xs arbitrary: n)
  case (Cons x xs)
  then show ?case using Cons.IH [of "Suc n"] by simp
qed simp

lemma handed_log:
  assumes "se_app_open env" and "so_app out' = so_app (to_app_log env sid out recv)"
  shows "handed p out' = handed p out @ List.map_filter (\<lambda>x. handed_entry p (app_entry sid x)) recv"
  using assms by (simp add: handed_def to_app_log_def List.map_filter_def comp_def filter_map)

lemma handed_same:
  assumes "\<And>m. Some m \<in> set recv \<Longrightarrow> \<exists>q. msg_get_source m = Some q \<and> agent_eq p q"
  shows "List.map_filter (\<lambda>x. handed_entry p (app_entry sid x)) recv = List.map_filter id recv"
  using assms
proof (induction recv)
  case (Cons x recv)
  have "handed_entry p (app_entry sid x) = x"
    by (cases x) (use Cons.prems in \<open>force simp: handed_entry_def app_entry_def\<close>)+
  moreover have "List.map_filter (\<lambda>x. handed_entry p (app_entry sid x)) recv = List.map_filter id recv"
    by (rule Cons.IH) (use Cons.prems in auto)
  ultimately show ?case by (cases x) (simp_all add: List.map_filter_simps id_def)
qed (simp add: List.map_filter_simps)

lemma handed_other:
  assumes "\<And>m. Some m \<in> set recv \<Longrightarrow> \<exists>q. msg_get_source m = Some q \<and> \<not> agent_eq p q"
  shows "List.map_filter (\<lambda>x. handed_entry p (app_entry sid x)) recv = []"
  using assms
proof (induction recv)
  case (Cons x recv)
  have "handed_entry p (app_entry sid x) = None"
    by (cases x) (use Cons.prems in \<open>force simp: handed_entry_def app_entry_def\<close>)+
  moreover have "List.map_filter (\<lambda>x. handed_entry p (app_entry sid x)) recv = []"
    by (rule Cons.IH) (use Cons.prems in auto)
  ultimately show ?case by (simp add: List.map_filter_simps)
qed (simp add: List.map_filter_simps)

lemma map_filter_append: "List.map_filter f (xs @ ys) = List.map_filter f xs @ List.map_filter f ys"
  by (simp add: List.map_filter_def)

lemma traced_step:
  assumes tr: "traced ops rs out" and st: "rs_step q op rs recv rs'" and env: "se_app_open env"
    and log: "so_app out' = so_app (to_app_log env sid out recv)"
    and op: "op_ok op" "\<And>m. m \<in> op_received op \<Longrightarrow> \<exists>p. msg_get_source m = Some p \<and> agent_eq q p"
  shows "traced (insert (q, op) ops) rs' out'"
  unfolding traced_def
proof (intro conjI allI)
  let ?ops = "insert (q, op) ops"
  have src: "\<exists>p. msg_get_source m = Some p \<and> agent_eq q' p" if "(q', op') \<in> ?ops" "m \<in> op_received op'" for q' op' m
    using that tr op unfolding traced_def by blast
  show "(q', op') \<in> ?ops \<longrightarrow> m \<in> op_received op' \<longrightarrow> op_ok op' \<and> (\<exists>p. msg_get_source m = Some p \<and> agent_eq q' p)" for q' op' m
    using tr op unfolding traced_def by blast
  obtain r' rtx where r': "rs' = hm_insert agent_eq q r' rs" "rb_exec (buffer_of q rs) op = Some ((recv, rtx), rc_buffer r')"
    using st unfolding rs_step_def buffer_of_def by blast
  have from_q: "\<exists>p. msg_get_source m = Some p \<and> agent_eq q p" if m: "Some m \<in> set recv" for m
  proof -
    obtain outs Q where t: "rb_trace (buffer_of q rs) outs (ops_received q ops) (ops_lost q ops) Q" using tr unfolding traced_def by blast
    have "rb_trace (rc_buffer r') (outs @ recv) (ops_received q ops \<union> op_received op) (ops_lost q ops \<union> op_lost op) (Q \<union> set rtx)"
      using exec_op [OF t op(1)] r'(2) unfolding exec_trace_def by auto
    then have "m \<in> ops_received q ops \<union> op_received op"
      using m in_order_received [of _ "outs @ recv" _ _ m] unfolding rb_trace_def by auto
    then obtain q' op' where "(q', op') \<in> ?ops" "agent_eq q q'" "m \<in> op_received op'"
      unfolding ops_received_def using ag_eq.eq_refl [of q] by blast
    then show ?thesis using src ag_eq.eq_trans by blast
  qed
  fix p
  obtain outs Q where t: "rb_trace (buffer_of p rs) outs (ops_received p ops) (ops_lost p ops) Q" "handed p out = List.map_filter id outs"
    using tr unfolding traced_def by blast
  show "\<exists>outs Q. rb_trace (buffer_of p rs') outs (ops_received p ?ops) (ops_lost p ?ops) Q \<and> handed p out' = List.map_filter id outs"
  proof (cases "agent_eq q p")
    case True
    then have pq: "agent_eq p q" by (rule ag_eq.eq_sym)
    have R: "ops_received p ?ops = ops_received p ops \<union> op_received op" "ops_lost p ?ops = ops_lost p ops \<union> op_lost op"
      using pq by (auto simp: ops_received_def ops_lost_def)
    have "rb_exec (buffer_of p rs) op = Some ((recv, rtx), rc_buffer r')" using r'(2) buffer_of_cong [OF True] by simp
    then have "rb_trace (rc_buffer r') (outs @ recv) (ops_received p ?ops) (ops_lost p ?ops) (Q \<union> set rtx)"
      using exec_op [OF t(1) op(1)] unfolding exec_trace_def R by auto
    moreover have "\<exists>q'. msg_get_source m = Some q' \<and> agent_eq p q'" if "Some m \<in> set recv" for m
      using from_q [OF that] pq ag_eq.eq_trans by blast
    then have "handed p out' = List.map_filter id (outs @ recv)"
      using handed_log [OF env log] handed_same [of recv p] t(2) by (simp add: map_filter_append)
    ultimately show ?thesis using True r'(1) by (auto simp: buffer_of_insert)
  next
    case False
    then have "\<not> agent_eq p q" using ag_eq.eq_sym by blast
    then have R: "ops_received p ?ops = ops_received p ops" "ops_lost p ?ops = ops_lost p ops"
      by (auto simp: ops_received_def ops_lost_def)
    have "\<exists>q'. msg_get_source m = Some q' \<and> \<not> agent_eq p q'" if "Some m \<in> set recv" for m
      using from_q [OF that] \<open>\<not> agent_eq p q\<close> ag_eq.eq_trans ag_eq.eq_sym by blast
    then have "handed p out' = handed p out" using handed_log [OF env log] handed_other [of recv p] by simp
    then show ?thesis using t False r'(1) unfolding R by (auto simp: buffer_of_insert)
  qed
qed

lemma traced_unchanged:
  assumes tr: "traced ops rs out" and same: "\<forall>p. buffer_of p rs' = buffer_of p rs" "\<forall>p. handed p out' = handed p out"
    and new: "\<And>q op. (q, op) \<in> new \<Longrightarrow> op_received op = {}"
  shows "traced (new \<union> ops) rs' out'"
proof -
  have R: "ops_received p (new \<union> ops) = ops_received p ops" "ops_lost p ops \<subseteq> ops_lost p (new \<union> ops)" for p
    using new by (auto simp: ops_received_def ops_lost_def)
  show ?thesis unfolding traced_def R(1)
  proof (intro conjI allI)
    show "(q, op) \<in> new \<union> ops \<longrightarrow> m \<in> op_received op \<longrightarrow> op_ok op \<and> (\<exists>p. msg_get_source m = Some p \<and> agent_eq q p)" for q op m
      using tr new unfolding traced_def by blast
    show "\<exists>outs Q. rb_trace (buffer_of p rs') outs (ops_received p ops) (ops_lost p (new \<union> ops)) Q \<and>
        handed p out' = List.map_filter id outs" for p
      using tr same rb_trace_lost_mono [OF _ R(2)] unfolding traced_def by metis
  qed
qed

lemma traced_effect:
  assumes "traced ops rs out" and "turn_effect env dir ev rs out rs' out'" and "st_legal dir ev" and "se_app_open env"
  shows "traced (ev_ops dir ev \<union> ops) rs' out'"
  using assms(2) unfolding turn_effect_def
proof (elim disjE exE conjE)
  fix q op recv sid
  assume a: "ev_op dir ev = Some (q, op)" "rs_step q op rs recv rs'" "so_app out' = so_app (to_app_log env sid out recv)"
  have "op_ok op \<and> (\<forall>m\<in>op_received op. \<exists>p. msg_get_source m = Some p \<and> agent_eq q p)"
  proof (cases ev)
    case (St_Msg m d)
    then have m: "msg_get_source m = Some q" "receiver_op m = Some op" "readable m"
      using a(1) assms(3) by (auto simp: ev_op_def st_legal_def split: option.splits if_splits)
    then show ?thesis using receiver_op_props [OF m(2)] by (auto simp: readable_def)
  qed (use a(1) in \<open>auto simp: ev_op_def op_ok_def split: if_splits\<close>)
  then show ?thesis using traced_step [OF assms(1) a(2) assms(4) a(3)] a(1) by (simp add: ev_ops_def)
next
  assume a: "\<forall>p. buffer_of p rs' = buffer_of p rs" "\<forall>p. handed p out' = handed p out"
    "\<forall>q op. ev_op dir ev = Some (q, op) \<longrightarrow> op_received op = {}"
  then show ?thesis by (intro traced_unchanged [OF assms(1)]) (auto simp: ev_ops_def)
qed

definition run_ops :: "session_direction \<Rightarrow> (st_event \<times> (nat \<Rightarrow> nat)) list \<Rightarrow> (agent \<times> rb_op) set" where
  "run_ops dir evs = (\<Union>ev\<in>fst ` set evs. ev_ops dir ev)"

lemma run_ok:
  assumes "ep_ok ep" and "\<forall>(ev, tok)\<in>set evs. st_legal (ep_direction ep) ev" and "se_app_open env"
    and "ep_direction ep \<noteq> Sender \<longrightarrow> traced ops (ep_receivers ep) out"
  shows "\<exists>ep' out'. stream_run xx env sc ep out evs = Some (ep', out') \<and> ep_ok ep' \<and> ep_direction ep' = ep_direction ep \<and>
    (ep_direction ep \<noteq> Sender \<longrightarrow> traced (run_ops (ep_direction ep) evs \<union> ops) (ep_receivers ep') out')"
  using assms
proof (induction evs arbitrary: ep out ops)
  case Nil
  then show ?case by (simp add: run_ops_def)
next
  case (Cons e evs)
  obtain ev tok where e: "e = (ev, tok)" by fastforce
  have legal: "st_legal (ep_direction ep) ev" using Cons.prems(2) e by simp
  obtain ep1 out1 where t: "stream_turn xx env sc ep out ev tok = Some (ep1, out1)" "ep_ok ep1" "ep_direction ep1 = ep_direction ep"
      "ep_direction ep \<noteq> Sender \<longrightarrow> turn_effect env (ep_direction ep) ev (ep_receivers ep) out (ep_receivers ep1) out1"
    using turn_ok [OF Cons.prems(1) legal Cons.prems(3)] unfolding turn_result_def by blast
  have "ep_direction ep1 \<noteq> Sender \<longrightarrow> traced (ev_ops (ep_direction ep) ev \<union> ops) (ep_receivers ep1) out1"
    using traced_effect [OF _ _ legal Cons.prems(3)] Cons.prems(4) t(3,4) by auto
  then obtain ep' out' where "stream_run xx env sc ep1 out1 evs = Some (ep', out')" "ep_ok ep'" "ep_direction ep' = ep_direction ep"
      "ep_direction ep \<noteq> Sender \<longrightarrow> traced (run_ops (ep_direction ep) evs \<union> (ev_ops (ep_direction ep) ev \<union> ops)) (ep_receivers ep') out'"
    using Cons.IH [OF t(2), of "ev_ops (ep_direction ep) ev \<union> ops" out1] Cons.prems(2,3) t(3) by auto
  then show ?case using e t(1) by (auto simp: run_ops_def Un_assoc Un_left_commute)
qed

lemma traced_new: "traced {} [] empty_out"
proof -
  have "buffer_of p [] = receiver_buffer_default" for p by (simp add: buffer_of_def receiver_of_def receiver_new_def)
  then show ?thesis using rb_trace_default
    by (auto simp: traced_def ops_received_def ops_lost_def handed_def empty_out_def List.map_filter_simps intro!: exI [of _ "[]"])
qed

section \<open>Producers\<close>

definition stream_type :: "session_direction \<Rightarrow> session_header_type" where
  "stream_type dir = (if dir = Bidirectional then PubSub else StreamMsg)"

definition producer_of :: "endpoint \<Rightarrow> producer_state option" where
  "producer_of ep = (case ep of Producer_Endpoint ps \<Rightarrow> Some ps | Receiver_Endpoint _ \<Rightarrow> None | Bidirectional_Endpoint _ ps \<Rightarrow> Some ps)"

lemma producer_turn:
  assumes "producer_of ep = Some ps" and "ps_ok ps" and "publication m" and "se_app_open env" "se_slim_open env"
  shows "\<exists>ep' ps' m'. stream_turn xx env sc ep out (St_Msg m South) tok = Some (ep', out\<lparr>so_slim := so_slim out @ [m']\<rparr>) \<and>
    producer_of ep' = Some ps' \<and> ps_ok ps' \<and> ep_direction ep' = ep_direction ep \<and> ps_next_id ps' = ps_next_id ps + 1 \<and>
    numbered (stream_type (ep_direction ep)) (ps_next_id ps) m m' \<and>
    pb_contents (ps_buffer ps') = window_push 500 (pb_contents (ps_buffer ps)) m'"
proof -
  let ?bi = "ep_direction ep = Bidirectional"
  obtain ps' m' where "process_message_from_app xx env m (sc_session_id sc) ps ?bi out (tok 0) = Some (ps', out\<lparr>so_slim := so_slim out @ [m']\<rparr>)"
      "ps_ok ps'" "ps_next_id ps' = ps_next_id ps + 1" "numbered (stream_type (ep_direction ep)) (ps_next_id ps) m m'"
      "pb_contents (ps_buffer ps') = window_push 500 (pb_contents (ps_buffer ps)) m'"
    using from_app_spec [OF assms(2,3,4), of xx "sc_session_id sc" ?bi out "tok 0"] assms(5) by (auto simp: stream_type_def)
  then show ?thesis using assms(1)
    by (cases ep) (auto simp: stream_turn_def on_stream_message_def producer_of_def ep_direction_def)
qed

lemma producer_run:
  assumes "producer_of ep = Some ps" and "ps_ok ps" and "\<forall>m\<in>set ms. publication m" and "se_app_open env" "se_slim_open env"
  shows "\<exists>ep' ps' sent. stream_run xx env sc ep out (map (\<lambda>m. (St_Msg m South, tok)) ms) =
      Some (ep', out\<lparr>so_slim := so_slim out @ sent\<rparr>) \<and>
    producer_of ep' = Some ps' \<and> ps_ok ps' \<and> ep_direction ep' = ep_direction ep \<and> length sent = length ms \<and>
    (\<forall>k<length ms. numbered (stream_type (ep_direction ep)) (ps_next_id ps + of_nat k) (ms ! k) (sent ! k)) \<and>
    pb_contents (ps_buffer ps') = foldl (window_push 500) (pb_contents (ps_buffer ps)) sent"
  using assms(1-3)
proof (induction ms arbitrary: ep ps out)
  case (Cons m ms)
  obtain ep1 ps1 m' where 1: "stream_turn xx env sc ep out (St_Msg m South) tok = Some (ep1, out\<lparr>so_slim := so_slim out @ [m']\<rparr>)"
      "producer_of ep1 = Some ps1" "ps_ok ps1" "ep_direction ep1 = ep_direction ep" "ps_next_id ps1 = ps_next_id ps + 1"
      "numbered (stream_type (ep_direction ep)) (ps_next_id ps) m m'"
      "pb_contents (ps_buffer ps1) = window_push 500 (pb_contents (ps_buffer ps)) m'"
    using producer_turn [OF Cons.prems(1,2) _ assms(4,5)] Cons.prems(3) by (metis list.set_intros(1))
  obtain ep' ps' sent where 2: "stream_run xx env sc ep1 (out\<lparr>so_slim := so_slim out @ [m']\<rparr>) (map (\<lambda>m. (St_Msg m South, tok)) ms) =
        Some (ep', out\<lparr>so_slim := so_slim out @ m' # sent\<rparr>)"
      "producer_of ep' = Some ps'" "ps_ok ps'" "ep_direction ep' = ep_direction ep" "length sent = length ms"
      "\<forall>k<length ms. numbered (stream_type (ep_direction ep)) (ps_next_id ps1 + of_nat k) (ms ! k) (sent ! k)"
      "pb_contents (ps_buffer ps') = foldl (window_push 500) (pb_contents (ps_buffer ps1)) sent"
    using Cons.IH [OF 1(2,3), of "out\<lparr>so_slim := so_slim out @ [m']\<rparr>"] Cons.prems(3) 1(4) by auto
  have "numbered (stream_type (ep_direction ep)) (ps_next_id ps + of_nat k) ((m # ms) ! k) ((m' # sent) ! k)" if "k < length (m # ms)" for k
    using that 1(5,6) 2(6) by (cases k) (auto simp: ac_simps)
  then show ?case using 1(1,7) 2
    by (intro exI [of _ ep'] exI [of _ ps'] exI [of _ "m' # sent"]) simp
qed auto

lemma stream_run_append:
  "stream_run xx env sc ep out (xs @ ys) = do { (ep, out) \<leftarrow> stream_run xx env sc ep out xs; stream_run xx env sc ep out ys }"
  by (induction xx env sc ep out xs rule: stream_run.induct) (auto split: bind_split)

lemma numbered_distinct:
  assumes "\<forall>k<length ms. numbered t (of_nat k) (ms ! k) (sent ! k)" and "length sent = length ms" and "length ms \<le> 2 ^ 32"
  shows "distinct (map msg_get_id sent)"
proof -
  have "map msg_get_id sent = map (\<lambda>k. Some (of_nat k :: u32)) [0..<length ms]"
    using assms(1,2) by (intro nth_equalityI) (simp_all add: numbered_def)
  moreover have "inj_on (\<lambda>k. Some (of_nat k :: u32)) {0..<length ms}"
  proof (rule inj_onI)
    fix x y assume "x \<in> {0..<length ms}" "y \<in> {0..<length ms}" and eq: "Some (of_nat x :: u32) = Some (of_nat y)"
    then have "x < 2 ^ 32" "y < 2 ^ 32" using assms(3) by simp_all
    then show "x = y" using of_nat_u32_inject [of x y] eq by blast
  qed
  ultimately show ?thesis by (simp add: distinct_map)
qed

section \<open>Properties of streaming sessions\<close>

text \<open>
  C30: whatever legal events a streaming session meets, its task never panics, and no gap of a
  stream is forgotten: if messages of a producer wait behind a missing one, the request for exactly
  that message is kept for retransmission and its timer is set.
\<close>

theorem missing_message_stays_requested:
  assumes "se_app_open env" and "\<forall>(ev, tok)\<in>set evs. st_legal dir ev"
  shows "\<exists>ep out. stream_run xx env (sg_conf (streaming_new i conf dir agent identity token))
        (sg_endpoint (streaming_new i conf dir agent identity token)) empty_out evs = Some (ep, out) \<and>
    (\<forall>p r. hm_get agent_eq p (ep_receivers ep) = Some r \<longrightarrow> 0 < rb_span (rc_buffer r) \<longrightarrow>
       (\<exists>n m t. unat (n :: u32) = rb_next (rc_buffer r) \<and> rb_at (rc_buffer r) (unat n) = None \<and>
          hm_get (=) n (rc_rtx_map r) = Some m \<and> is_rtx_request n m \<and>
          hm_get (=) n (rc_timers_map r) = Some t \<and> tm_timer_id t = n))"
proof -
  let ?s = "streaming_new i conf dir agent identity token"
  have ep: "sg_endpoint ?s = endpoint_new dir token" by (simp add: streaming_new_def Let_def)
  obtain ep out where run: "stream_run xx env (sg_conf ?s) (sg_endpoint ?s) empty_out evs = Some (ep, out)" "ep_ok ep"
    using run_ok [of "sg_endpoint ?s" evs env "{}" empty_out xx "sg_conf ?s"] assms traced_new endpoint_new_ok unfolding ep by auto
  have "rs_ok (ep_receivers ep)" using run(2) by (cases ep) (simp_all add: ep_ok_def ep_receivers_def rs_ok_def)
  then have "\<exists>n m t. unat (n :: u32) = rb_next (rc_buffer r) \<and> rb_at (rc_buffer r) (unat n) = None \<and>
          hm_get (=) n (rc_rtx_map r) = Some m \<and> is_rtx_request n m \<and>
          hm_get (=) n (rc_timers_map r) = Some t \<and> tm_timer_id t = n"
    if "hm_get agent_eq p (ep_receivers ep) = Some r" "0 < rb_span (rc_buffer r)" for p r
  proof -
    let ?n = "rb_next (rc_buffer r)"
    have ok: "rc_ok r" using \<open>rs_ok (ep_receivers ep)\<close> that(1) by (auto simp: rs_ok_def)
    have "rb_inv (rc_buffer r)" "gaps_covered (rc_buffer r) (rc_pending r)" "rc_requests r" using ok by (simp_all add: rc_ok_def)
    then have "rb_at (rc_buffer r) ?n = None" "?n + rb_span (rc_buffer r) \<le> 2 ^ 32" unfolding rb_inv_def rb_ok_def by blast+
    moreover from this(1) have "of_nat ?n \<in> rc_pending r"
      using \<open>gaps_covered _ _\<close> that(2) unfolding gaps_covered_def by (elim allE [of _ ?n]) simp
    ultimately have at: "rb_at (rc_buffer r) ?n = None" "?n + rb_span (rc_buffer r) \<le> 2 ^ 32" "of_nat ?n \<in> rc_pending r" .
    then have "unat (of_nat ?n :: u32) = ?n" using that(2) by (intro unat_of_nat_u32) linarith
    then show ?thesis using at(1,3) \<open>rc_requests r\<close> unfolding rc_pending_def rc_requests_def
      by (intro exI [of _ "of_nat ?n"]) auto
  qed
  then show ?thesis using run(1) by blast
qed

text \<open>
  C29: a receiving or bidirectional session hands the messages of every producer to the application
  in the order of their numbers, whatever the interleaving of producers, retransmissions and timers:
  what the application got from a producer is one entry per number, consecutively from some first
  one, with only those numbers left out that were given up as lost. Every message received from the
  producer with a later number waits in its buffer.
\<close>

theorem streams_delivered_in_order:
  assumes "se_app_open env" and "dir \<noteq> Sender" and "\<forall>(ev, tok)\<in>set evs. st_legal dir ev"
  shows "\<exists>ep out. stream_run xx env (sg_conf (streaming_new i conf dir agent identity token))
        (sg_endpoint (streaming_new i conf dir agent identity token)) empty_out evs = Some (ep, out) \<and>
    (\<forall>p. \<exists>outs start. handed p out = List.map_filter id outs \<and>
       in_order start outs (ops_received p (run_ops dir evs)) (ops_lost p (run_ops dir evs)) \<and>
       rb_next (buffer_of p (ep_receivers ep)) = start + length outs \<and>
       (\<forall>m\<in>ops_received p (run_ops dir evs). \<forall>i. msg_get_id m = Some i \<longrightarrow>
          unat i < start + length outs \<or> rb_at (buffer_of p (ep_receivers ep)) (unat i) \<noteq> None))"
proof -
  let ?s = "streaming_new i conf dir agent identity token"
  have ep: "sg_endpoint ?s = endpoint_new dir token" by (simp add: streaming_new_def Let_def)
  obtain ep out where run: "stream_run xx env (sg_conf ?s) (sg_endpoint ?s) empty_out evs = Some (ep, out)"
      "traced (run_ops dir evs) (ep_receivers ep) out"
    using run_ok [of "sg_endpoint ?s" evs env "{}" empty_out xx "sg_conf ?s"] assms traced_new endpoint_new_ok unfolding ep by auto
  have "\<exists>outs start. handed p out = List.map_filter id outs \<and>
       in_order start outs (ops_received p (run_ops dir evs)) (ops_lost p (run_ops dir evs)) \<and>
       rb_next (buffer_of p (ep_receivers ep)) = start + length outs \<and>
       (\<forall>m\<in>ops_received p (run_ops dir evs). \<forall>i. msg_get_id m = Some i \<longrightarrow>
          unat i < start + length outs \<or> rb_at (buffer_of p (ep_receivers ep)) (unat i) \<noteq> None)" for p
  proof -
    obtain outs Q where t: "rb_trace (buffer_of p (ep_receivers ep)) outs (ops_received p (run_ops dir evs)) (ops_lost p (run_ops dir evs)) Q"
        "handed p out = List.map_filter id outs"
      using run(2) unfolding traced_def by blast
    then have "length outs \<le> rb_next (buffer_of p (ep_receivers ep))" by (simp add: rb_trace_def)
    then have "rb_next (buffer_of p (ep_receivers ep)) = (rb_next (buffer_of p (ep_receivers ep)) - length outs) + length outs" by simp
    then show ?thesis using t unfolding rb_trace_def
      by (intro exI [of _ outs] exI [of _ "rb_next (buffer_of p (ep_receivers ep)) - length outs"]) simp
  qed
  then show ?thesis using run(1) by blast
qed

text \<open>
  C31: a producer numbers the messages of the application from zero without gaps and sends them in
  order, with their content, to fifty subscribers at most. It answers a retransmission request over
  the connection of the request with the bytes of that message as long as it is among the last five
  hundred sent, and with an error otherwise. The answer does not carry the content type.
\<close>

theorem producer_numbers_and_answers:
  assumes "se_app_open env" "se_slim_open env" and "dir \<noteq> Receiver" and "length ms \<le> 2 ^ 32"
    and "\<forall>m\<in>set ms. publication m \<and> msg_get_payload m \<noteq> Some None"
    and "readable req" "msg_get_header_type req = Some RtxRequest" "msg_get_id req = Some k"
      "msg_get_source req = Some p" "msg_get_incoming_conn req = Some c"
  shows "\<exists>ep out sent answer. stream_run xx env (sg_conf (streaming_new i conf dir agent identity token))
        (sg_endpoint (streaming_new i conf dir agent identity token)) empty_out
        (map (\<lambda>m. (St_Msg m South, tok)) ms @ [(St_Msg req North, tok)]) = Some (ep, out) \<and>
    so_slim out = sent @ [answer] \<and> so_app out = [] \<and> length sent = length ms \<and>
    (\<forall>k<length ms. numbered (stream_type dir) (of_nat k) (ms ! k) (sent ! k)) \<and>
    rtx_answer (drop (length ms - 500) sent) k p c answer"
proof -
  let ?s = "streaming_new i conf dir agent identity token"
  have ep: "sg_endpoint ?s = endpoint_new dir token" by (simp add: streaming_new_def Let_def)
  obtain d where ps: "producer_of (endpoint_new dir token) = Some (producer_state_new d token)"
    using assms(3) by (cases dir) (auto simp: endpoint_new_def producer_of_def)
  have id0: "ps_next_id (producer_state_new d token) = 0" by (simp add: producer_state_new_def)
  obtain ep' ps' sent where r: "stream_run xx env (sg_conf ?s) (endpoint_new dir token) empty_out (map (\<lambda>m. (St_Msg m South, tok)) ms) =
        Some (ep', empty_out\<lparr>so_slim := sent\<rparr>)"
      "producer_of ep' = Some ps'" "ps_ok ps'" "length sent = length ms"
      "\<forall>k<length ms. numbered (stream_type dir) (of_nat k) (ms ! k) (sent ! k)"
      "pb_contents (ps_buffer ps') = foldl (window_push 500) [] sent"
    using producer_run [OF ps ps_ok_new(1) _ assms(1,2), of ms xx "sg_conf ?s" empty_out tok] assms(5) id0 ps_ok_new(2) endpoint_new_ok(2)
    by (auto simp: empty_out_def)
  have cont: "pb_contents (ps_buffer ps') = drop (length ms - 500) sent"
    using foldl_window [of 500 sent] numbered_distinct [OF r(5,4) assms(4)] r(4,6) by simp
  have "msg_get_payload x \<noteq> Some None" if x: "x \<in> set sent" for x
  proof -
    obtain k where "k < length ms" "x = sent ! k" using x r(4) by (metis in_set_conv_nth)
    then show ?thesis using r(5) assms(5) nth_mem [of k ms] by (auto simp: numbered_def)
  qed
  then have "\<forall>x\<in>set (pb_contents (ps_buffer ps')). msg_get_payload x \<noteq> Some None"
    unfolding cont using in_set_dropD by fast
  then obtain out' a where o: "process_incoming_rtx_request env req (sc_session_id (sg_conf ?s)) ps' (sc_source (sg_conf ?s))
        (empty_out\<lparr>so_slim := sent\<rparr>) = Some out'" "so_app out' = []" "so_slim out' = sent @ [a]"
      "rtx_answer (drop (length ms - 500) sent) k p c a"
    using rtx_request_spec [OF r(3) assms(6,9,8,10)] assms(2) cont by (fastforce simp: empty_out_def)
  have "stream_turn xx env (sg_conf ?s) ep' (empty_out\<lparr>so_slim := sent\<rparr>) (St_Msg req North) tok = Some (ep', out')"
    using r(2) o(1) assms(7) by (cases ep') (auto simp: stream_turn_def on_stream_message_def producer_of_def)
  then have "stream_run xx env (sg_conf ?s) (endpoint_new dir token) empty_out
      (map (\<lambda>m. (St_Msg m South, tok)) ms @ [(St_Msg req North, tok)]) = Some (ep', out')"
    using r(1) by (simp add: stream_run_append)
  then show ?thesis unfolding ep using r(4,5) o(2-4) by blast
qed

text \<open>
  C32: a session created to receive only does not survive a message of its own application. Such a
  message is handled like one from the network, and since it carries no incoming connection the task
  panics: nothing is sent, what the session holds is lost and every later message is refused.
\<close>

theorem receiver_dies_of_app_message:
  assumes "msg_get_incoming_conn (sm_message m) = None"
  shows "\<exists>sg. fst (sg_on_message (streaming_new i conf Receiver agent identity token) m South) = Inr () \<and>
    sg_turn xx env (snd (sg_on_message (streaming_new i conf Receiver agent identity token) m South)) out tok = (sg, out) \<and>
    \<not> sg_open sg \<and> (\<forall>m' d. fst (sg_on_message sg m' d) = Inl (Processing ''channel closed''))"
  using assms
  by (cases "msg_get_source (sm_message m)")
    (simp_all add: streaming_new_def Let_def sg_on_message_def sg_turn_def on_stream_message_def endpoint_new_def
      process_message_from_slim_def)

section \<open>Examples\<close>

definition demo_stream :: "session_header_type \<Rightarrow> u32 \<Rightarrow> message" where
  "demo_stream t i = new_publish_with_headers
     (Some (slim_header_new sample_source sample_type None (Some (with_incoming_conn flags_default 8))))
     (Some (session_header_new (i32_of_header_type t) 3 i)) ''text'' [1]"

definition demo_events :: "(st_event \<times> (nat \<Rightarrow> nat)) list" where
  "demo_events = [(St_Msg (demo_stream StreamMsg 1) North, \<lambda>_. 0), (St_Msg (demo_stream StreamMsg 3) North, \<lambda>_. 0),
     (Rtx_Timer 2 True sample_source, \<lambda>_. 0), (St_Msg (demo_stream RtxReply 2) North, \<lambda>_. 0)]"

definition demo_session :: "session_direction \<Rightarrow> streaming" where
  "demo_session dir = streaming_new 3 (st_config_new dir None (Some 2) (Some 5)) dir sample_source None 0"

lemma demo_readable: "readable (demo_stream t i)"
  by (simp add: readable_def demo_stream_def info_from_message_def msg_get_source_def msg_get_incoming_conn_def slim_header_get_source_def
      slim_header_new_def with_incoming_conn_def flags_default_def sample_source_def proto_agent_from_agent_def agent_from_proto_def
      agent_new_def agent_id_option_def DEFAULT_AGENT_ID_def Let_def)

lemma demo_events_legal: "\<forall>(ev, tok)\<in>set demo_events. st_legal Receiver ev"
  by (simp add: demo_events_def st_legal_def demo_readable)

lemma open_env_open: "se_app_open open_env" "se_slim_open open_env"
  by (simp_all add: open_env_def)

theorem missing_message_stays_requested_witness:
  "\<exists>ep out. stream_run (\<lambda>_. 9) open_env (sg_conf (demo_session Receiver)) (sg_endpoint (demo_session Receiver)) empty_out demo_events = Some (ep, out) \<and>
     (\<forall>r. hm_get agent_eq sample_source (ep_receivers ep) = Some r \<longrightarrow> 0 < rb_span (rc_buffer r) \<longrightarrow>
        (\<exists>n. unat (n :: u32) = rb_next (rc_buffer r) \<and> hm_get (=) n (rc_rtx_map r) \<noteq> None))"
proof -
  obtain ep out where e: "stream_run (\<lambda>_. 9) open_env (sg_conf (demo_session Receiver)) (sg_endpoint (demo_session Receiver)) empty_out demo_events = Some (ep, out)"
      "\<forall>p r. hm_get agent_eq p (ep_receivers ep) = Some r \<longrightarrow> 0 < rb_span (rc_buffer r) \<longrightarrow>
       (\<exists>n m t. unat (n :: u32) = rb_next (rc_buffer r) \<and> rb_at (rc_buffer r) (unat n) = None \<and>
          hm_get (=) n (rc_rtx_map r) = Some m \<and> is_rtx_request n m \<and>
          hm_get (=) n (rc_timers_map r) = Some t \<and> tm_timer_id t = n)"
    using missing_message_stays_requested [OF open_env_open(1) demo_events_legal, of "\<lambda>_. 9" 3 "st_config_new Receiver None (Some 2) (Some 5)" sample_source None 0]
    unfolding demo_session_def by blast
  then show ?thesis by fastforce
qed

theorem streams_delivered_in_order_witness:
  "\<exists>ep out outs start. stream_run (\<lambda>_. 9) open_env (sg_conf (demo_session Receiver)) (sg_endpoint (demo_session Receiver)) empty_out demo_events = Some (ep, out) \<and>
     handed sample_source out = List.map_filter id outs \<and>
     in_order start outs (ops_received sample_source (run_ops Receiver demo_events)) (ops_lost sample_source (run_ops Receiver demo_events))"
  using streams_delivered_in_order [OF open_env_open(1) _ demo_events_legal, of "\<lambda>_. 9" 3 "st_config_new Receiver None (Some 2) (Some 5)" sample_source None 0]
  unfolding demo_session_def by blast

theorem producer_numbers_and_answers_witness:
  "\<exists>ep out sent answer p. stream_run (\<lambda>_. 9) open_env (sg_conf (demo_session Sender)) (sg_endpoint (demo_session Sender)) empty_out
        [(St_Msg (sent_msg 7) South, \<lambda>_. 0), (St_Msg (demo_stream RtxRequest 0) North, \<lambda>_. 0)] = Some (ep, out) \<and>
     so_slim out = [sent, answer] \<and> msg_get_id sent = Some 0 \<and> rtx_answer [sent] 0 p 8 answer"
proof -
  obtain p where p: "msg_get_source (demo_stream RtxRequest 0) = Some p"
    using readable_message [of "demo_stream RtxRequest 0"] demo_readable [of RtxRequest 0] unfolding readable_def by blast
  have r: "msg_get_header_type (demo_stream RtxRequest 0) = Some RtxRequest" "msg_get_id (demo_stream RtxRequest 0) = Some 0"
      "msg_get_incoming_conn (demo_stream RtxRequest 0) = Some 8"
    by (simp_all add: demo_stream_def msg_get_incoming_conn_def slim_header_new_def with_incoming_conn_def Let_def)
  have m: "\<forall>m\<in>set [sent_msg 7]. publication m \<and> msg_get_payload m \<noteq> Some None"
    by (simp add: sent_msg_def publication_def slim_header_new_def Let_def)
  obtain ep out sent answer where e: "stream_run (\<lambda>_. 9) open_env (sg_conf (demo_session Sender)) (sg_endpoint (demo_session Sender)) empty_out
        [(St_Msg (sent_msg 7) South, \<lambda>_. 0), (St_Msg (demo_stream RtxRequest 0) North, \<lambda>_. 0)] = Some (ep, out)"
      "so_slim out = sent @ [answer]" "length sent = 1" "numbered (stream_type Sender) 0 (sent_msg 7) (sent ! 0)" "rtx_answer sent 0 p 8 answer"
    using producer_numbers_and_answers [OF open_env_open, of Sender "[sent_msg 7]" "demo_stream RtxRequest 0" 0 p 8 "\<lambda>_. 9" 3
        "st_config_new Sender None (Some 2) (Some 5)" sample_source None 0 "\<lambda>_. 0"] demo_readable r p m
    unfolding demo_session_def by auto
  moreover obtain s where "sent = [s]" using e(3) by (cases sent) auto
  ultimately show ?thesis by (auto simp: numbered_def)
qed

theorem receiver_dies_of_app_message_witness:
  "\<exists>sg. sg_turn (\<lambda>_. 9) open_env (snd (sg_on_message (demo_session Receiver) \<lparr>sm_message = sent_msg 7, sm_info = info_new 3\<rparr> South))
       empty_out (\<lambda>_. 0) = (sg, empty_out) \<and> \<not> sg_open sg"
proof -
  have "msg_get_incoming_conn (sm_message \<lparr>sm_message = sent_msg 7, sm_info = info_new 3\<rparr>) = None"
    by (simp add: sent_msg_def msg_get_incoming_conn_def slim_header_new_def flags_default_def Let_def)
  from receiver_dies_of_app_message [OF this, of 3 "st_config_new Receiver None (Some 2) (Some 5)" sample_source None 0 "\<lambda>_. 9" open_env empty_out "\<lambda>_. 0"]
  show ?thesis unfolding demo_session_def by blast
qed

end
