(* ===== verification/Session_Layer.thy ===== *)
theory Session_Layer
  imports Request_Response Fire_And_Forget Streaming
begin

text \<open>
  The pool of sessions of a local agent, \<^verbatim>\<open>service/src/session_layer.rs\<close>: creating and removing
  sessions, handing every message to the session it belongs to, and the configurations.
  \<open>draw\<close> gives the random identifiers of the creation loop, \<open>random\<close> and
  \<open>token\<close> what a request takes. The lock of the pool is not poisoned by a panic, so the
  operations that write to the pool return the new layer beside their result, and the result is
  \<open>None\<close> after a panic. \<open>debug_assert!\<close> is skipped, as in a release build.
\<close>

section \<open>Sessions\<close>

datatype session =
  FireAndForget_Session fire_and_forget
| RequestResponse_Session request_response
| Streaming_Session streaming

definition session_common :: "session \<Rightarrow> common" where
  "session_common s = (case s of
      FireAndForget_Session fa \<Rightarrow> fa_common fa
    | RequestResponse_Session rq \<Rightarrow> rq_common rq
    | Streaming_Session sg \<Rightarrow> sg_common sg)"

definition session_add_interceptor :: "session \<Rightarrow> interceptor \<Rightarrow> session" where
  "session_add_interceptor s i = (case s of
      FireAndForget_Session fa \<Rightarrow> FireAndForget_Session (fa\<lparr>fa_common := common_add_interceptor (fa_common fa) i\<rparr>)
    | RequestResponse_Session rq \<Rightarrow> RequestResponse_Session (rq\<lparr>rq_common := common_add_interceptor (rq_common rq) i\<rparr>)
    | Streaming_Session sg \<Rightarrow> Streaming_Session (sg\<lparr>sg_common := common_add_interceptor (sg_common sg) i\<rparr>))"

definition session_set_session_config :: "session \<Rightarrow> session_config \<Rightarrow> (session_error + unit) \<times> session" where
  "session_set_session_config s session_config = (case s of
      FireAndForget_Session fa \<Rightarrow> map_prod id FireAndForget_Session (ff_set_session_config fa session_config)
    | RequestResponse_Session rq \<Rightarrow>
        (case common_set_session_config (rq_common rq) session_config of
           Inl e \<Rightarrow> (Inl e, s)
         | Inr cm \<Rightarrow> (Inr (), RequestResponse_Session (rq\<lparr>rq_common := cm\<rparr>)))
    | Streaming_Session sg \<Rightarrow>
        (case common_set_session_config (sg_common sg) session_config of
           Inl e \<Rightarrow> (Inl e, s)
         | Inr cm \<Rightarrow> (Inr (), Streaming_Session (sg\<lparr>sg_common := cm\<rparr>))))"

definition session_on_message ::
    "session_env \<Rightarrow> session \<Rightarrow> session_out \<Rightarrow> session_message \<Rightarrow> message_direction \<Rightarrow> u32 \<Rightarrow> nat \<Rightarrow>
     ((session_error + unit) \<times> session \<times> session_out) option" where
  "session_on_message env s out message direction random token = (case s of
      FireAndForget_Session fa \<Rightarrow>
        (case ff_on_message fa message direction of (r, fa) \<Rightarrow> Some (r, FireAndForget_Session fa, out))
    | RequestResponse_Session rq \<Rightarrow> do {
        (r, rq, out) \<leftarrow> rq_on_message env rq out message direction random token;
        Some (r, RequestResponse_Session rq, out)
      }
    | Streaming_Session sg \<Rightarrow>
        (case sg_on_message sg message direction of (r, sg) \<Rightarrow> Some (r, Streaming_Session sg, out)))"

section \<open>The layer\<close>

record session_layer =
  sl_pool :: "(u32, session) hmap"
  sl_agent_name :: agent
  sl_identity :: "string option"
  sl_conn_id :: u64
  sl_default_ff_conf :: fire_and_forget_configuration
  sl_default_rr_conf :: request_response_configuration
  sl_default_stream_conf :: streaming_configuration

definition session_layer_new :: "agent \<Rightarrow> string option \<Rightarrow> u64 \<Rightarrow> session_layer" where
  "session_layer_new agent_name identity conn_id = \<lparr>sl_pool = [], sl_agent_name = agent_name,
     sl_identity = identity, sl_conn_id = conn_id, sl_default_ff_conf = ff_config_default,
     sl_default_rr_conf = rr_config_default, sl_default_stream_conf = st_config_default\<rparr>"

text \<open>
  The hash of a topic, over the bytes its \<open>Hash\<close> implementation feeds to the hasher \<open>xx\<close>
  on a little-endian machine.
\<close>

definition le_bytes :: "u64 \<Rightarrow> u8 list" where
  "le_bytes w = map (\<lambda>k. ucast (drop_bit (8 * k) w)) [0, 1, 2, 3, 4, 5, 6, 7]"

definition calculate_type_hash :: "(u8 list \<Rightarrow> u64) \<Rightarrow> agent_type \<Rightarrow> u64" where
  "calculate_type_hash xx t = xx (le_bytes (at_organization t) @ le_bytes (at_namespace t) @ le_bytes (at_agent_type t))"

definition topic_session_id :: "(u8 list \<Rightarrow> u64) \<Rightarrow> agent_type \<Rightarrow> u32" where
  "topic_session_id xx topic = ucast (calculate_type_hash xx topic mod 4294967295)"

text \<open>Drawing identifiers until one is free; \<open>None\<close> when none ever is.\<close>

partial_function (option) draw_session_id :: "(u32, session) hmap \<Rightarrow> (nat \<Rightarrow> u32) \<Rightarrow> nat \<Rightarrow> u32 option" where
  "draw_session_id pool draw k =
     (if hm_contains (=) (draw k) pool then draw_session_id pool draw (Suc k) else Some (draw k))"

declare draw_session_id.simps [code]

definition choose_session_id ::
    "(u32, session) hmap \<Rightarrow> u32 option \<Rightarrow> (nat \<Rightarrow> u32) \<Rightarrow> (session_error, u32) rust" where
  "choose_session_id pool i draw = (case i of
      Some i \<Rightarrow>
        if \<not> SESSION_RANGE i then Err (InvalidSessionId (show_u32 i))
        else if hm_contains (=) i pool then Err (SessionIdAlreadyUsed (show_u32 i))
        else Ok i
    | None \<Rightarrow> map_option Inr (draw_session_id pool draw 0))"

definition session_new ::
    "(u8 list \<Rightarrow> u64) \<Rightarrow> session_layer \<Rightarrow> session_config \<Rightarrow> u32 \<Rightarrow> nat \<Rightarrow> u32 \<times> session" where
  "session_new xx sl session_config i token = (case session_config of
      FireAndForget_Config conf \<Rightarrow>
        (i, FireAndForget_Session (fire_and_forget_new i conf Bidirectional (sl_agent_name sl) (sl_identity sl)))
    | RequestResponse_Config conf \<Rightarrow>
        (i, RequestResponse_Session (request_response_new i conf Bidirectional (sl_agent_name sl) (sl_identity sl)))
    | Streaming_Config conf \<Rightarrow>
        (let i = (if st_direction conf = Bidirectional then topic_session_id xx (st_topic conf) else i)
         in (i, Streaming_Session (streaming_new i conf (st_direction conf) (sl_agent_name sl) (sl_identity sl) token))))"

definition create_session ::
    "(u8 list \<Rightarrow> u64) \<Rightarrow> session_layer \<Rightarrow> session_config \<Rightarrow> u32 option \<Rightarrow> (nat \<Rightarrow> u32) \<Rightarrow> nat \<Rightarrow>
     (session_error, info) rust \<times> session_layer" where
  "create_session xx sl session_config i draw token = (case choose_session_id (sl_pool sl) i draw of
      None \<Rightarrow> (None, sl)
    | Some (Inl e) \<Rightarrow> (Err e, sl)
    | Some (Inr i) \<Rightarrow>
        (case session_new xx sl session_config i token of
           (i, session) \<Rightarrow>
             (let ret = hm_get (=) i (sl_pool sl);
                  sl = sl\<lparr>sl_pool := hm_insert (=) i session (sl_pool sl)\<rparr>
              in if ret \<noteq> None then (None, sl) else (Ok (info_new i), sl))))"

definition remove_session :: "session_layer \<Rightarrow> u32 \<Rightarrow> bool \<times> session_layer" where
  "remove_session sl i =
     (hm_get (=) i (sl_pool sl) \<noteq> None, sl\<lparr>sl_pool := hm_remove (=) i (sl_pool sl)\<rparr>)"

section \<open>Messages\<close>

text \<open>\<open>SessionHeaderType::try_from\<close>.\<close>

definition header_type_try_from :: "32 word \<Rightarrow> session_header_type option" where
  "header_type_try_from w = (if w \<le> 13 then Some (header_type_of_i32 w) else None)"

type_synonym layer_result = "(session_error, unit) rust \<times> session_layer \<times> session_out"

text \<open>What both directions do with a session of the pool.\<close>

definition pass_to_session ::
    "session_env \<Rightarrow> session_layer \<Rightarrow> session_out \<Rightarrow> u32 \<Rightarrow> session \<Rightarrow> session_error + message \<Rightarrow> info \<Rightarrow> message_direction \<Rightarrow>
     u32 \<Rightarrow> nat \<Rightarrow> layer_result" where
  "pass_to_session env sl out i session intercepted inf0 direction random token = (case intercepted of
      Inl e \<Rightarrow> (Err e, sl, out)
    | Inr m \<Rightarrow>
        (case session_on_message env session out \<lparr>sm_message = m, sm_info = inf0\<rparr> direction random token of
           None \<Rightarrow> (None, sl, out)
         | Some (r, session, out) \<Rightarrow> (Some r, sl\<lparr>sl_pool := hm_insert (=) i session (sl_pool sl)\<rparr>, out)))"

definition handle_message_from_app ::
    "session_env \<Rightarrow> session_layer \<Rightarrow> session_out \<Rightarrow> session_message \<Rightarrow> message_direction \<Rightarrow> u32 \<Rightarrow> nat \<Rightarrow> layer_result" where
  "handle_message_from_app env sl out message direction random token =
     (let i = in_id (sm_info message)
      in case hm_get (=) i (sl_pool sl) of
           Some session \<Rightarrow>
             (case get_session_header_mut (\<lambda>h. h\<lparr>se_session_id := i\<rparr>) (sm_message message) of
                None \<Rightarrow> (None, sl, out)
              | Some m \<Rightarrow>
                  pass_to_session env sl out i session
                    (on_message_from_app_interceptors (session_common session) m) (sm_info message) direction random token)
         | None \<Rightarrow> (Err (SessionNotFound (show_u32 i)), sl, out))"

text \<open>The configuration for a message of an unknown session, by the type of the message.\<close>

definition default_config_for :: "session_layer \<Rightarrow> session_header_type \<Rightarrow> session_config option" where
  "default_config_for sl session_type = (case session_type of
      Fnf \<Rightarrow> Some (FireAndForget_Config (sl_default_ff_conf sl))
    | FnfReliable \<Rightarrow> Some (FireAndForget_Config (sl_default_ff_conf sl))
    | FnfDiscovery \<Rightarrow> Some (FireAndForget_Config (sl_default_ff_conf sl))
    | Request \<Rightarrow> Some (RequestResponse_Config (sl_default_rr_conf sl))
    | StreamMsg \<Rightarrow> Some (Streaming_Config (sl_default_stream_conf sl))
    | BeaconStream \<Rightarrow> Some (Streaming_Config (sl_default_stream_conf sl))
    | _ \<Rightarrow> None)"

text \<open>
  The text that the protobuf library gives for a number that is no header type is left out of the
  error message.
\<close>

definition handle_message_from_slim ::
    "(u8 list \<Rightarrow> u64) \<Rightarrow> session_env \<Rightarrow> session_layer \<Rightarrow> session_out \<Rightarrow> session_message \<Rightarrow> message_direction \<Rightarrow> u32 \<Rightarrow> nat \<Rightarrow>
     layer_result" where
  "handle_message_from_slim xx env sl out message direction random token =
     (case get_session_header (sm_message message) of
        None \<Rightarrow> (None, sl, out)
      | Some header \<Rightarrow>
          (case header_type_try_from (se_header_type header) of
             None \<Rightarrow> (Err (ValidationError ''session type is not valid: ''), sl, out)
           | Some session_type \<Rightarrow>
               (let i = se_session_id header;
                    pass = (\<lambda>sl i session. pass_to_session env sl out i session
                      (on_message_from_slim_interceptors (session_common session) (sm_message message))
                      (sm_info message) direction random token)
                in case hm_get (=) i (sl_pool sl) of
                     Some session \<Rightarrow> pass sl i session
                   | None \<Rightarrow>
                       (case default_config_for sl session_type of
                          None \<Rightarrow> (Err (SessionUnknown (session_header_type_as_str_name session_type)), sl, out)
                        | Some conf \<Rightarrow>
                            (case create_session xx sl conf (Some i) (\<lambda>_. 0) token of
                               (None, sl) \<Rightarrow> (None, sl, out)
                             | (Some (Inl e), sl) \<Rightarrow> (Err e, sl, out)
                             | (Some (Inr new_session_id), sl) \<Rightarrow>
                                 (case hm_get (=) (in_id new_session_id) (sl_pool sl) of
                                    Some session \<Rightarrow> pass sl (in_id new_session_id) session
                                  | None \<Rightarrow> (None, sl, out)))))))"

definition handle_message ::
    "(u8 list \<Rightarrow> u64) \<Rightarrow> session_env \<Rightarrow> session_layer \<Rightarrow> session_out \<Rightarrow> session_message \<Rightarrow> message_direction \<Rightarrow> u32 \<Rightarrow> nat \<Rightarrow>
     layer_result" where
  "handle_message xx env sl out message direction random token =
     (case message_validate (sm_message message) of
        None \<Rightarrow> (None, sl, out)
      | Some (Inl e) \<Rightarrow> (Err (ValidationError (message_error_display e)), sl, out)
      | Some (Inr _) \<Rightarrow>
          (case is_publish (sm_message message) of
             None \<Rightarrow> (None, sl, out)
           | Some False \<Rightarrow> (Err (ValidationError ''message is not a publish''), sl, out)
           | Some True \<Rightarrow>
               (case direction of
                  North \<Rightarrow> handle_message_from_slim xx env sl out message direction random token
                | South \<Rightarrow> handle_message_from_app env sl out message direction random token)))"

section \<open>Configurations\<close>

definition sl_set_session_config ::
    "session_layer \<Rightarrow> session_config \<Rightarrow> u32 option \<Rightarrow> (session_error + unit) \<times> session_layer" where
  "sl_set_session_config sl session_config session_id = (case session_id of
      None \<Rightarrow>
        (case session_config of
           FireAndForget_Config _ \<Rightarrow>
             (case ff_config_replace (sl_default_ff_conf sl) session_config of
                Inl e \<Rightarrow> (Inl e, sl) | Inr c \<Rightarrow> (Inr (), sl\<lparr>sl_default_ff_conf := c\<rparr>))
         | RequestResponse_Config _ \<Rightarrow>
             (case rr_config_replace (sl_default_rr_conf sl) session_config of
                Inl e \<Rightarrow> (Inl e, sl) | Inr c \<Rightarrow> (Inr (), sl\<lparr>sl_default_rr_conf := c\<rparr>))
         | Streaming_Config _ \<Rightarrow>
             (case st_config_replace (sl_default_stream_conf sl) session_config of
                Inl e \<Rightarrow> (Inl e, sl) | Inr c \<Rightarrow> (Inr (), sl\<lparr>sl_default_stream_conf := c\<rparr>)))
    | Some i \<Rightarrow>
        (case hm_get (=) i (sl_pool sl) of
           Some session \<Rightarrow>
             (case session_set_session_config session session_config of
                (r, session) \<Rightarrow> (r, sl\<lparr>sl_pool := hm_insert (=) i session (sl_pool sl)\<rparr>))
         | None \<Rightarrow> (Inl (SessionNotFound (show_u32 i)), sl)))"

definition sl_get_session_config :: "session_layer \<Rightarrow> u32 \<Rightarrow> session_error + session_config" where
  "sl_get_session_config sl i = (case hm_get (=) i (sl_pool sl) of
      Some session \<Rightarrow> Inr (cm_session_config (session_common session))
    | None \<Rightarrow> Inl (SessionNotFound (show_u32 i)))"

definition sl_get_default_session_config :: "session_layer \<Rightarrow> session_type \<Rightarrow> session_error + session_config" where
  "sl_get_default_session_config sl t = (case t of
      FireAndForget_Type \<Rightarrow> Inr (FireAndForget_Config (sl_default_ff_conf sl))
    | RequestResponse_Type \<Rightarrow> Inr (RequestResponse_Config (sl_default_rr_conf sl))
    | Streaming_Type \<Rightarrow> Inr (Streaming_Config (sl_default_stream_conf sl)))"

definition sl_add_session_interceptor ::
    "session_layer \<Rightarrow> u32 \<Rightarrow> interceptor \<Rightarrow> (session_error + unit) \<times> session_layer" where
  "sl_add_session_interceptor sl i interceptor = (case hm_get (=) i (sl_pool sl) of
      Some session \<Rightarrow>
        (Inr (), sl\<lparr>sl_pool := hm_insert (=) i (session_add_interceptor session interceptor) (sl_pool sl)\<rparr>)
    | None \<Rightarrow> (Inl (SessionNotFound (show_u32 i)), sl))"

section \<open>Tasks of the sessions\<close>

text \<open>A session takes the next message of its channel.\<close>

definition session_turn ::
    "(u8 list \<Rightarrow> u64) \<Rightarrow> session_env \<Rightarrow> session \<Rightarrow> session_out \<Rightarrow> (nat \<Rightarrow> u32) \<Rightarrow> (nat \<Rightarrow> nat) \<Rightarrow> session \<times> session_out" where
  "session_turn xx env s out rnd tok = (case s of
      FireAndForget_Session fa \<Rightarrow> map_prod FireAndForget_Session id (fa_turn env fa out rnd tok)
    | RequestResponse_Session rq \<Rightarrow> (s, out)
    | Streaming_Session sg \<Rightarrow> map_prod Streaming_Session id (sg_turn xx env sg out tok))"

text \<open>
  A timer of a session fires: those of a fire-and-forget session write to its channel, the others
  act at once, a panic ending the timer or the task.
\<close>

datatype session_timer = Retry_Timer u32 u32 | Failure_Timer u32 u32 | Event_Timer st_event "nat \<Rightarrow> nat"

definition session_fire ::
    "(u8 list \<Rightarrow> u64) \<Rightarrow> session_env \<Rightarrow> session \<Rightarrow> session_out \<Rightarrow> session_timer \<Rightarrow> session \<times> session_out" where
  "session_fire xx env s out ev = (case s of
      FireAndForget_Session fa \<Rightarrow>
        (case ev of
           Retry_Timer m n \<Rightarrow>
             (FireAndForget_Session (if fa_open fa then fa\<lparr>fa_tx := fa_tx fa @ [TimerTimeout m n]\<rparr> else fa), out)
         | Failure_Timer m n \<Rightarrow>
             (FireAndForget_Session (if fa_open fa then fa\<lparr>fa_tx := fa_tx fa @ [TimerFailure m n]\<rparr> else fa), out)
         | Event_Timer _ _ \<Rightarrow> (s, out))
    | RequestResponse_Session rq \<Rightarrow>
        (case ev of
           Failure_Timer m n \<Rightarrow>
             (case rq_on_failure env rq out m of
                Some (rq, out) \<Rightarrow> (RequestResponse_Session rq, out) | None \<Rightarrow> (s, out))
         | _ \<Rightarrow> (s, out))
    | Streaming_Session sg \<Rightarrow>
        (case ev of
           Event_Timer e tok \<Rightarrow>
             (case stream_turn xx env (sg_conf sg) (sg_endpoint sg) out e tok of
                Some (ep, out) \<Rightarrow> (Streaming_Session (sg\<lparr>sg_endpoint := ep\<rparr>), out)
              | None \<Rightarrow> (Streaming_Session (sg\<lparr>sg_open := False, sg_tx := []\<rparr>), out))
         | _ \<Rightarrow> (s, out)))"

definition on_session ::
    "session_layer \<Rightarrow> session_out \<Rightarrow> u32 \<Rightarrow> (session \<Rightarrow> session_out \<Rightarrow> session \<times> session_out) \<Rightarrow> session_layer \<times> session_out" where
  "on_session sl out i f = (case hm_get (=) i (sl_pool sl) of
      None \<Rightarrow> (sl, out)
    | Some s \<Rightarrow> (case f s out of (s, out) \<Rightarrow> (sl\<lparr>sl_pool := hm_insert (=) i s (sl_pool sl)\<rparr>, out)))"

section \<open>Runs\<close>

datatype layer_op =
  Create session_config "u32 option" "nat \<Rightarrow> u32" nat
| Remove u32
| Handle session_message message_direction u32 nat
| Configure session_config "u32 option"
| Intercept u32 interceptor
| Take u32 "nat \<Rightarrow> u32" "nat \<Rightarrow> nat"
| Fire u32 session_timer

definition layer_exec ::
    "(u8 list \<Rightarrow> u64) \<Rightarrow> session_env \<Rightarrow> session_layer \<times> session_out \<Rightarrow> layer_op \<Rightarrow> session_layer \<times> session_out" where
  "layer_exec xx env st op = (case st of (sl, out) \<Rightarrow>
     (case op of
        Create conf i draw token \<Rightarrow> (snd (create_session xx sl conf i draw token), out)
      | Remove i \<Rightarrow> (snd (remove_session sl i), out)
      | Handle m d random token \<Rightarrow> snd (handle_message xx env sl out m d random token)
      | Configure conf i \<Rightarrow> (snd (sl_set_session_config sl conf i), out)
      | Intercept i ic \<Rightarrow> (snd (sl_add_session_interceptor sl i ic), out)
      | Take i rnd tok \<Rightarrow> on_session sl out i (\<lambda>s out. session_turn xx env s out rnd tok)
      | Fire i ev \<Rightarrow> on_session sl out i (\<lambda>s out. session_fire xx env s out ev)))"

text \<open>
  The identifiers \<open>random_range(SESSION_RANGE)\<close> draws lie in the range; the interceptors an
  application adds may have to be good ones.
\<close>

fun op_legal :: "(interceptor \<Rightarrow> bool) \<Rightarrow> layer_op \<Rightarrow> bool" where
  "op_legal good (Create conf i draw token) \<longleftrightarrow> (\<forall>k. SESSION_RANGE (draw k))"
| "op_legal good (Intercept i ic) \<longleftrightarrow> good ic"
| "op_legal good _ \<longleftrightarrow> True"

definition layer_run ::
    "(u8 list \<Rightarrow> u64) \<Rightarrow> session_env \<Rightarrow> agent \<Rightarrow> string option \<Rightarrow> u64 \<Rightarrow> layer_op list \<Rightarrow> session_layer \<times> session_out" where
  "layer_run xx env agent_name identity conn_id ops =
     foldl (layer_exec xx env) (session_layer_new agent_name identity conn_id, empty_out) ops"

section \<open>Well-typed sessions\<close>

definition session_type_of :: "session \<Rightarrow> session_type" where
  "session_type_of s = (case s of
      FireAndForget_Session _ \<Rightarrow> FireAndForget_Type
    | RequestResponse_Session _ \<Rightarrow> RequestResponse_Type
    | Streaming_Session _ \<Rightarrow> Streaming_Type)"

definition config_type :: "session_config \<Rightarrow> session_type" where
  "config_type c = (case c of
      FireAndForget_Config _ \<Rightarrow> FireAndForget_Type
    | RequestResponse_Config _ \<Rightarrow> RequestResponse_Type
    | Streaming_Config _ \<Rightarrow> Streaming_Type)"

definition config_direction :: "session_config \<Rightarrow> session_direction" where
  "config_direction c = (case c of Streaming_Config sc \<Rightarrow> st_direction sc | _ \<Rightarrow> Bidirectional)"

text \<open>What a session keeps of its creation.\<close>

definition session_ok :: "agent \<Rightarrow> string option \<Rightarrow> u32 \<Rightarrow> session \<Rightarrow> bool" where
  "session_ok a identity i s \<longleftrightarrow>
     cm_id (session_common s) = i \<and> cm_source (session_common s) = a \<and> cm_identity (session_common s) = identity \<and>
     config_type (cm_session_config (session_common s)) = session_type_of s \<and>
     config_direction (cm_session_config (session_common s)) = cm_session_direction (session_common s) \<and>
     (SESSION_RANGE i \<or> cm_session_direction (session_common s) = Bidirectional \<and> session_type_of s = Streaming_Type) \<and>
     (case s of
        FireAndForget_Session fa \<Rightarrow> fs_session_id (fa_state fa) = i \<and> fs_source (fa_state fa) = a
      | RequestResponse_Session rq \<Rightarrow> True
      | Streaming_Session sg \<Rightarrow>
          sc_session_id (sg_conf sg) = i \<and> sc_source (sg_conf sg) = a \<and>
          ep_direction (sg_endpoint sg) = cm_session_direction (sg_common sg))"

text \<open>The tasks of the sessions.\<close>

definition same_owner :: "fire_and_forget_state \<Rightarrow> fire_and_forget_state \<Rightarrow> bool" where
  "same_owner st st' \<longleftrightarrow> fs_session_id st' = fs_session_id st \<and> fs_source st' = fs_source st"

lemma same_owner_refl [simp]: "same_owner st st"
  by (simp add: same_owner_def)

lemma same_owner_trans: "same_owner st st1 \<Longrightarrow> same_owner st1 st2 \<Longrightarrow> same_owner st st2"
  by (simp add: same_owner_def)

lemma with_timer_owner [simp]: "same_owner st (with_timer st' k m t) \<longleftrightarrow> same_owner st st'"
  by (simp add: with_timer_def same_owner_def split: option.splits)

lemma ff_send_message_owner: "ff_send_message env st out m k t = Some (r, st', out') \<Longrightarrow> same_owner st st'"
  by (erule ff_send_message_cases) simp

lemma send_buffered_owner:
  "send_buffered env st out ms k rnd tok = Some (r, st', out') \<Longrightarrow> same_owner st st'"
proof (induction ms arbitrary: st out k)
  case (Cons m ms)
  then obtain r1 st1 out1 where s: "ff_send_message env st out m (rnd k) (tok k) = Some (r1, st1, out1)"
    and rest: "(case r1 of Inl e \<Rightarrow> Some (Inl e, st1, out1) | Inr _ \<Rightarrow> send_buffered env st1 out1 ms (k + 1) rnd tok) = Some (r, st', out')"
    by (auto simp: bind_eq_Some_conv)
  have "same_owner st1 st'" using rest Cons.IH by (cases r1) auto
  then show ?case using ff_send_message_owner [OF s] same_owner_trans by blast
qed simp

lemma discovery_owner:
  "handle_sticky_session_discovery env st out m k t = Some (r, st', out') \<Longrightarrow> same_owner st st'"
  by (auto simp: handle_sticky_session_discovery_def bind_eq_Some_conv Let_def same_owner_def
      dest!: ff_send_message_owner)

lemma discovery_reply_owner:
  assumes "handle_sticky_session_discovery_reply env st out m rnd tok = Some (r, st', out')"
  shows "same_owner st st'"
  using assms by (cases "fs_sticky_session_status st"; cases "fs_sticky_name st")
    (auto simp: handle_sticky_session_discovery_reply_def bind_eq_Some_conv Let_def same_owner_def
      dest!: send_buffered_owner)

lemma to_slim_owner:
  assumes "ff_handle_message_to_slim env st out m k t = Some (r, st', out')"
  shows "same_owner st st'"
proof -
  have start: "same_owner st st1" if "start_sticky_session_discovery env st out a = Some (r1, st1, out1)" for a r1 st1 out1
    using that start_discovery_spec [of env st out a] by (auto simp: same_owner_def)
  have add: "same_owner st (st1\<lparr>fs_sticky_buffer := b\<rparr>) \<longleftrightarrow> same_owner st st1" for st1 b
    by (simp add: same_owner_def)
  obtain msg where "get_session_header_mut (session_header_set_header_type
      (if ff_timeout (fs_config st) \<noteq> None then FnfReliable else Fnf)) (sm_message m) = Some msg"
    using assms by (auto simp: ff_handle_message_to_slim_def bind_eq_Some_conv)
  note e = assms [unfolded ff_handle_message_to_slim_def this, simplified]
  show ?thesis
  proof (cases "ff_sticky (fs_config st) \<and> fs_sticky_name st = None \<and> fs_sticky_session_status st = Uninitialized")
    case True
    then obtain a r1 st1 out1 where s: "start_sticky_session_discovery env st out a = Some (r1, st1, out1)"
      and r: "(case r1 of Inl e \<Rightarrow> Some (Inl e, st1, out1)
        | Inr _ \<Rightarrow> Some (Inr (), st1\<lparr>fs_sticky_buffer := fs_sticky_buffer st1 @ [msg]\<rparr>, out1)) = Some (r, st', out')"
      using e by (auto simp: bind_eq_Some_conv)
    then show ?thesis using start [OF s] by (cases r1) (auto simp: add)
  next
    case False
    then show ?thesis using e
      by (cases "fs_sticky_name st"; cases "fs_sticky_session_status st"; cases "ff_sticky (fs_config st)")
        (auto simp: bind_eq_Some_conv add dest: ff_send_message_owner)
  qed
qed

lemma to_app_owner:
  assumes "ff_handle_message_to_app env st out m rnd tok = Some (r, st', out')"
  shows "same_owner st st'"
proof -
  obtain mid mis where mid: "in_message_id (sm_info m) = Some mid" and mis: "ff_source_check st m = Some mis"
    using assms by (auto simp: ff_handle_message_to_app_def ff_source_check_def bind_eq_Some_conv)
  note e = assms [unfolded ff_handle_message_to_app_def, folded ff_source_check_def, simplified mid mis, simplified]
  have app: "st2 = st" if "ff_send_message_to_app env st out1 m = Some (r, st2, out2)" for st2 out1 out2
    using that by (simp add: ff_send_message_to_app_def case_prod_beta)
  have ack: "st' = st" if "(case x of (Inl e, out) \<Rightarrow> Some (Inl (SlimTransmission e), st, out)
      | (Inr _, out) \<Rightarrow> ff_send_message_to_app env st out m) = Some (r, st', out')" for x
    using that app by (cases x; cases "fst x") auto
  have stop: "same_owner st (snd (stop_and_remove_timer st mid))"
    by (simp add: stop_and_remove_timer_def same_owner_def split: option.splits)
  show ?thesis
  proof (cases mis)
    case None
    then obtain t where "msg_get_header_type (sm_message m) = Some t" using e by (auto simp: bind_eq_Some_conv)
    then show ?thesis using e None stop
      by (cases t) (auto simp: bind_eq_Some_conv Let_def case_prod_beta [where p = "stop_and_remove_timer st mid"]
          dest: discovery_owner discovery_reply_owner app ack)
  qed (use e in simp)
qed

lemma internal_owner: "process_internal env st out im rnd tok = Some (st', out') \<Longrightarrow> same_owner st st'"
  by (cases im)
    (auto simp: process_internal_def handle_timer_timeout_def handle_timer_failure_def bind_eq_Some_conv Let_def same_owner_def
      split: message_direction.splits option.splits dest!: to_app_owner to_slim_owner)

text \<open>What happens to one session.\<close>

lemma stream_turn_direction:
  assumes "stream_turn xx env sc ep out ev tok = Some (ep', out')"
  shows "ep_direction ep' = ep_direction ep"
  using assms by (cases ev; cases ep)
    (auto simp: stream_turn_def on_stream_message_def ep_direction_def bind_eq_Some_conv
      split: message_direction.splits if_splits)

lemma session_ok_turn:
  assumes "session_ok a identity i s"
  shows "session_ok a identity i (fst (session_turn xx env s out rnd tok))"
proof (cases s)
  case (FireAndForget_Session fa)
  then show ?thesis using assms
    by (cases "fa_tx fa"; cases "process_internal env (fa_state fa) out (hd (fa_tx fa)) rnd tok")
      (auto simp: session_turn_def fa_turn_def session_ok_def session_common_def session_type_of_def same_owner_def
        dest!: internal_owner)
next
  case (Streaming_Session sg)
  then show ?thesis using assms stream_turn_direction [of xx env "sg_conf sg" "sg_endpoint sg" out "St_Msg m d" for m d]
    by (cases "sg_tx sg") (auto simp: session_turn_def sg_turn_def session_ok_def session_common_def session_type_of_def
        stream_turn_def split: option.splits prod.splits)
qed (use assms in \<open>simp add: session_turn_def\<close>)

lemma session_ok_fire:
  assumes "session_ok a identity i s"
  shows "session_ok a identity i (fst (session_fire xx env s out ev))"
proof (cases s)
  case (Streaming_Session sg)
  then show ?thesis using assms
    by (auto simp: session_fire_def session_ok_def session_common_def session_type_of_def
        split: option.splits session_timer.splits dest!: stream_turn_direction)
next
  case (RequestResponse_Session rq)
  then show ?thesis using assms
    by (auto simp: session_fire_def session_ok_def session_common_def session_type_of_def rq_on_failure_def bind_eq_Some_conv Let_def
        split: option.splits session_timer.splits)
qed (use assms in \<open>auto simp: session_fire_def session_ok_def session_common_def session_type_of_def split: session_timer.splits\<close>)

lemma rq_on_message_common:
  assumes "rq_on_message env rq out m d random token = Some (r, rq', out')"
  shows "rq_common rq' = rq_common rq"
proof -
  have app: "rq_common rq' = rq_common rq1" if "to_app env rq1 out m1 = Some (r, rq', out')" for rq1 m1
    using that by (simp add: to_app_def case_prod_beta)
  have timer: "rq_common rq' = rq_common rq" if "send_message_with_timer env rq out m1 token = Some (r, rq', out')" for m1
    using that by (cases "send_slim env (sm_message m1) out"; cases "fst (send_slim env (sm_message m1) out)";
        cases "cm_session_config (rq_common rq)") (auto simp: send_message_with_timer_def start_message_with_timer_def
          store_timer_def bind_eq_Some_conv Let_def)
  show ?thesis
  proof (cases d)
    case North
    then show ?thesis using assms
      by (cases "in_session_header_type (sm_info m)")
        (auto simp: rq_on_message_def bind_eq_Some_conv Let_def split: option.splits dest: app)
  next
    case South
    then show ?thesis using assms
      by (cases "in_session_header_type (sm_info m)"; cases "in_message_id (sm_info m)")
        (auto simp: rq_on_message_def bind_eq_Some_conv Let_def case_prod_beta dest: timer)
  qed
qed

lemma session_ok_message:
  assumes "session_ok a identity i s" and "session_on_message env s out m d random token = Some (r, s', out')"
  shows "session_ok a identity i s'"
  using assms by (cases s)
    (auto simp: session_on_message_def ff_on_message_def sg_on_message_def session_ok_def session_common_def
      session_type_of_def bind_eq_Some_conv split: if_splits dest!: rq_on_message_common)

lemma common_config_keeps:
  assumes "common_set_session_config cm c = Inr cm'"
  shows "cm_id cm' = cm_id cm \<and> cm_source cm' = cm_source cm \<and> cm_identity cm' = cm_identity cm \<and>
    cm_session_direction cm' = cm_session_direction cm \<and> cm_interceptors cm' = cm_interceptors cm \<and> cm_session_config cm' = c \<and>
    config_type c = config_type (cm_session_config cm) \<and> config_direction c = config_direction (cm_session_config cm)"
  using assms by (auto simp: common_set_session_config_def ff_config_replace_def rr_config_replace_def st_config_replace_def
      config_type_def config_direction_def split: session_config.splits if_splits)

lemma session_ok_config:
  assumes "session_ok a identity i s"
  shows "session_ok a identity i (snd (session_set_session_config s c))"
proof (cases "common_set_session_config (session_common s) c")
  case (Inl e)
  then show ?thesis using assms
    by (cases s) (auto simp: session_set_session_config_def session_common_def ff_set_session_config_def)
next
  case (Inr cm)
  note keeps = common_config_keeps [OF Inr]
  show ?thesis using assms keeps Inr
    by (cases s) (auto simp: session_set_session_config_def session_common_def ff_set_session_config_def session_ok_def
        session_type_of_def config_type_def Let_def split: session_config.splits)
qed

lemma session_ok_interceptor:
  "session_ok a identity i s \<Longrightarrow> session_ok a identity i (session_add_interceptor s ic)"
  by (cases s) (auto simp: session_add_interceptor_def session_ok_def session_common_def session_type_of_def
      common_add_interceptor_def)

lemma session_ok_new:
  assumes "SESSION_RANGE i" and "session_new xx sl conf i token = (j, s)"
  shows "session_ok (sl_agent_name sl) (sl_identity sl) j s"
  using assms by (cases conf)
    (auto simp: session_new_def session_ok_def session_common_def session_type_of_def config_type_def config_direction_def fire_and_forget_new_def
      request_response_new_def streaming_new_def common_new_def Let_def endpoint_new_def ep_direction_def
      split: session_direction.splits if_splits)

section \<open>The pool\<close>

lemma SESSION_RANGE_zero: "SESSION_RANGE 0"
  by code_simp

text \<open>The drawing loop ends as soon as a free identifier is drawn, with the first one.\<close>

lemma draw_session_id_first:
  assumes "\<not> hm_contains (=) (draw (k + n)) pool" and "\<forall>j<n. hm_contains (=) (draw (k + j)) pool"
  shows "draw_session_id pool draw k = Some (draw (k + n))"
  using assms
proof (induction n arbitrary: k)
  case 0
  then show ?case by (subst draw_session_id.simps) simp
next
  case (Suc n)
  have "hm_contains (=) (draw k) pool" using Suc.prems(2) by (metis add_0_right zero_less_Suc)
  moreover have "draw_session_id pool draw (Suc k) = Some (draw (Suc k + n))"
    using Suc.prems by (intro Suc.IH) (auto simp: less_Suc_eq_0_disj)
  ultimately show ?case by (subst draw_session_id.simps) simp
qed

lemma draw_session_id_total:
  assumes "\<not> hm_contains (=) (draw n) pool"
  shows "\<exists>m\<le>n. draw_session_id pool draw 0 = Some (draw m) \<and> \<not> hm_contains (=) (draw m) pool"
proof -
  define m where "m = (LEAST m. \<not> hm_contains (=) (draw m) pool)"
  have m: "\<not> hm_contains (=) (draw m) pool" unfolding m_def by (rule LeastI) (rule assms)
  have "\<forall>j<m. hm_contains (=) (draw j) pool" unfolding m_def using not_less_Least by blast
  then have "draw_session_id pool draw 0 = Some (draw (0 + m))"
    by (intro draw_session_id_first) (simp_all add: m)
  moreover have "m \<le> n" unfolding m_def by (rule Least_le) (rule assms)
  ultimately show ?thesis using m by auto
qed

lemma draw_session_id_Some:
  assumes "draw_session_id pool draw k = Some i"
  shows "(\<exists>m. i = draw m) \<and> \<not> hm_contains (=) i pool"
proof (rule draw_session_id.raw_induct [OF _ assms])
  fix f pool draw k i
  assume "\<And>pool draw k i. f pool draw k = Some i \<Longrightarrow> (\<exists>m. i = draw m) \<and> \<not> hm_contains (=) i pool"
    and "(if hm_contains (=) (draw k) pool then f pool draw (Suc k) else Some (draw k)) = Some i"
  then show "(\<exists>m. i = draw m) \<and> \<not> hm_contains (=) i pool" by (auto split: if_splits)
qed

lemma choose_session_id_Inr:
  assumes "choose_session_id pool i draw = Some (Inr j)" and "\<forall>k. SESSION_RANGE (draw k)"
  shows "SESSION_RANGE j \<and> hm_get (=) j pool = None"
  using assms by (auto simp: choose_session_id_def hm_contains_def split: option.splits if_splits dest!: draw_session_id_Some)

text \<open>
  The contract between the layer and its sessions: a property of the session stored under an
  identifier that holds at creation and that everything a session can do keeps. The layer keeps it
  for all its sessions.
\<close>

locale session_contract =
  fixes good :: "interceptor \<Rightarrow> bool" and ok :: "u32 \<Rightarrow> session \<Rightarrow> bool" and xx :: "u8 list \<Rightarrow> u64" and env :: session_env
    and agent :: agent and identity :: "string option"
  assumes created: "SESSION_RANGE i \<Longrightarrow> session_new xx sl conf i token = (j, s) \<Longrightarrow> sl_agent_name sl = agent \<Longrightarrow>
      sl_identity sl = identity \<Longrightarrow> ok j s"
    and messaged: "ok i s \<Longrightarrow> session_on_message env s out m d random token = Some (r, s', out') \<Longrightarrow> ok i s'"
    and configured: "ok i s \<Longrightarrow> ok i (snd (session_set_session_config s c))"
    and intercepted: "good ic \<Longrightarrow> ok i s \<Longrightarrow> ok i (session_add_interceptor s ic)"
    and turned: "ok i s \<Longrightarrow> ok i (fst (session_turn xx env s out rnd tok))"
    and fired: "ok i s \<Longrightarrow> ok i (fst (session_fire xx env s out ev))"
begin

definition pool_ok :: "session_layer \<Rightarrow> bool" where
  "pool_ok sl \<longleftrightarrow> sl_agent_name sl = agent \<and> sl_identity sl = identity \<and>
     (\<forall>i s. hm_get (=) i (sl_pool sl) = Some s \<longrightarrow> ok i s)"

lemma pool_okD: "pool_ok sl \<Longrightarrow> hm_get (=) i (sl_pool sl) = Some s \<Longrightarrow> ok i s"
  by (simp add: pool_ok_def)

lemma pool_ok_put: "pool_ok sl \<Longrightarrow> ok i s \<Longrightarrow> pool_ok (sl\<lparr>sl_pool := hm_insert (=) i s (sl_pool sl)\<rparr>)"
  by (auto simp: pool_ok_def)

lemma pool_ok_create:
  assumes "pool_ok sl" and "\<forall>k. SESSION_RANGE (draw k)"
  shows "pool_ok (snd (create_session xx sl conf i draw token))"
proof (cases "choose_session_id (sl_pool sl) i draw")
  case (Some r)
  then show ?thesis
  proof (cases r)
    case (Inr j)
    obtain k s where n: "session_new xx sl conf j token = (k, s)" by fastforce
    have "ok k s" using created [OF _ n] choose_session_id_Inr assms Some Inr by (simp add: pool_ok_def)
    then show ?thesis using Some Inr n pool_ok_put [OF assms(1)] by (simp add: create_session_def Let_def)
  qed (use assms(1) in \<open>simp add: create_session_def\<close>)
qed (use assms(1) in \<open>simp add: create_session_def\<close>)

lemma pool_ok_pass:
  assumes "pool_ok sl" and "ok i s"
  shows "pool_ok (fst (snd (pass_to_session env sl out i s m inf0 d random token)))"
  using assms messaged pool_ok_put
  by (auto simp: pass_to_session_def split: sum.splits option.splits)

lemma pool_ok_from_slim:
  assumes "pool_ok sl"
  shows "pool_ok (fst (snd (handle_message_from_slim xx env sl out m d random token)))"
proof (cases "get_session_header (sm_message m)")
  case (Some h)
  have "pool_ok (snd (create_session xx sl conf (Some i) (\<lambda>_. 0) token))" for conf i
    using assms by (rule pool_ok_create) (simp add: SESSION_RANGE_zero)
  then have c: "pool_ok sl'" if "create_session xx sl conf (Some i) (\<lambda>_. 0) token = (r, sl')" for conf i r sl'
    using that by (metis snd_conv)
  show ?thesis using assms Some
    by (auto simp: handle_message_from_slim_def Let_def split: option.split prod.split sum.split
        intro!: pool_ok_pass intro: pool_okD c)
qed (use assms in \<open>simp add: handle_message_from_slim_def\<close>)

lemma pool_ok_handle:
  assumes "pool_ok sl"
  shows "pool_ok (fst (snd (handle_message xx env sl out m d random token)))"
proof -
  have "pool_ok (fst (snd (handle_message_from_app env sl out m South random token)))"
    using assms by (auto simp: handle_message_from_app_def Let_def split: option.split intro!: pool_ok_pass intro: pool_okD)
  then show ?thesis using assms pool_ok_from_slim
    by (auto simp: handle_message_def split: option.split sum.split message_direction.split bool.split)
qed

lemma pool_ok_configure: "pool_ok sl \<Longrightarrow> pool_ok (snd (sl_set_session_config sl conf i))"
  using configured
  by (cases i; cases conf)
    (auto simp: sl_set_session_config_def pool_ok_def case_prod_beta split: option.split sum.split)

lemma pool_ok_on_session:
  assumes "pool_ok sl" and "\<And>s out. ok i s \<Longrightarrow> ok i (fst (f s out))"
  shows "pool_ok (fst (on_session sl out i f))"
  using assms by (auto simp: on_session_def case_prod_beta split: option.split intro!: pool_ok_put dest: pool_okD)

lemma pool_ok_exec:
  assumes "pool_ok (fst st)" and "op_legal good op"
  shows "pool_ok (fst (layer_exec xx env st op))"
proof -
  obtain sl out where st: "st = (sl, out)" by fastforce
  have "pool_ok (snd (remove_session sl i))" for i using assms(1) st by (auto simp: remove_session_def pool_ok_def)
  moreover have "pool_ok (snd (sl_add_session_interceptor sl i ic))" if "good ic" for i ic
    using assms(1) st intercepted [OF that] by (auto simp: sl_add_session_interceptor_def pool_ok_def split: option.split)
  ultimately show ?thesis using assms st
    by (cases op) (auto simp: layer_exec_def intro!: pool_ok_create pool_ok_handle pool_ok_configure pool_ok_on_session turned fired)
qed

lemma pool_ok_run:
  assumes "list_all (op_legal good) ops"
  shows "pool_ok (fst (layer_run xx env agent identity conn ops))"
  using assms unfolding layer_run_def
proof (induction ops rule: rev_induct)
  case Nil
  then show ?case by (simp add: pool_ok_def session_layer_new_def)
qed (auto intro!: pool_ok_exec)

end

interpretation typed: session_contract "\<lambda>_. True" "session_ok agent identity" xx env agent identity for xx env agent identity
  using session_ok_new session_ok_message session_ok_config session_ok_interceptor session_ok_turn session_ok_fire
  by unfold_locales blast+

text \<open>Interceptors that leave a message its session header, and sessions that only have such interceptors.\<close>

definition keeps_header :: "interceptor \<Rightarrow> bool" where
  "keeps_header ic \<longleftrightarrow> (\<forall>m m'. on_msg_from_slim ic m = Inr m' \<longrightarrow> get_session_header m \<noteq> None \<longrightarrow> get_session_header m' \<noteq> None)"

definition intercept_ok :: "session \<Rightarrow> bool" where
  "intercept_ok s \<longleftrightarrow> list_all keeps_header (cm_interceptors (session_common s))"

lemma intercept_ok_new: "session_new xx sl conf i token = (j, s) \<Longrightarrow> intercept_ok s"
  by (cases conf) (auto simp: session_new_def session_common_def fire_and_forget_new_def request_response_new_def
      streaming_new_def common_new_def intercept_ok_def keeps_header_def identity_session_interceptor_def Let_def)

lemma intercept_ok_message:
  "intercept_ok s \<Longrightarrow> session_on_message env s out m d random token = Some (r, s', out') \<Longrightarrow> intercept_ok s'"
  by (cases s) (auto simp: session_on_message_def ff_on_message_def sg_on_message_def intercept_ok_def session_common_def
      bind_eq_Some_conv rq_on_message_common split: if_splits)

lemma intercept_ok_config: "intercept_ok s \<Longrightarrow> intercept_ok (snd (session_set_session_config s c))"
  by (cases s) (auto simp: session_set_session_config_def ff_set_session_config_def intercept_ok_def session_common_def Let_def
      dest!: common_config_keeps split: sum.split session_config.split)

lemma intercept_ok_tasks:
  assumes "intercept_ok s"
  shows "intercept_ok (fst (session_turn xx env s out rnd tok))" "intercept_ok (fst (session_fire xx env s out ev))"
proof -
  show "intercept_ok (fst (session_turn xx env s out rnd tok))"
    using assms by (cases s) (auto simp: session_turn_def fa_turn_def sg_turn_def intercept_ok_def session_common_def
        split: list.split option.split prod.split internal_message.split)
  show "intercept_ok (fst (session_fire xx env s out ev))"
    using assms by (cases s; cases ev) (auto simp: session_fire_def intercept_ok_def session_common_def rq_on_failure_def
        bind_eq_Some_conv Let_def split: option.split)
qed

lemma intercept_ok_interceptor: "keeps_header ic \<Longrightarrow> intercept_ok s \<Longrightarrow> intercept_ok (session_add_interceptor s ic)"
  by (cases s) (auto simp: intercept_ok_def session_add_interceptor_def session_common_def common_add_interceptor_def)

interpretation intercepted: session_contract keeps_header "\<lambda>_. intercept_ok" xx env agent identity for xx env agent identity
  using intercept_ok_new intercept_ok_message intercept_ok_config intercept_ok_interceptor intercept_ok_tasks
  by unfold_locales blast+

lemma intercepted_header:
  assumes "intercept_ok s" and "on_message_from_slim_interceptors (session_common s) m = Inr m'" and "get_session_header m \<noteq> None"
  shows "get_session_header m' \<noteq> None"
proof -
  have "get_session_header m' \<noteq> None" if "list_all keeps_header ics" "run_interceptors on_msg_from_slim ics m = Inr m'"
    "get_session_header m \<noteq> None" for ics m
    using that by (induction ics arbitrary: m) (auto simp: keeps_header_def split: sum.splits)
  then show ?thesis using assms by (simp add: intercept_ok_def on_message_from_slim_interceptors_def)
qed

section \<open>Messages from the network\<close>

text \<open>
  The direction of the default streaming configuration cannot be changed, so a session made for a
  message never gets the identifier of its topic.
\<close>

lemma default_direction_exec:
  assumes "st_direction (sl_default_stream_conf (fst st)) = Receiver"
  shows "st_direction (sl_default_stream_conf (fst (layer_exec xx env st op))) = Receiver"
proof -
  obtain sl out where st: "st = (sl, out)" by fastforce
  have c: "sl_default_stream_conf (snd (create_session xx sl conf i draw token)) = sl_default_stream_conf sl" for conf i draw token
    by (simp add: create_session_def Let_def split: option.split sum.split prod.split)
  have p: "sl_default_stream_conf (fst (snd (pass_to_session env sl1 out i s m inf0 d random token))) = sl_default_stream_conf sl1"
    for sl1 i s m inf0 d random token
    by (simp add: pass_to_session_def split: sum.split option.split prod.split)
  have c': "sl_default_stream_conf sl1 = sl_default_stream_conf sl" if "create_session xx sl conf i draw token = (r, sl1)"
    for conf i draw token r sl1 using that c by (metis snd_conv)
  have slim: "sl_default_stream_conf (fst (snd (handle_message_from_slim xx env sl out m d random token))) = sl_default_stream_conf sl"
    for m d random token
    by (auto simp: handle_message_from_slim_def Let_def p dest: c' split: option.split sum.split prod.split)
  have app: "sl_default_stream_conf (fst (snd (handle_message_from_app env sl out m d random token))) = sl_default_stream_conf sl"
    for m d random token
    by (simp add: handle_message_from_app_def Let_def p split: option.split)
  have h: "sl_default_stream_conf (fst (snd (handle_message xx env sl out m d random token))) = sl_default_stream_conf sl"
    for m d random token
    by (simp add: handle_message_def slim app split: option.split sum.split message_direction.split bool.split)
  show ?thesis using assms st
  proof (cases op)
    case (Configure conf i)
    then show ?thesis using assms st
      by (cases i; cases conf) (auto simp: layer_exec_def sl_set_session_config_def st_config_replace_def case_prod_beta
          split: option.split sum.split if_splits)
  qed (auto simp: layer_exec_def c h remove_session_def sl_add_session_interceptor_def on_session_def case_prod_beta
      split: option.split)
qed

lemma default_direction_run:
  "st_direction (sl_default_stream_conf (fst (layer_run xx env a identity conn ops))) = Receiver"
  unfolding layer_run_def
proof (induction ops rule: rev_induct)
  case Nil
  show ?case by (simp add: session_layer_new_def st_config_default_def)
qed (simp add: default_direction_exec)

text \<open>Sessions do not panic on what comes from the network.\<close>

lemma on_message_north:
  assumes "get_session_header (sm_message m) \<noteq> None"
  shows "\<exists>r s' out'. session_on_message env s out m North random token = Some (r, s', out') \<and>
    session_type_of s' = session_type_of s \<and> cm_session_config (session_common s') = cm_session_config (session_common s)"
proof (cases s)
  case (RequestResponse_Session rq)
  have "\<exists>r rq' out'. rq_on_message env rq out m North random token = Some (r, rq', out')"
    using assms by (cases "in_session_header_type (sm_info m)")
      (auto simp: rq_on_message_def to_app_def Let_def case_prod_beta split: option.split)
  then show ?thesis using RequestResponse_Session
    by (auto simp: session_on_message_def session_type_of_def session_common_def rq_on_message_common)
qed (auto simp: session_on_message_def ff_on_message_def sg_on_message_def session_type_of_def session_common_def)

lemma slim_interceptors_new:
  "session_new xx sl conf i token = (j, s) \<Longrightarrow> on_message_from_slim_interceptors (session_common s) m = Inr m"
  by (cases conf) (auto simp: session_new_def session_common_def fire_and_forget_new_def request_response_new_def
      streaming_new_def common_new_def on_message_from_slim_interceptors_def identity_session_interceptor_def Let_def)

text \<open>
  A session takes a message from the network: the message goes through the interceptors of the
  session, and what comes out is handled by the session, which gives the result, the new state of
  the session and what it sends. A message that an interceptor refuses does not reach the session.
\<close>

definition session_takes ::
    "session_env \<Rightarrow> u32 \<Rightarrow> nat \<Rightarrow> session_message \<Rightarrow> session \<times> session_out \<Rightarrow> session_error + unit \<Rightarrow> session \<times> session_out \<Rightarrow> bool" where
  "session_takes env random token m p r p' \<longleftrightarrow>
     (case on_message_from_slim_interceptors (session_common (fst p)) (sm_message m) of
        Inl e \<Rightarrow> r = Inl e \<and> p' = p
      | Inr m' \<Rightarrow> session_on_message env (fst p) (snd p) \<lparr>sm_message = m', sm_info = sm_info m\<rparr> North random token =
          Some (r, p'))"

lemma pass_existing:
  assumes "hm_get (=) i (sl_pool sl) = Some s"
    and "\<And>m'. on_message_from_slim_interceptors (session_common s) (sm_message m) = Inr m' \<Longrightarrow> get_session_header m' \<noteq> None"
  shows "\<exists>r sl' out' s'. pass_to_session env sl out i s (on_message_from_slim_interceptors (session_common s) (sm_message m))
      (sm_info m) North random token = (Some r, sl', out') \<and>
    (\<forall>j. j \<noteq> i \<longrightarrow> hm_get (=) j (sl_pool sl') = hm_get (=) j (sl_pool sl)) \<and>
    hm_get (=) i (sl_pool sl') = Some s' \<and> session_takes env random token m (s, out) r (s', out') \<and>
    session_type_of s' = session_type_of s"
proof (cases "on_message_from_slim_interceptors (session_common s) (sm_message m)")
  case (Inr m')
  then obtain r s' out' where "session_on_message env s out \<lparr>sm_message = m', sm_info = sm_info m\<rparr> North random token = Some (r, s', out')"
    and "session_type_of s' = session_type_of s"
    using on_message_north [of "\<lparr>sm_message = m', sm_info = sm_info m\<rparr>"] assms(2) by fastforce
  then show ?thesis using Inr by (auto simp: pass_to_session_def session_takes_def)
qed (use assms(1) in \<open>auto simp: pass_to_session_def session_takes_def\<close>)

lemma new_session_takes:
  assumes "session_new xx sl conf i token = (j, s)" and "default_config_for sl t = Some conf"
    and "get_session_header (sm_message m) \<noteq> None" "in_session_header_type (sm_info m) = t" and "se_app_open env"
  shows "\<exists>s' out'. session_on_message env s out m North random token = Some (Inr (), s', out') \<and>
    session_type_of s' = config_type conf \<and> cm_session_config (session_common s') = conf"
proof (cases conf)
  case (RequestResponse_Config c)
  then have t: "t = Request" using assms(2) by (simp add: default_config_for_def split: session_header_type.splits)
  have s: "s = RequestResponse_Session (request_response_new i c Bidirectional (sl_agent_name sl) (sl_identity sl))"
    using assms(1) RequestResponse_Config by (auto simp: session_new_def)
  show ?thesis using assms(3-5) t RequestResponse_Config
    by (auto simp: s session_on_message_def rq_on_message_def to_app_def send_app_def session_type_of_def config_type_def
        session_common_def request_response_new_def common_new_def)
qed (use assms(1) in \<open>auto simp: session_new_def session_on_message_def ff_on_message_def sg_on_message_def
    fire_and_forget_new_def streaming_new_def common_new_def session_type_of_def config_type_def session_common_def Let_def\<close>)

text \<open>
  Where a message with session header \<open>h\<close> goes: to the session it names, to a new session with the
  default configuration of its kind, or nowhere.
\<close>

definition routed ::
    "(u8 list \<Rightarrow> u64) \<Rightarrow> session_env \<Rightarrow> u32 \<Rightarrow> nat \<Rightarrow> session_message \<Rightarrow> session_header \<Rightarrow>
     session_layer \<times> session_out \<Rightarrow> session_error + unit \<Rightarrow> session_layer \<times> session_out \<Rightarrow> bool" where
  "routed xx env random token m h p r p' \<longleftrightarrow> (let i = se_session_id h; sl = fst p; sl' = fst p' in
     (\<forall>j. j \<noteq> i \<longrightarrow> hm_get (=) j (sl_pool sl') = hm_get (=) j (sl_pool sl)) \<and>
     (case header_type_try_from (se_header_type h) of
        None \<Rightarrow> r \<noteq> Inr () \<and> p' = p
      | Some t \<Rightarrow>
          (case hm_get (=) i (sl_pool sl) of
             Some s \<Rightarrow> \<exists>s'. hm_get (=) i (sl_pool sl') = Some s' \<and> session_type_of s' = session_type_of s \<and>
               session_takes env random token m (s, snd p) r (s', snd p')
           | None \<Rightarrow>
               (case default_config_for sl t of
                  Some conf \<Rightarrow>
                    if SESSION_RANGE i
                    then r = Inr () \<and> (\<exists>s s'. session_new xx sl conf i token = (i, s) \<and> hm_get (=) i (sl_pool sl') = Some s' \<and>
                           session_takes env random token m (s, snd p) r (s', snd p') \<and>
                           session_type_of s' = config_type conf \<and> cm_session_config (session_common s') = conf)
                    else r = Inl (InvalidSessionId (show_u32 i)) \<and> p' = p
                | None \<Rightarrow> r = Inl (SessionUnknown (session_header_type_as_str_name t)) \<and> p' = p))))"

lemma header_type_try_from_Some: "header_type_try_from w = Some t \<Longrightarrow> header_type_of_i32 w = t"
  by (simp add: header_type_try_from_def split: if_splits)

lemma from_slim_new:
  assumes "default_config_for sl t = Some conf" and "SESSION_RANGE i" and "hm_get (=) i (sl_pool sl) = None"
    and "st_direction (sl_default_stream_conf sl) = Receiver"
  obtains s where "session_new xx sl conf i token = (i, s)"
    "create_session xx sl conf (Some i) draw token = (Ok (info_new i), sl\<lparr>sl_pool := hm_insert (=) i s (sl_pool sl)\<rparr>)"
proof -
  have "fst (session_new xx sl conf i token) = i"
    using assms(1,4) by (auto simp: default_config_for_def session_new_def Let_def split: session_header_type.splits)
  then obtain s where s: "session_new xx sl conf i token = (i, s)" by (metis prod.collapse)
  then show ?thesis using that assms(2,3) by (auto simp: create_session_def choose_session_id_def hm_contains_def Let_def)
qed

lemma from_slim_routed:
  assumes dir: "st_direction (sl_default_stream_conf sl) = Receiver" and h: "get_session_header (sm_message m) = Some h"
    and inf0: "info_from_message (sm_message m) = Some (sm_info m)" and app: "se_app_open env"
    and ic: "\<And>s. hm_get (=) (se_session_id h) (sl_pool sl) = Some s \<Longrightarrow> intercept_ok s"
  shows "\<exists>r sl' out'. handle_message_from_slim xx env sl out m North random token = (Some r, sl', out') \<and>
    routed xx env random token m h (sl, out) r (sl', out')"
proof (cases "header_type_try_from (se_header_type h)")
  case None
  then show ?thesis using h by (auto simp: handle_message_from_slim_def routed_def Let_def split: option.split)
next
  case (Some t)
  let ?i = "se_session_id h"
  note unf = handle_message_from_slim_def h Some option.case Let_def
  show ?thesis
  proof (cases "hm_get (=) ?i (sl_pool sl)")
    case s: (Some s)
    have "get_session_header m' \<noteq> None" if "on_message_from_slim_interceptors (session_common s) (sm_message m) = Inr m'" for m'
      using intercepted_header [OF ic [OF s] that] h by simp
    then show ?thesis
      using pass_existing [OF s, of m env out random token] s Some by (auto simp: unf routed_def)
  next
    case new: None
    show ?thesis
    proof (cases "default_config_for sl t")
      case None
      then show ?thesis using new Some by (auto simp: unf routed_def)
    next
      case conf: (Some conf)
      show ?thesis
      proof (cases "SESSION_RANGE ?i")
        case True
        obtain s where s: "session_new xx sl conf ?i token = (?i, s)"
          "create_session xx sl conf (Some ?i) (\<lambda>_. 0) token = (Ok (info_new ?i), sl\<lparr>sl_pool := hm_insert (=) ?i s (sl_pool sl)\<rparr>)"
          by (rule from_slim_new [OF conf True new dir])
        have "in_session_header_type (sm_info m) = t"
          using inf0 h header_type_try_from_Some [OF Some] by (auto elim!: info_from_messageD)
        then obtain s' out' where s': "session_on_message env s out m North random token = Some (Inr (), s', out')"
          "session_type_of s' = config_type conf" "cm_session_config (session_common s') = conf"
          using new_session_takes [OF s(1) conf _ _ app] h by blast
        have eta: "\<lparr>sm_message = sm_message m, sm_info = sm_info m\<rparr> = m" by simp
        have s1: "session_on_message env s out \<lparr>sm_message = sm_message m, sm_info = sm_info m\<rparr> North random token =
            Some (Inr (), s', out')"
          unfolding eta by (rule s'(1))
        have "handle_message_from_slim xx env sl out m North random token =
            (Ok (), sl\<lparr>sl_pool := hm_insert (=) ?i s' (sl_pool sl)\<rparr>, out')"
          by (simp add: unf new conf s pass_to_session_def info_new_def slim_interceptors_new [OF s(1)] s1)
        moreover have "session_takes env random token m (s, out) (Inr ()) (s', out')"
          using slim_interceptors_new [OF s(1)] s1 by (simp add: session_takes_def)
        ultimately show ?thesis using new conf True Some s'(2,3) s(1) by (simp add: routed_def)
      next
        case False
        then show ?thesis using new conf Some by (auto simp: unf routed_def create_session_def choose_session_id_def)
      qed
    qed
  qed
qed

section \<open>Properties\<close>

text \<open>
  C34: whatever the application, the network and the timers do, panics included, every session of an
  agent keeps what it was created as: its identifier is the one it is stored under and the one it
  puts into its messages, it speaks for the agent with the agent's identity, its configuration is one
  for its kind of session and has the direction of its endpoint. Identifiers lie in the session range,
  those of bidirectional streaming sessions apart.
\<close>

theorem sessions_keep_their_type:
  assumes "list_all (op_legal (\<lambda>_. True)) ops"
    and "hm_get (=) i (sl_pool (fst (layer_run xx env agent identity conn ops))) = Some s"
  shows "session_ok agent identity i s"
  using typed.pool_ok_run [OF assms(1)] typed.pool_okD [OF _ assms(2)] by blast

text \<open>
  C33: no message from the network makes the layer panic, and it touches one session only, the one it
  names. An existing session takes the message: it handles what its interceptors make of it, the
  layer reports the result of the session, and the session keeps its kind. For an unknown one the
  layer makes a session of the kind the message needs, with the default configuration, and this
  session takes the message; a message of an invalid type, one that cannot start a session, and one
  whose identifier is out of range are refused and change nothing. The message carries the
  information read from it, the interceptors added by the application are assumed to leave the
  session header, and the application listens.
\<close>

theorem network_message_routed:
  assumes "list_all (op_legal keeps_header) ops" and "layer_run xx env agent identity conn ops = (sl, out)"
    and "message_validate (sm_message m) = Ok ()" "is_publish (sm_message m) = Some True"
    and "info_from_message (sm_message m) = Some (sm_info m)" "get_session_header (sm_message m) = Some h"
    and "se_app_open env"
  shows "\<exists>r sl' out'. handle_message xx env sl out m North random token = (Some r, sl', out') \<and>
    routed xx env random token m h (sl, out) r (sl', out')"
proof -
  have sl: "sl = fst (layer_run xx env agent identity conn ops)" using assms(2) by simp
  have dir: "st_direction (sl_default_stream_conf sl) = Receiver" unfolding sl by (rule default_direction_run)
  have ic: "intercept_ok s" if "hm_get (=) (se_session_id h) (sl_pool sl) = Some s" for s
    using intercepted.pool_ok_run [OF assms(1)] intercepted.pool_okD [OF _ that [unfolded sl]] by blast
  have "handle_message xx env sl out m North random token = handle_message_from_slim xx env sl out m North random token"
    using assms(3,4) by (simp add: handle_message_def)
  then show ?thesis using from_slim_routed [OF dir assms(6,5,7) ic] by metis
qed

text \<open>
  C35: a second bidirectional streaming session on the topic of an existing one is not refused: its
  identifier is computed from the topic and not checked, so the new session replaces the old one,
  with everything the old one held, and then the call panics.
\<close>

theorem second_topic_session_panics:
  assumes "st_direction conf = Bidirectional" and "hm_get (=) (topic_session_id xx (st_topic conf)) (sl_pool sl) = Some s"
    and "hm_get (=) (draw n) (sl_pool sl) = None"
  shows "\<exists>sl'. create_session xx sl (Streaming_Config conf) None draw token = (None, sl') \<and>
    hm_get (=) (topic_session_id xx (st_topic conf)) (sl_pool sl') =
      Some (Streaming_Session (streaming_new (topic_session_id xx (st_topic conf)) conf Bidirectional
        (sl_agent_name sl) (sl_identity sl) token))"
proof -
  obtain k where "draw_session_id (sl_pool sl) draw 0 = Some (draw k)"
    using draw_session_id_total [of draw n "sl_pool sl"] assms(3) by (auto simp: hm_contains_def)
  then show ?thesis using assms(1,2) by (simp add: create_session_def choose_session_id_def session_new_def Let_def)
qed

section \<open>Examples\<close>

definition demo_agent :: agent where
  "demo_agent = \<lparr>ag_type = agent_type_default, ag_id = 1\<rparr>"

definition demo_network_message :: session_message where
  "demo_network_message = (let m = new_publish_with_headers (Some (slim_header_new demo_agent agent_type_default (Some 2) None))
       (Some (session_header_new (i32_of_header_type Fnf) 7 3)) '''' [1]
     in \<lparr>sm_message = m, sm_info = the (info_from_message m)\<rparr>)"

lemma demo_network_message_facts:
  "message_validate (sm_message demo_network_message) = Ok ()"
  "is_publish (sm_message demo_network_message) = Some True"
  "info_from_message (sm_message demo_network_message) = Some (sm_info demo_network_message)"
  "get_session_header (sm_message demo_network_message) = Some (session_header_new (i32_of_header_type Fnf) 7 3)"
  by code_simp+

theorem sessions_keep_their_type_witness:
  "session_ok demo_agent None 7
     (FireAndForget_Session (fire_and_forget_new 7 ff_config_default Bidirectional demo_agent None))"
proof (rule sessions_keep_their_type)
  let ?ops = "[Create (FireAndForget_Config ff_config_default) (Some 7) (\<lambda>_. 0) 0]"
  show "list_all (op_legal (\<lambda>_. True)) ?ops" by (simp add: SESSION_RANGE_zero)
  have "SESSION_RANGE 7" by code_simp
  then show "hm_get (=) 7 (sl_pool (fst (layer_run (\<lambda>_. 0) open_env demo_agent None 0 ?ops))) =
      Some (FireAndForget_Session (fire_and_forget_new 7 ff_config_default Bidirectional demo_agent None))"
    by (simp add: layer_run_def layer_exec_def create_session_def choose_session_id_def session_layer_new_def hm_contains_def
        session_new_def Let_def)
qed

text \<open>The message makes a session, and once that exists, goes to it.\<close>

theorem network_message_routed_witness:
  "\<exists>r sl out r' sl' out'.
     handle_message (\<lambda>_. 0) open_env (session_layer_new demo_agent None 0) empty_out demo_network_message North 0 0 = (Some r, sl, out) \<and>
     routed (\<lambda>_. 0) open_env 0 0 demo_network_message (session_header_new (i32_of_header_type Fnf) 7 3)
       (session_layer_new demo_agent None 0, empty_out) r (sl, out) \<and>
     handle_message (\<lambda>_. 0) open_env sl out demo_network_message North 0 0 = (Some r', sl', out') \<and>
     routed (\<lambda>_. 0) open_env 0 0 demo_network_message (session_header_new (i32_of_header_type Fnf) 7 3) (sl, out) r' (sl', out')"
proof -
  note hyps = demo_network_message_facts
  have new: "layer_run (\<lambda>_. 0) open_env demo_agent None 0 [] = (session_layer_new demo_agent None 0, empty_out)"
    by (simp add: layer_run_def)
  obtain r sl out where 1: "handle_message (\<lambda>_. 0) open_env (session_layer_new demo_agent None 0) empty_out demo_network_message North 0 0 =
      (Some r, sl, out)" "routed (\<lambda>_. 0) open_env 0 0 demo_network_message (session_header_new (i32_of_header_type Fnf) 7 3)
       (session_layer_new demo_agent None 0, empty_out) r (sl, out)"
    using network_message_routed [OF _ new hyps, of 0 0] by (auto simp: open_env_def)
  let ?op = "Handle demo_network_message North 0 0"
  have run: "layer_run (\<lambda>_. 0) open_env demo_agent None 0 [?op] = (sl, out)"
    using 1(1) new by (simp add: layer_run_def layer_exec_def)
  then show ?thesis using 1 network_message_routed [OF _ run hyps, of 0 0] by (auto simp: open_env_def)
qed

definition demo_topic_conf :: streaming_configuration where
  "demo_topic_conf = st_config_new Bidirectional None None None"

definition demo_topic_layer :: session_layer where
  "demo_topic_layer = (session_layer_new demo_agent None 0)\<lparr>sl_pool :=
     [(5, Streaming_Session (streaming_new 5 demo_topic_conf Bidirectional demo_agent None 0))]\<rparr>"

lemma demo_topic_id: "topic_session_id (\<lambda>_. 5) (st_topic demo_topic_conf) = 5"
  by (simp add: topic_session_id_def calculate_type_hash_def)

theorem second_topic_session_panics_witness:
  "\<exists>sl'. create_session (\<lambda>_. 5) demo_topic_layer (Streaming_Config demo_topic_conf) None (\<lambda>_. 9) 1 = (None, sl') \<and>
    hm_get (=) 5 (sl_pool sl') = Some (Streaming_Session (streaming_new 5 demo_topic_conf Bidirectional demo_agent None 1))"
  using second_topic_session_panics [of demo_topic_conf "\<lambda>_. 5" demo_topic_layer
      "Streaming_Session (streaming_new 5 demo_topic_conf Bidirectional demo_agent None 0)" "\<lambda>_. 9" 0 1]
  by (simp add: demo_topic_id demo_topic_layer_def session_layer_new_def) (simp add: demo_topic_conf_def st_config_new_def)

end
