(* ===== verification/Service.thy ===== *)
theory Service
  imports Message_Processing Session_Layer
begin

text \<open>
  The service of \<^verbatim>\<open>service/src/lib.rs\<close>: local agents with their session layers on top of one
  message processor, and the calls an application makes. A local agent is kept with what its layer
  has written to its two channels. The outcomes of building gRPC servers and channels from a
  configuration and of connection attempts are part of the configurations; the other arguments that
  stand for random numbers, hashes and new channels are those of the components below.
\<close>

section \<open>State\<close>

datatype service_error =
  Sv_ConfigError string
| AgentAlreadyRegistered
| AgentNotFound string
| Sv_ConnectionError string
| Sv_DisconnectError string
| Sv_SubscriptionError string
| Sv_UnsubscriptionError string
| SetRouteError string
| RemoveRouteError string
| PublishError string
| ReceiveError string
| Sv_SessionNotFound string
| SessionError string
| ClientAlreadyConnected string
| ServerNotFound string
| MessageSendingError string
| Unknown_Error

definition service_error_display :: "service_error \<Rightarrow> string" where
  "service_error_display e = (case e of
      Sv_ConfigError s \<Rightarrow> ''configuration error '' @ s
    | AgentAlreadyRegistered \<Rightarrow> ''agent already registered''
    | AgentNotFound s \<Rightarrow> ''agent not found: '' @ s
    | Sv_ConnectionError s \<Rightarrow> ''connection error: '' @ s
    | Sv_DisconnectError s \<Rightarrow> ''disconnect error: '' @ s
    | Sv_SubscriptionError s \<Rightarrow> ''error sending subscription: '' @ s
    | Sv_UnsubscriptionError s \<Rightarrow> ''error sending unsubscription: '' @ s
    | SetRouteError s \<Rightarrow> ''error on set route: '' @ s
    | RemoveRouteError s \<Rightarrow> ''error on remove route: '' @ s
    | PublishError s \<Rightarrow> ''error publishing message: '' @ s
    | ReceiveError s \<Rightarrow> ''error receiving message: '' @ s
    | Sv_SessionNotFound s \<Rightarrow> ''session not found: '' @ s
    | SessionError s \<Rightarrow> ''error in session: '' @ s
    | ClientAlreadyConnected s \<Rightarrow> ''client already connected: '' @ s
    | ServerNotFound s \<Rightarrow> ''server not found: '' @ s
    | MessageSendingError s \<Rightarrow> ''error sendinfg message: '' @ s
    | Unknown_Error \<Rightarrow> ''unknown error'')"

record server_config =
  sc_endpoint :: string
  sc_server_future :: "string + unit"

record client_config =
  cc_endpoint :: string
  cc_channel :: "string + unit"
  cc_attempts :: "nat \<Rightarrow> (nat \<times> nat) option"

record controller_client =
  ct_channel :: "string + unit"
  ct_connected :: bool

record service_configuration =
  sf_servers :: "server_config list"
  sf_clients :: "client_config list"
  sf_controller_server :: "server_config option"
  sf_controller_client :: "controller_client option"

definition service_configuration_new :: service_configuration where
  "service_configuration_new = \<lparr>sf_servers = [], sf_clients = [], sf_controller_server = None, sf_controller_client = None\<rparr>"

definition with_server :: "service_configuration \<Rightarrow> server_config list \<Rightarrow> service_configuration" where
  "with_server self servers = self\<lparr>sf_servers := servers\<rparr>"

definition with_client :: "service_configuration \<Rightarrow> client_config list \<Rightarrow> service_configuration" where
  "with_client self clients = self\<lparr>sf_clients := clients\<rparr>"

record local_agent =
  la_layer :: session_layer
  la_out :: session_out

record 'b service =
  sv_message_processor :: "'b processor"
  sv_config :: service_configuration
  sv_session_layers :: "(agent, local_agent) hmap"
  sv_cancellation_tokens :: "(string, nat) hmap"
  sv_cancelled :: "nat list"
  sv_clients :: "(string, u64) hmap"

definition service_new :: "'b bitvec_ops \<Rightarrow> 'b service" where
  "service_new BV = \<lparr>sv_message_processor = processor_new BV, sv_config = service_configuration_new, sv_session_layers = [],
     sv_cancellation_tokens = [], sv_cancelled = [], sv_clients = []\<rparr>"

definition with_config :: "'b service \<Rightarrow> service_configuration \<Rightarrow> 'b service" where
  "with_config self config = self\<lparr>sv_config := config\<rparr>"

definition with_message_processor :: "'b service \<Rightarrow> 'b processor \<Rightarrow> 'b service" where
  "with_message_processor self message_processor = self\<lparr>sv_message_processor := message_processor\<rparr>"

definition build_server :: "'b bitvec_ops \<Rightarrow> service_configuration \<Rightarrow> 'b service" where
  "build_server BV config = with_config (service_new BV) config"

section \<open>Agents\<close>

text \<open>
  Registering an agent; \<open>tx2\<close> and \<open>token\<close> are the channel and the token of its local
  connection.
\<close>

definition create_agent ::
    "'b bitvec_ops \<Rightarrow> 'b service \<Rightarrow> agent \<Rightarrow> nat \<Rightarrow> nat \<Rightarrow> ((service_error + unit) \<times> 'b service) option" where
  "create_agent BV sv agent_name tx2 token =
     (if hm_contains agent_eq agent_name (sv_session_layers sv) then Some (Inl AgentAlreadyRegistered, sv)
      else do {
        (conn_id, st) \<leftarrow> register_local_connection BV (sv_message_processor sv) tx2 token;
        let session_layer = session_layer_new agent_name (Some (agent_display agent_name)) conn_id;
        Some (Inr (), sv\<lparr>sv_message_processor := st, sv_session_layers := hm_insert agent_eq agent_name
          \<lparr>la_layer = session_layer, la_out = empty_out\<rparr> (sv_session_layers sv)\<rparr>)
      })"

definition delete_agent :: "'b service \<Rightarrow> agent \<Rightarrow> (service_error + unit) \<times> 'b service" where
  "delete_agent sv agent_name =
     (case hm_get agent_eq agent_name (sv_session_layers sv) of
        None \<Rightarrow> (Inl (AgentNotFound (agent_display agent_name)), sv)
      | Some la \<Rightarrow>
          (let sv = sv\<lparr>sv_session_layers := hm_remove agent_eq agent_name (sv_session_layers sv)\<rparr>
           in case mp_disconnect (sv_message_processor sv) (sl_conn_id (la_layer la)) of
                (r, st) \<Rightarrow> (map_sum (\<lambda>e. Sv_DisconnectError (data_path_error_display e)) id r,
                  sv\<lparr>sv_message_processor := st\<rparr>)))"

text \<open>
  The task of an agent: it subscribes the agent's name and then hands every message from the data
  path to the session layer. \<open>show_status\<close> prints a gRPC status.
\<close>

definition process_messages_start :: "session_env \<Rightarrow> local_agent \<Rightarrow> local_agent option" where
  "process_messages_start env la = do {
     let agent = sl_agent_name (la_layer la);
     subscribe_msg \<leftarrow> new_subscribe agent (ag_type agent) (Some (ag_id agent)) None;
     case send_slim env subscribe_msg (la_out la) of
       (Inr _, out) \<Rightarrow> Some (la\<lparr>la_out := out\<rparr>)
     | (Inl _, _) \<Rightarrow> None
   }"

definition process_messages_step ::
    "(data_path_error \<Rightarrow> string) \<Rightarrow> (u8 list \<Rightarrow> u64) \<Rightarrow> session_env \<Rightarrow> local_agent \<Rightarrow> wire_item \<Rightarrow> u32 \<Rightarrow> nat \<Rightarrow> local_agent option" where
  "process_messages_step show_status xx env la item random token = (case item of
      Item msg \<Rightarrow>
        (case msg_type msg of
           Some (Publish _) \<Rightarrow> do {
             message \<leftarrow> session_message_from msg;
             case handle_message xx env (la_layer la) (la_out la) message North random token of
               (res, layer, out) \<Rightarrow> do { _ \<leftarrow> res; Some \<lparr>la_layer = layer, la_out = out\<rparr> }
           }
         | _ \<Rightarrow> Some la)
    | Item_Status e \<Rightarrow>
        (case send_app env (Inl (Forward (show_status e))) (la_out la) of
           (Inr _, out) \<Rightarrow> Some (la\<lparr>la_out := out\<rparr>)
         | (Inl _, _) \<Rightarrow> None))"

definition with_session_layer ::
    "'b service \<Rightarrow> agent \<Rightarrow> (local_agent \<Rightarrow> (service_error, 'a) rust \<times> local_agent) \<Rightarrow> (service_error, 'a) rust \<times> 'b service" where
  "with_session_layer sv agent f =
     (case hm_get agent_eq agent (sv_session_layers sv) of
        None \<Rightarrow> (Err (AgentNotFound (agent_display agent)), sv)
      | Some la \<Rightarrow>
          (case f la of
             (r, la) \<Rightarrow> (r, sv\<lparr>sv_session_layers := hm_insert agent_eq agent la (sv_session_layers sv)\<rparr>)))"

section \<open>Sending\<close>

definition as_session_error :: "(session_error, 'a) rust \<Rightarrow> (service_error, 'a) rust" where
  "as_session_error = map_option (map_sum (\<lambda>e. SessionError (session_error_display e)) id)"

text \<open>
  A message goes to a session of the agent, or straight to the data path when there is no session.
\<close>

definition sv_send_message ::
    "(u8 list \<Rightarrow> u64) \<Rightarrow> session_env \<Rightarrow> 'b service \<Rightarrow> agent \<Rightarrow> message \<Rightarrow> info option \<Rightarrow> u32 \<Rightarrow> nat \<Rightarrow>
     (service_error, unit) rust \<times> 'b service" where
  "sv_send_message xx env sv agent msg session_info random token =
     with_session_layer sv agent (\<lambda>la. case session_info of
         Some session_info \<Rightarrow>
           (case handle_message xx env (la_layer la) (la_out la) \<lparr>sm_message = msg, sm_info = session_info\<rparr> South random token of
              (r, layer, out) \<Rightarrow>
                (as_session_error r, \<lparr>la_layer = layer, la_out = out\<rparr>))
       | None \<Rightarrow>
           (case send_slim env msg (la_out la) of
              (r, out) \<Rightarrow> (Some (map_sum MessageSendingError id r), la\<lparr>la_out := out\<rparr>)))"

text \<open>Sending a subscription, where building the message may panic.\<close>

definition sv_send_subscribe ::
    "(u8 list \<Rightarrow> u64) \<Rightarrow> session_env \<Rightarrow> 'b service \<Rightarrow> agent \<Rightarrow> agent_type \<Rightarrow> u64 option \<Rightarrow> slim_header_flags \<Rightarrow>
     (service_error, unit) rust \<times> 'b service" where
  "sv_send_subscribe xx env sv local_agent agent_type agent_id flags =
     (case new_subscribe local_agent agent_type agent_id (Some flags) of
        None \<Rightarrow> (None, sv)
      | Some msg \<Rightarrow> sv_send_message xx env sv local_agent msg None 0 0)"

definition forward_flags :: "u64 option \<Rightarrow> slim_header_flags" where
  "forward_flags conn = (case conn of Some c \<Rightarrow> with_forward_to flags_default c | None \<Rightarrow> flags_default)"

definition sv_subscribe ::
    "(u8 list \<Rightarrow> u64) \<Rightarrow> session_env \<Rightarrow> 'b service \<Rightarrow> agent \<Rightarrow> agent_type \<Rightarrow> u64 option \<Rightarrow> u64 option \<Rightarrow>
     (service_error, unit) rust \<times> 'b service" where
  "sv_subscribe xx env sv local_agent agent_type agent_id conn =
     sv_send_subscribe xx env sv local_agent agent_type agent_id (forward_flags conn)"

text \<open>As in the code, \<open>unsubscribe\<close> builds a subscription.\<close>

definition sv_unsubscribe ::
    "(u8 list \<Rightarrow> u64) \<Rightarrow> session_env \<Rightarrow> 'b service \<Rightarrow> agent \<Rightarrow> agent_type \<Rightarrow> u64 option \<Rightarrow> u64 option \<Rightarrow>
     (service_error, unit) rust \<times> 'b service" where
  "sv_unsubscribe xx env sv local_agent agent_type agent_id conn =
     sv_send_subscribe xx env sv local_agent agent_type agent_id (forward_flags conn)"

definition set_route ::
    "(u8 list \<Rightarrow> u64) \<Rightarrow> session_env \<Rightarrow> 'b service \<Rightarrow> agent \<Rightarrow> agent_type \<Rightarrow> u64 option \<Rightarrow> u64 \<Rightarrow>
     (service_error, unit) rust \<times> 'b service" where
  "set_route xx env sv local_agent agent_type agent_id conn =
     sv_send_subscribe xx env sv local_agent agent_type agent_id (with_recv_from flags_default conn)"

definition remove_route ::
    "(u8 list \<Rightarrow> u64) \<Rightarrow> session_env \<Rightarrow> 'b service \<Rightarrow> agent \<Rightarrow> agent_type \<Rightarrow> u64 option \<Rightarrow> u64 \<Rightarrow>
     (service_error, unit) rust \<times> 'b service" where
  "remove_route xx env sv local_agent agent_type agent_id conn =
     sv_send_message xx env sv local_agent
       (new_unsubscribe local_agent agent_type agent_id (Some (with_recv_from flags_default conn))) None 0 0"

definition publish_with_flags ::
    "(u8 list \<Rightarrow> u64) \<Rightarrow> session_env \<Rightarrow> 'b service \<Rightarrow> agent \<Rightarrow> info \<Rightarrow> agent_type \<Rightarrow> u64 option \<Rightarrow> slim_header_flags \<Rightarrow> u8 list \<Rightarrow>
     u32 \<Rightarrow> nat \<Rightarrow> (service_error, unit) rust \<times> 'b service" where
  "publish_with_flags xx env sv source session_info agent_type agent_id flags blob random token =
     sv_send_message xx env sv source (new_publish source agent_type agent_id (Some flags) ''msg'' blob)
       (Some session_info) random token"

definition publish_to ::
    "(u8 list \<Rightarrow> u64) \<Rightarrow> session_env \<Rightarrow> 'b service \<Rightarrow> agent \<Rightarrow> info \<Rightarrow> agent_type \<Rightarrow> u64 option \<Rightarrow> u64 \<Rightarrow> u8 list \<Rightarrow>
     u32 \<Rightarrow> nat \<Rightarrow> (service_error, unit) rust \<times> 'b service" where
  "publish_to xx env sv source session_info agent_type agent_id forward_to blob random token =
     publish_with_flags xx env sv source session_info agent_type agent_id (with_forward_to flags_default forward_to) blob random token"

definition sv_publish ::
    "(u8 list \<Rightarrow> u64) \<Rightarrow> session_env \<Rightarrow> 'b service \<Rightarrow> agent \<Rightarrow> info \<Rightarrow> agent_type \<Rightarrow> u64 option \<Rightarrow> u8 list \<Rightarrow>
     u32 \<Rightarrow> nat \<Rightarrow> (service_error, unit) rust \<times> 'b service" where
  "sv_publish xx env sv source session_info agent_type agent_id blob random token =
     publish_with_flags xx env sv source session_info agent_type agent_id flags_default blob random token"

section \<open>Sessions\<close>

definition sv_create_session ::
    "(u8 list \<Rightarrow> u64) \<Rightarrow> 'b service \<Rightarrow> agent \<Rightarrow> session_config \<Rightarrow> (nat \<Rightarrow> u32) \<Rightarrow> nat \<Rightarrow> (service_error, info) rust \<times> 'b service" where
  "sv_create_session xx sv agent session_config draw token =
     with_session_layer sv agent (\<lambda>la. case create_session xx (la_layer la) session_config None draw token of
       (r, layer) \<Rightarrow> (as_session_error r, la\<lparr>la_layer := layer\<rparr>))"

definition sv_set_session_config ::
    "'b service \<Rightarrow> agent \<Rightarrow> session_config \<Rightarrow> u32 option \<Rightarrow> (service_error, unit) rust \<times> 'b service" where
  "sv_set_session_config sv agent session_config session_id =
     with_session_layer sv agent (\<lambda>la. case sl_set_session_config (la_layer la) session_config session_id of
       (r, layer) \<Rightarrow> (as_session_error (Some r), la\<lparr>la_layer := layer\<rparr>))"

definition sv_get_session_config :: "'b service \<Rightarrow> agent \<Rightarrow> u32 \<Rightarrow> (service_error, session_config) rust" where
  "sv_get_session_config sv agent session_id =
     fst (with_session_layer sv agent (\<lambda>la. (as_session_error (Some (sl_get_session_config (la_layer la) session_id)), la)))"

definition sv_get_default_session_config :: "'b service \<Rightarrow> agent \<Rightarrow> session_type \<Rightarrow> (service_error, session_config) rust" where
  "sv_get_default_session_config sv agent session_type =
     fst (with_session_layer sv agent (\<lambda>la. (as_session_error (Some (sl_get_default_session_config (la_layer la) session_type)), la)))"

definition sv_add_session_interceptor ::
    "'b service \<Rightarrow> agent \<Rightarrow> u32 \<Rightarrow> interceptor \<Rightarrow> (service_error, unit) rust \<times> 'b service" where
  "sv_add_session_interceptor sv agent session_id interceptor =
     with_session_layer sv agent (\<lambda>la. case sl_add_session_interceptor (la_layer la) session_id interceptor of
       (r, layer) \<Rightarrow> (as_session_error (Some r), la\<lparr>la_layer := layer\<rparr>))"

definition delete_session :: "'b service \<Rightarrow> agent \<Rightarrow> u32 \<Rightarrow> (service_error, unit) rust \<times> 'b service" where
  "delete_session sv agent session_id =
     with_session_layer sv agent (\<lambda>la. case remove_session (la_layer la) session_id of
       (found, layer) \<Rightarrow> (if found then Ok () else Err (SessionError ''session not found''), la\<lparr>la_layer := layer\<rparr>))"

section \<open>Servers and clients\<close>

definition run_server :: "'b service \<Rightarrow> server_config \<Rightarrow> nat \<Rightarrow> (service_error + unit) \<times> 'b service" where
  "run_server sv config token = (case sc_server_future config of
      Inl e \<Rightarrow> (Inl (Sv_ConfigError e), sv)
    | Inr _ \<Rightarrow> (Inr (), sv\<lparr>sv_cancellation_tokens := hm_insert (=) (sc_endpoint config) token (sv_cancellation_tokens sv)\<rparr>))"

definition stop_server :: "'b service \<Rightarrow> string \<Rightarrow> (service_error + unit) \<times> 'b service" where
  "stop_server sv endpoint = (case hm_get (=) endpoint (sv_cancellation_tokens sv) of
      Some token \<Rightarrow> (Inr (), sv\<lparr>sv_cancellation_tokens := hm_remove (=) endpoint (sv_cancellation_tokens sv),
        sv_cancelled := token # sv_cancelled sv\<rparr>)
    | None \<Rightarrow> (Inl (ServerNotFound endpoint), sv))"

text \<open>The connection error is wrapped twice, as in the code.\<close>

definition sv_connect ::
    "'b bitvec_ops \<Rightarrow> 'b service \<Rightarrow> client_config \<Rightarrow> ((service_error + u64) \<times> 'b service) option" where
  "sv_connect BV sv config =
     (if hm_contains (=) (cc_endpoint config) (sv_clients sv) then Some (Inl (ClientAlreadyConnected (cc_endpoint config)), sv)
      else case cc_channel config of
        Inl e \<Rightarrow> Some (Inl (Sv_ConfigError e), sv)
      | Inr _ \<Rightarrow> do {
          (ret, st) \<leftarrow> mp_connect BV (sv_message_processor sv) None None (cc_attempts config);
          let sv = sv\<lparr>sv_message_processor := st\<rparr>;
          case ret of
            Inl e \<Rightarrow>
              Some (Inl (Sv_ConnectionError (service_error_display (Sv_ConnectionError (data_path_error_display e)))), sv)
          | Inr conn_id \<Rightarrow>
              Some (Inr conn_id, sv\<lparr>sv_clients := hm_insert (=) (cc_endpoint config) conn_id (sv_clients sv)\<rparr>)
        })"

definition sv_disconnect :: "'b service \<Rightarrow> u64 \<Rightarrow> (service_error + unit) \<times> 'b service" where
  "sv_disconnect sv conn = (case mp_disconnect (sv_message_processor sv) conn of
     (r, st) \<Rightarrow> (map_sum (\<lambda>e. Sv_DisconnectError (data_path_error_display e)) id r, sv\<lparr>sv_message_processor := st\<rparr>))"

definition get_connection_id :: "'b service \<Rightarrow> string \<Rightarrow> u64 option" where
  "get_connection_id sv endpoint = hm_get (=) endpoint (sv_clients sv)"

text \<open>Starting everything that is configured; the first error ends it. \<open>tok\<close> gives the tokens of the servers.\<close>

fun run_servers :: "'b service \<Rightarrow> server_config list \<Rightarrow> (nat \<Rightarrow> nat) \<Rightarrow> (service_error + unit) \<times> 'b service" where
  "run_servers sv [] tok = (Inr (), sv)"
| "run_servers sv (config # rest) tok = (case run_server sv config (tok (length rest)) of
     (Inl e, sv) \<Rightarrow> (Inl e, sv)
   | (Inr _, sv) \<Rightarrow> run_servers sv rest tok)"

fun connect_clients ::
    "'b bitvec_ops \<Rightarrow> 'b service \<Rightarrow> client_config list \<Rightarrow> ((service_error + unit) \<times> 'b service) option" where
  "connect_clients BV sv [] = Some (Inr (), sv)"
| "connect_clients BV sv (config # rest) = do {
     (r, sv) \<leftarrow> sv_connect BV sv config;
     case r of Inl e \<Rightarrow> Some (Inl e, sv) | Inr _ \<Rightarrow> connect_clients BV sv rest
   }"

definition serve_controller :: "service_configuration \<Rightarrow> service_error + unit" where
  "serve_controller config = (case sf_controller_server config of
      None \<Rightarrow> Inl (Sv_ConfigError ''no controller server configured'')
    | Some server \<Rightarrow> map_sum Sv_ConfigError id (sc_server_future server))"

definition run_controller :: "service_configuration \<Rightarrow> (service_error, unit) rust" where
  "run_controller config =
     (case (if sf_controller_server config \<noteq> None then serve_controller config else Inr ()) of
        Inl e \<Rightarrow> Err e
      | Inr _ \<Rightarrow>
          (case sf_controller_client config of
             None \<Rightarrow> Ok ()
           | Some client \<Rightarrow>
               (case ct_channel client of
                  Inl e \<Rightarrow> Err (Sv_ConfigError e)
                | Inr _ \<Rightarrow> if ct_connected client then Ok () else None)))"

definition service_run ::
    "'b bitvec_ops \<Rightarrow> 'b service \<Rightarrow> (nat \<Rightarrow> nat) \<Rightarrow> ((service_error + unit) \<times> 'b service) option" where
  "service_run BV sv tok =
     (if sf_servers (sv_config sv) = [] \<and> sf_clients (sv_config sv) = []
      then Some (Inl (Sv_ConfigError ''no pubsub server or clients configured''), sv)
      else case run_servers sv (sf_servers (sv_config sv)) tok of
        (Inl e, sv) \<Rightarrow> Some (Inl e, sv)
      | (Inr _, sv) \<Rightarrow> do {
          (r, sv) \<leftarrow> connect_clients BV sv (sf_clients (sv_config sv));
          case r of
            Inl e \<Rightarrow> Some (Inl e, sv)
          | Inr _ \<Rightarrow> do { r \<leftarrow> run_controller (sv_config sv); Some (r, sv) }
        })"

section \<open>Clients\<close>

text \<open>
  C37: the service never forgets a client. After a successful connection and its disconnection, the
  endpoint still maps to the number of the closed connection, and connecting to the same endpoint
  again is refused, whatever the disconnection did and whatever else the new configuration says.
\<close>

theorem disconnected_client_stays_known:
  assumes "sv_connect BV sv config = Some (Inr conn, sv1)" and "cc_endpoint config' = cc_endpoint config"
  shows "get_connection_id (snd (sv_disconnect sv1 conn)) (cc_endpoint config) = Some conn \<and>
    sv_connect BV (snd (sv_disconnect sv1 conn)) config' =
      Some (Inl (ClientAlreadyConnected (cc_endpoint config)), snd (sv_disconnect sv1 conn))"
proof -
  obtain ret st where ret: "mp_connect BV (sv_message_processor sv) None None (cc_attempts config) = Some (ret, st)"
    using assms(1) by (auto simp: sv_connect_def bind_eq_Some_conv split: if_splits sum.splits)
  have "hm_get (=) (cc_endpoint config) (sv_clients sv1) = Some conn"
    using assms(1) ret by (cases ret; cases "cc_channel config") (auto simp: sv_connect_def split: if_splits)
  then have "hm_get (=) (cc_endpoint config) (sv_clients (snd (sv_disconnect sv1 conn))) = Some conn"
    by (simp add: sv_disconnect_def case_prod_beta)
  then show ?thesis using assms(2) by (simp add: get_connection_id_def sv_connect_def hm_contains_def)
qed

definition demo_client :: client_config where
  "demo_client = \<lparr>cc_endpoint = ''http://host'', cc_channel = Inr (), cc_attempts = (\<lambda>_. Some (1, 2))\<rparr>"

theorem disconnected_client_stays_known_witness:
  "\<exists>conn sv1 sv2. sv_connect list_bitvec (service_new list_bitvec) demo_client = Some (Inr conn, sv1) \<and>
     sv_disconnect sv1 conn = (Inr (), sv2) \<and>
     sv_connect list_bitvec sv2 demo_client = Some (Inl (ClientAlreadyConnected ''http://host''), sv2)"
proof -
  have "(case sv_connect list_bitvec (service_new list_bitvec) demo_client of
      Some (Inr conn, sv) \<Rightarrow> fst (sv_disconnect sv conn) = Inr () | _ \<Rightarrow> False)"
    by code_simp
  then obtain conn sv1 where c: "sv_connect list_bitvec (service_new list_bitvec) demo_client = Some (Inr conn, sv1)"
      "fst (sv_disconnect sv1 conn) = Inr ()"
    by (auto split: option.splits prod.splits sum.splits)
  have "cc_endpoint demo_client = ''http://host''" by (simp add: demo_client_def)
  then show ?thesis
    using c disconnected_client_stays_known [OF c(1) refl]
    by (intro exI [of _ conn] exI [of _ sv1] exI [of _ "snd (sv_disconnect sv1 conn)"]) (simp add: prod_eq_iff)
qed

end
