(* ===== verification/Delivery.thy ===== *)
theory Delivery
  imports Service
begin

text \<open>
  The service, the sessions and the message processor together: the way of a publication from one
  application to another over one data plane.
\<close>

section \<open>Publications with all their parts\<close>

definition pub_message :: "(string, string) hmap \<Rightarrow> slim_header \<Rightarrow> session_header \<Rightarrow> content option \<Rightarrow> message" where
  "pub_message md h s c = \<lparr>msg_metadata = md,
     msg_type = Some (Publish \<lparr>pub_header = Some h, pub_session = Some s, pub_msg = c\<rparr>)\<rparr>"

lemma new_publish_parts:
  "new_publish src t i flags ct blob = pub_message [] (slim_header_new src t i flags) session_header_default
     (Some \<lparr>ct_content_type = ct, ct_blob = blob\<rparr>)"
  by (simp add: new_publish_def publish_new_def publish_with_header_def message_new_def pub_message_def)

lemma pub_message_read [simp]:
  "get_session_header (pub_message md h s c) = Some s"
  "get_slim_header (pub_message md h s c) = Some h"
  "msg_get_payload (pub_message md h s c) = Some c"
  "is_publish (pub_message md h s c) = Some True"
  "msg_metadata (pub_message md h s c) = md"
  "msg_type (pub_message md h s c) = Some (Publish \<lparr>pub_header = Some h, pub_session = Some s, pub_msg = c\<rparr>)"
  by (simp_all add: pub_message_def get_session_header_def get_slim_header_def msg_get_payload_def is_publish_def)

lemma pub_message_write [simp]:
  "get_session_header_mut f (pub_message md h s c) = Some (pub_message md h (f s) c)"
  "get_slim_header_mut g (pub_message md h s c) = Some (pub_message md (g h) s c)"
  "insert_metadata k v (pub_message md h s c) = pub_message (hm_insert (=) k v md) h s c"
  "inject_current_context env (pub_message md h s c) = pub_message (env_inject env md) h s c"
  by (simp_all add: pub_message_def get_session_header_mut_def get_slim_header_mut_def insert_metadata_def
      inject_current_context_def)

lemma pub_message_valid:
  assumes "sh_source h \<noteq> None" and "sh_destination h \<noteq> None"
  shows "message_validate (pub_message md h s c) = Ok ()"
  using assms by (simp add: pub_message_def message_validate_def try_get_slim_header_def get_slim_header_def)

section \<open>From the application to the data path\<close>

text \<open>The session a fire-and-forget session with the default configuration is after its creation.\<close>

abbreviation new_ff :: "u32 \<Rightarrow> agent \<Rightarrow> string option \<Rightarrow> fire_and_forget" where
  "new_ff i a identity \<equiv> fire_and_forget_new i ff_config_default Bidirectional a identity"

lemma app_message_queued:
  assumes "hm_get (=) i (sl_pool sl) = Some (FireAndForget_Session (new_ff i a (Some idn)))"
    and "in_id inf0 = i" and "sh_source h \<noteq> None" "sh_destination h \<noteq> None"
  shows "handle_message xx env sl out \<lparr>sm_message = pub_message [] h s c, sm_info = inf0\<rparr> South random token =
    (Ok (), sl\<lparr>sl_pool := hm_insert (=) i (FireAndForget_Session ((new_ff i a (Some idn))\<lparr>fa_tx :=
       [OnMessage \<lparr>sm_message = pub_message [(''SLIM_IDENTITY'', idn)] h (s\<lparr>se_session_id := i\<rparr>) c, sm_info = inf0\<rparr> South]\<rparr>))
       (sl_pool sl)\<rparr>, out)"
  using assms by (simp add: handle_message_def pub_message_valid handle_message_from_app_def pass_to_session_def
      session_on_message_def ff_on_message_def fire_and_forget_new_def common_new_def session_common_def Let_def
      on_message_from_app_interceptors_def identity_session_interceptor_def)

lemma queued_message_sent:
  assumes "se_slim_open env"
  shows "fa_turn env ((new_ff i a identity)\<lparr>fa_tx := [OnMessage \<lparr>sm_message = pub_message md h s c, sm_info = inf0\<rparr> South]\<rparr>)
      out rnd tok = (new_ff i a identity, out\<lparr>so_slim := so_slim out @
        [pub_message md h (s\<lparr>se_header_type := i32_of_header_type Fnf, se_message_id := rnd 0, se_session_id := i\<rparr>) c]\<rparr>)"
  using assms by (simp add: fa_turn_def fire_and_forget_new_def process_internal_def ff_handle_message_to_slim_def
      ff_config_default_def ff_send_message_def send_slim_def session_header_set_header_type_def
      session_header_set_message_id_def session_header_set_session_id_def Let_def)

section \<open>Over the data path\<close>

lemma distinct_single:
  assumes "distinct xs" and "set xs = {b}"
  shows "xs = [b]"
proof -
  have "length xs = 1" using distinct_card [OF assms(1)] assms(2) by simp
  then show ?thesis using assms(2) by (cases xs) simp_all
qed

lemma match_one_unique:
  assumes inv: "st_inv BV st" and sub: "\<And>c. st_subs st t i c True \<longleftrightarrow> c = b" and "b \<noteq> e" and eq: "agent_type_eq t' t"
  shows "match_one rl rr st t' (Some i) e = Ok b"
proof -
  obtain s where s: "hm_get agent_type_eq t (st_table st) = Some s" and b: "ats_holds s True i b"
    using sub [of b] by (auto simp: st_subs_def tab_subs_def)
  have only: "c = b" if "c \<in> set (side True (ats_vec s i))" for c
    using that sub [of c] s by (simp add: st_subs_def tab_subs_def ats_holds_def)
  have "set (side True (ats_vec s i)) = {b}" using only b unfolding ats_holds_def by blast
  with ats_vec_distinct [OF st_inv_ats [OF inv s]] have v: "side True (ats_vec s i) = [b]" by (rule distinct_single)
  then obtain w where w: "hm_get (=) i (ats_ids s) = Some w" "side True w = [b]"
    by (auto simp: ats_vec_def side_def split: option.splits if_splits)
  have "hm_get agent_type_eq t' (st_table st) = Some s" using s at_eq.hm_get_cong [OF eq] by metis
  then show ?thesis using w \<open>b \<noteq> e\<close> by (simp add: match_one_def get_one_connection_def Let_def)
qed

lemma pub_message_source:
  assumes "sh_source h = Some (proto_agent_from_agent src)" and "ag_id src \<noteq> DEFAULT_AGENT_ID"
  shows "msg_get_source (pub_message md h s c) =
    Some (agent_new (agent_type_from_proto (proto_agent_from_agent src)) (ag_id src))"
  using assms by (simp add: msg_get_source_def slim_header_get_source_def agent_from_proto_agent)

lemma pub_message_span:
  assumes "sh_source h = Some (proto_agent_from_agent src)" "ag_id src \<noteq> DEFAULT_AGENT_ID" and "sh_destination h \<noteq> None"
  shows "create_span env (pub_message md h s c) = Some ()"
  using create_span_valid [OF pub_message_valid] pub_message_source [OF assms(1,2)] assms(1,3) by simp

lemma publication_to_one:
  assumes inv: "fw_inv BV is_local_connection (mp_forwarder st)"
    and sub: "\<And>c. st_subs (fw_subscription_table (mp_forwarder st)) t i c True \<longleftrightarrow> c = b" and "b \<noteq> e"
    and h: "h = slim_header_new src t (Some i) (Some flags_default)" and src: "ag_id src \<noteq> DEFAULT_AGENT_ID"
    and ch: "conn_chan (mp_forwarder st) b = Some ch" "env_chan_open env ch"
  shows "handle_new_message BV env st e (pub_message md h s c) = Some (Inr (), st\<lparr>mp_sent := mp_sent st @
    [(ch, Item (pub_message (env_inject env (env_inject env md)) (h\<lparr>sh_incoming_conn := Some e\<rparr>) s c))]\<rparr>)"
proof -
  let ?h = "h\<lparr>sh_incoming_conn := Some e\<rparr>"
  let ?m = "pub_message (env_inject env md) ?h s c"
  let ?t = "agent_type_from_proto (proto_agent_from_type t (Some i))"
  have parts: "sh_source h = Some (proto_agent_from_agent src)" "sh_destination h \<noteq> None" "sh_recv_from h = None"
      "sh_forward_to h = None" "sh_fanout h = 1" "slim_header_get_dst ?h = Some (?t, Some i)"
    using h by (simp_all add: slim_header_new_def Let_def flags_default_def slim_header_get_dst_def proto_agent_from_type_def)
  have span: "create_span env (pub_message md (h\<lparr>sh_incoming_conn := e'\<rparr>) s c) = Some ()" for md e'
    using parts src by (intro pub_message_span [of _ src]) simp_all
  have stamp: "msg_set_incoming_conn (Some e) (pub_message md h s c) = Some (pub_message md ?h s c)"
    by (simp add: msg_set_incoming_conn_def slim_header_set_incoming_conn_def)
  have "st_inv BV (fw_subscription_table (mp_forwarder st))" using inv by (simp add: fw_inv_def)
  then have "match_one rl rr (fw_subscription_table (mp_forwarder st)) ?t (Some i) e = Ok b" for rl rr
    using sub \<open>b \<noteq> e\<close> by (rule match_one_unique) simp
  then have match: "on_publish_msg_match rl rr (mp_forwarder st) ?t (Some i) e 1 = Ok [b]" for rl rr
    by (simp add: on_publish_msg_match_def)
  have clear: "?h\<lparr>sh_recv_from := None, sh_forward_to := None\<rparr> = ?h" using parts(3,4) by simp
  have w: "wire_form env ?m = Some (pub_message (env_inject env (env_inject env md)) ?h s c)"
    by (simp add: wire_form_def msg_clear_slim_header_def slim_header_clear_def clear)
  have "send_msg env st ?m b = Some (Inr (), st\<lparr>mp_sent := mp_sent st @
      [(ch, Item (pub_message (env_inject env (env_inject env md)) ?h s c))]\<rparr>)"
    using send_msg_result [OF w span, where st = st and c = b] ch by (simp add: can_send_def)
  moreover have "message_validate (pub_message md h s c) = Ok ()" using parts by (intro pub_message_valid) simp_all
  ultimately show ?thesis using stamp span parts match
    by (simp add: handle_new_message_def process_message_def process_publish_def msg_get_fanout_def
        match_and_forward_msg_def msg_get_forward_to_def as_publication_error_def)
qed

section \<open>From the data path to the application\<close>

lemma network_message_queued:
  assumes new: "hm_get (=) i (sl_pool (la_layer la)) = None" "SESSION_RANGE i" "sl_default_ff_conf (la_layer la) = ff_config_default"
    and h: "sh_source h = Some (proto_agent_from_agent src)" "ag_id src \<noteq> DEFAULT_AGENT_ID" "sh_destination h \<noteq> None"
    and s: "se_session_id s = i" "se_header_type s = i32_of_header_type Fnf"
    and m: "session_message_from (pub_message md h s c) = Some sm"
  shows "process_messages_step show_status xx env la (Item (pub_message md h s c)) random token =
    Some (la\<lparr>la_layer := (la_layer la)\<lparr>sl_pool := hm_insert (=) i (FireAndForget_Session
      ((new_ff i (sl_agent_name (la_layer la)) (sl_identity (la_layer la)))\<lparr>fa_tx := [OnMessage sm North]\<rparr>)) (sl_pool (la_layer la))\<rparr>\<rparr>)"
proof -
  have sm: "sm_message sm = pub_message md h s c" using m by (auto simp: session_message_from_def bind_eq_Some_conv)
  have t: "header_type_try_from (se_header_type s) = Some Fnf"
    by (simp add: s header_type_try_from_def i32_of_header_type_def header_type_of_i32_def)
  have "\<lparr>sm_message = sm_message sm, sm_info = sm_info sm\<rparr> = sm" by simp
  then have eta: "\<lparr>sm_message = pub_message md h s c, sm_info = sm_info sm\<rparr> = sm" by (simp add: sm)
  have "handle_message xx env (la_layer la) (la_out la) sm North random token = (Ok (), (la_layer la)\<lparr>sl_pool := hm_insert (=) i
      (FireAndForget_Session ((new_ff i (sl_agent_name (la_layer la)) (sl_identity (la_layer la)))\<lparr>fa_tx := [OnMessage sm North]\<rparr>))
      (sl_pool (la_layer la))\<rparr>, la_out la)"
    using new h s t by (simp add: handle_message_def sm pub_message_valid handle_message_from_slim_def Let_def default_config_for_def
        create_session_def choose_session_id_def hm_contains_def session_new_def info_new_def pass_to_session_def session_common_def
        on_message_from_slim_interceptors_def identity_session_interceptor_def common_new_def fire_and_forget_new_def
        session_on_message_def ff_on_message_def eta)
  then show ?thesis using m by (simp add: process_messages_step_def)
qed

lemma queued_message_handed:
  assumes "se_app_open env" and "session_message_from (pub_message md h s c) = Some sm" and "se_header_type s = i32_of_header_type Fnf"
  shows "fa_turn env ((new_ff i a identity)\<lparr>fa_tx := [OnMessage sm North]\<rparr>) out rnd tok =
    (new_ff i a identity, out\<lparr>so_app := so_app out @ [Inr sm]\<rparr>)"
proof -
  have sm: "sm_message sm = pub_message md h s c" "in_message_id (sm_info sm) = Some (se_message_id s)"
    using assms(2) by (auto simp: session_message_from_def info_from_message_def bind_eq_Some_conv)
  have "msg_get_header_type (sm_message sm) = Some Fnf"
    using assms(3) by (simp add: sm msg_get_header_type_def)
  then show ?thesis using assms(1) sm(2)
    by (simp add: fa_turn_def fire_and_forget_new_def process_internal_def ff_handle_message_to_app_def ff_config_default_def
        ff_send_message_to_app_def send_app_def Let_def)
qed

section \<open>Subscriptions of local agents\<close>

lemma subscription_recorded:
  assumes bv: "bit_vec BV" and inv: "mp_inv BV st" and wf: "agent_type_wf (env_hash env) t"
    and m: "new_subscribe src t i flags = Some m" and src: "ag_id src \<noteq> DEFAULT_AGENT_ID"
    and plain: "flags = None \<or> flags = Some flags_default" and conn: "get_connection (mp_forwarder st) e = Some conn"
  shows "\<exists>r st'. handle_new_message BV env st e m = Some (r, st') \<and> mp_inv BV st' \<and>
    st_subs (fw_subscription_table (mp_forwarder st')) t (uid_or_default i) e (is_local_connection conn) \<and>
    fw_connection_table (mp_forwarder st') = fw_connection_table (mp_forwarder st) \<and> mp_sent st' = mp_sent st"
proof -
  note f = new_subscribe_form [OF m]
  have c: "sub_conn e m = e" and stays: "sh_forward_to (slim_header_new src t i flags) = None"
    using plain by (auto simp: sub_conn_def f slim_header_new_def Let_def flags_default_def)
  obtain r st' where st': "handle_new_message BV env st e m = Some (r, st')" "mp_inv BV st'"
      "st_subs (fw_subscription_table (mp_forwarder st')) =
        sub_step (Sub_Add t i e (is_local_connection conn)) (st_subs (fw_subscription_table (mp_forwarder st)))"
      "fw_connection_table (mp_forwarder st') = fw_connection_table (mp_forwarder st)" "mp_sent st' = mp_sent st"
    using subscription_applied [OF bv inv _ _ new_subscribe_name(1) [OF wf m] _ f(1), where add = True and e = e]
      new_subscribe_name(2) [OF wf m] f src conn c stays by auto
  have "st_subs (fw_subscription_table (mp_forwarder st')) t (uid_or_default i) e (is_local_connection conn)"
    using st'(3) fw_inv_placed [OF mp_inv_fw [OF inv]] conn by fastforce
  then show ?thesis using st' by blast
qed

section \<open>All the way\<close>

text \<open>The task of one session of an agent runs.\<close>

definition agent_turn ::
    "(u8 list \<Rightarrow> u64) \<Rightarrow> session_env \<Rightarrow> local_agent \<Rightarrow> u32 \<Rightarrow> (nat \<Rightarrow> u32) \<Rightarrow> (nat \<Rightarrow> nat) \<Rightarrow> local_agent" where
  "agent_turn xx env la i rnd tok = (case on_session (la_layer la) (la_out la) i (\<lambda>s out. session_turn xx env s out rnd tok) of
     (layer, out) \<Rightarrow> \<lparr>la_layer = layer, la_out = out\<rparr>)"

lemma agent_turn_ff:
  assumes "hm_get (=) i (sl_pool (la_layer la)) = Some (FireAndForget_Session fa)" and "fa_turn env fa (la_out la) rnd tok = (fa', out)"
  shows "agent_turn xx env la i rnd tok = \<lparr>la_layer = (la_layer la)\<lparr>sl_pool := hm_insert (=) i (FireAndForget_Session fa')
    (sl_pool (la_layer la))\<rparr>, la_out = out\<rparr>"
  using assms by (simp add: agent_turn_def on_session_def session_turn_def)

lemma publish_sends_one:
  assumes "hm_get agent_eq a (sv_session_layers sv) = Some la" "in_id inf0 = i" "se_slim_open env"
    and "hm_get (=) i (sl_pool (la_layer la)) = Some (FireAndForget_Session (new_ff i a (Some idn)))"
    and h: "h = slim_header_new a t j (Some flags_default)"
  shows "\<exists>la1. sv_publish xx env sv a inf0 t j blob random token =
      (Ok (), sv\<lparr>sv_session_layers := hm_insert agent_eq a la1 (sv_session_layers sv)\<rparr>) \<and>
    so_slim (la_out (agent_turn xx env la1 i rnd tok)) = so_slim (la_out la) @ [pub_message [(''SLIM_IDENTITY'', idn)] h
      (session_header_default\<lparr>se_header_type := i32_of_header_type Fnf, se_message_id := rnd 0, se_session_id := i\<rparr>)
      (Some \<lparr>ct_content_type = ''msg'', ct_blob = blob\<rparr>)]"
proof -
  let ?c = "Some \<lparr>ct_content_type = ''msg'', ct_blob = blob\<rparr>"
  define la1 where "la1 = \<lparr>la_layer = (la_layer la)\<lparr>sl_pool := hm_insert (=) i (FireAndForget_Session ((new_ff i a (Some idn))\<lparr>fa_tx :=
      [OnMessage \<lparr>sm_message = pub_message [(''SLIM_IDENTITY'', idn)] h (session_header_default\<lparr>se_session_id := i\<rparr>) ?c, sm_info = inf0\<rparr> South]\<rparr>))
      (sl_pool (la_layer la))\<rparr>, la_out = la_out la\<rparr>"
  have "sh_source h \<noteq> None" "sh_destination h \<noteq> None" by (simp_all add: h slim_header_new_def Let_def)
  note queued = app_message_queued [OF assms(4,2) this, of xx env "la_out la" session_header_default ?c random token]
  have pub: "sv_publish xx env sv a inf0 t j blob random token =
      (Ok (), sv\<lparr>sv_session_layers := hm_insert agent_eq a la1 (sv_session_layers sv)\<rparr>)"
    using assms(1) queued by (simp add: sv_publish_def publish_with_flags_def sv_send_message_def with_session_layer_def
        new_publish_parts h [symmetric] as_session_error_def la1_def)
  let ?m = "pub_message [(''SLIM_IDENTITY'', idn)] h
      (session_header_default\<lparr>se_header_type := i32_of_header_type Fnf, se_message_id := rnd 0, se_session_id := i\<rparr>) ?c"
  have "agent_turn xx env la1 i rnd tok = \<lparr>la_layer = (la_layer la1)\<lparr>sl_pool := hm_insert (=) i (FireAndForget_Session (new_ff i a (Some idn)))
      (sl_pool (la_layer la1))\<rparr>, la_out = (la_out la)\<lparr>so_slim := so_slim (la_out la) @ [?m]\<rparr>\<rparr>"
    by (rule agent_turn_ff) (simp add: la1_def, simp add: la1_def queued_message_sent [OF assms(3), where i = i and a = a])
  then show ?thesis using pub by (intro exI [of _ la1]) simp
qed

lemma item_reaches_application:
  assumes "hm_get (=) i (sl_pool (la_layer lb)) = None" "SESSION_RANGE i" "sl_default_ff_conf (la_layer lb) = ff_config_default"
    and h: "sh_source h = Some (proto_agent_from_agent a)" "ag_id a \<noteq> DEFAULT_AGENT_ID" "sh_destination h \<noteq> None"
    and s: "se_session_id s = i" "se_header_type s = i32_of_header_type Fnf" and app: "se_app_open env"
  shows "\<exists>lb1 sm. process_messages_step show_status xx env lb (Item (pub_message md h s c)) random token = Some lb1 \<and>
    so_app (la_out (agent_turn xx env lb1 i rnd tok)) = so_app (la_out lb) @ [Inr sm] \<and>
    sm_message sm = pub_message md h s c \<and> in_id (sm_info sm) = i"
proof -
  obtain sm where sm: "session_message_from (pub_message md h s c) = Some sm" "sm_message sm = pub_message md h s c" "in_id (sm_info sm) = i"
    using pub_message_source [OF h(1,2), of md s c] s(1) by (auto simp: session_message_from_def info_from_message_def)
  define lb1 where "lb1 = lb\<lparr>la_layer := (la_layer lb)\<lparr>sl_pool := hm_insert (=) i (FireAndForget_Session
      ((new_ff i (sl_agent_name (la_layer lb)) (sl_identity (la_layer lb)))\<lparr>fa_tx := [OnMessage sm North]\<rparr>)) (sl_pool (la_layer lb))\<rparr>\<rparr>"
  have recv: "process_messages_step show_status xx env lb (Item (pub_message md h s c)) random token = Some lb1"
    unfolding lb1_def by (rule network_message_queued [OF assms(1-3) h s sm(1)])
  have "agent_turn xx env lb1 i rnd tok = \<lparr>la_layer = (la_layer lb1)\<lparr>sl_pool := hm_insert (=) i (FireAndForget_Session
      (new_ff i (sl_agent_name (la_layer lb)) (sl_identity (la_layer lb)))) (sl_pool (la_layer lb1))\<rparr>,
      la_out = (la_out lb)\<lparr>so_app := so_app (la_out lb) @ [Inr sm]\<rparr>\<rparr>"
    by (rule agent_turn_ff) (simp add: lb1_def, simp add: lb1_def queued_message_handed [OF app sm(1) s(2)])
  then show ?thesis using recv sm(2,3) by (intro exI [of _ lb1] exI [of _ sm]) simp
qed

text \<open>
  C5: what an application publishes on a new fire-and-forget session to an agent of the same data
  plane reaches the application of that agent, the only local subscriber of its name: the session
  sends one message to the data path, the processor passes it to the channel of the receiver and to
  no other, the receiver's layer makes a session of the same identifier for it, and this session
  hands exactly one message to the application. It carries the bytes, the name of the sender and the
  sender's identity, and nothing on the way panics.
\<close>

theorem publication_reaches_application:
  assumes sender: "hm_get agent_eq a (sv_session_layers sv) = Some la" "ag_id a \<noteq> DEFAULT_AGENT_ID"
      "hm_get (=) i (sl_pool (la_layer la)) = Some (FireAndForget_Session (new_ff i a (Some idn)))" "in_id inf0 = i"
    and receiver: "hm_get agent_eq b (sv_session_layers sv) = Some lb" "\<not> agent_eq a b"
      "hm_get (=) i (sl_pool (la_layer lb)) = None" "SESSION_RANGE i" "sl_default_ff_conf (la_layer lb) = ff_config_default"
    and tables: "fw_inv BV is_local_connection (mp_forwarder (sv_message_processor sv))"
      "\<forall>c. st_subs (fw_subscription_table (mp_forwarder (sv_message_processor sv))) (ag_type b) (ag_id b) c True \<longleftrightarrow>
         c = sl_conn_id (la_layer lb)"
      "sl_conn_id (la_layer lb) \<noteq> sl_conn_id (la_layer la)"
    and channels: "conn_chan (mp_forwarder (sv_message_processor sv)) (sl_conn_id (la_layer lb)) = Some ch" "env_chan_open menv ch"
      "se_slim_open env" "se_app_open env"
  shows "\<exists>sv1 la1 m st1 m' lb1 sm.
    sv_publish xx env sv a inf0 (ag_type b) (Some (ag_id b)) blob random token = (Ok (), sv1) \<and>
    hm_get agent_eq a (sv_session_layers sv1) = Some la1 \<and>
    so_slim (la_out (agent_turn xx env la1 i rnd tok)) = so_slim (la_out la) @ [m] \<and>
    handle_new_message BV menv (sv_message_processor sv1) (sl_conn_id (la_layer la)) m = Some (Inr (), st1) \<and>
    mp_sent st1 = mp_sent (sv_message_processor sv) @ [(ch, Item m')] \<and>
    hm_get agent_eq b (sv_session_layers sv1) = Some lb \<and>
    process_messages_step show_status xx env lb (Item m') random' token' = Some lb1 \<and>
    so_app (la_out (agent_turn xx env lb1 i rnd' tok')) = so_app (la_out lb) @ [Inr sm] \<and>
    msg_get_payload (sm_message sm) = Some (Some \<lparr>ct_content_type = ''msg'', ct_blob = blob\<rparr>) \<and>
    (\<exists>src. msg_get_source (sm_message sm) = Some src \<and> agent_eq src a) \<and> in_id (sm_info sm) = i \<and>
    msg_metadata (sm_message sm) = env_inject menv (env_inject menv [(''SLIM_IDENTITY'', idn)])"
proof -
  define h where "h = slim_header_new a (ag_type b) (Some (ag_id b)) (Some flags_default)"
  let ?c = "Some \<lparr>ct_content_type = ''msg'', ct_blob = blob\<rparr>" and ?st = "sv_message_processor sv" and ?e = "sl_conn_id (la_layer la)"
  let ?s = "session_header_default\<lparr>se_header_type := i32_of_header_type Fnf, se_message_id := rnd 0, se_session_id := i\<rparr>"
  let ?m = "pub_message [(''SLIM_IDENTITY'', idn)] h ?s ?c"
  let ?m' = "pub_message (env_inject menv (env_inject menv [(''SLIM_IDENTITY'', idn)])) (h\<lparr>sh_incoming_conn := Some ?e\<rparr>) ?s ?c"
  have h: "sh_source (h\<lparr>sh_incoming_conn := Some ?e\<rparr>) = Some (proto_agent_from_agent a)" "sh_destination (h\<lparr>sh_incoming_conn := Some ?e\<rparr>) \<noteq> None"
    by (simp_all add: h_def slim_header_new_def Let_def)
  obtain la1 where la1: "sv_publish xx env sv a inf0 (ag_type b) (Some (ag_id b)) blob random token =
      (Ok (), sv\<lparr>sv_session_layers := hm_insert agent_eq a la1 (sv_session_layers sv)\<rparr>)"
      "so_slim (la_out (agent_turn xx env la1 i rnd tok)) = so_slim (la_out la) @ [?m]"
    using publish_sends_one [OF sender(1,4) channels(3) sender(3) h_def, of xx blob random token rnd tok] by blast
  have sent: "handle_new_message BV menv ?st ?e ?m = Some (Inr (), ?st\<lparr>mp_sent := mp_sent ?st @ [(ch, Item ?m')]\<rparr>)"
    using publication_to_one [OF tables(1) _ tables(3) h_def sender(2) channels(1,2)] tables(2) by simp
  obtain lb1 sm where lb1: "process_messages_step show_status xx env lb (Item ?m') random' token' = Some lb1"
      "so_app (la_out (agent_turn xx env lb1 i rnd' tok')) = so_app (la_out lb) @ [Inr sm]"
      "sm_message sm = ?m'" "in_id (sm_info sm) = i"
    using item_reaches_application [OF receiver(3-5) h(1) sender(2) h(2) _ _ channels(4), of ?s] by fastforce
  have "\<exists>src. msg_get_source ?m' = Some src \<and> agent_eq src a"
    by (simp add: pub_message_source [OF h(1) sender(2)] agent_eq_def agent_new_def)
  then show ?thesis
    using la1 sent lb1 receiver(1,2)
    by (intro exI [of _ "sv\<lparr>sv_session_layers := hm_insert agent_eq a la1 (sv_session_layers sv)\<rparr>"] exI [of _ la1] exI [of _ ?m]
        exI [of _ "?st\<lparr>mp_sent := mp_sent ?st @ [(ch, Item ?m')]\<rparr>"] exI [of _ ?m'] exI [of _ lb1] exI [of _ sm]) simp
qed

text \<open>
  C36: \<open>unsubscribe\<close> does not remove a subscription. The call succeeds, and the one message it
  sends to the data path makes the processor record the subscription: afterwards the agent is
  subscribed to the name it wanted to leave.
\<close>

theorem unsubscribe_subscribes:
  assumes "bit_vec BV" and "mp_inv BV (sv_message_processor sv)" and "agent_type_wf (env_hash menv) t" "at_strings t \<noteq> None"
    and "hm_get agent_eq a (sv_session_layers sv) = Some la" "ag_id a \<noteq> DEFAULT_AGENT_ID" "se_slim_open env"
    and "get_connection (mp_forwarder (sv_message_processor sv)) (sl_conn_id (la_layer la)) = Some conn"
  shows "\<exists>sv1 la1 m r st1. sv_unsubscribe xx env sv a t i None = (Ok (), sv1) \<and>
    hm_get agent_eq a (sv_session_layers sv1) = Some la1 \<and> so_slim (la_out la1) = so_slim (la_out la) @ [m] \<and>
    handle_new_message BV menv (sv_message_processor sv1) (sl_conn_id (la_layer la)) m = Some (r, st1) \<and>
    st_subs (fw_subscription_table (mp_forwarder st1)) t (uid_or_default i) (sl_conn_id (la_layer la)) (is_local_connection conn)"
proof -
  obtain m where m: "new_subscribe a t i (Some flags_default) = Some m"
    using new_subscribe_spec [OF assms(3), of i a "Some flags_default"] assms(4) by (auto split: option.splits)
  let ?la = "la\<lparr>la_out := (la_out la)\<lparr>so_slim := so_slim (la_out la) @ [m]\<rparr>\<rparr>"
  have "sv_unsubscribe xx env sv a t i None = (Ok (), sv\<lparr>sv_session_layers := hm_insert agent_eq a ?la (sv_session_layers sv)\<rparr>)"
    using assms(5,7) m by (simp add: sv_unsubscribe_def sv_send_subscribe_def forward_flags_def sv_send_message_def
        with_session_layer_def send_slim_def)
  moreover obtain r st1 where "handle_new_message BV menv (sv_message_processor sv) (sl_conn_id (la_layer la)) m = Some (r, st1)"
      "st_subs (fw_subscription_table (mp_forwarder st1)) t (uid_or_default i) (sl_conn_id (la_layer la)) (is_local_connection conn)"
    using subscription_recorded [OF assms(1-3) m assms(6) _ assms(8)] by blast
  ultimately show ?thesis
    by (intro exI [of _ "sv\<lparr>sv_session_layers := hm_insert agent_eq a ?la (sv_session_layers sv)\<rparr>"] exI [of _ ?la] exI [of _ m]
        exI [of _ r] exI [of _ st1]) simp
qed

section \<open>Example\<close>

text \<open>Two agents of one service, the second subscribed to its own name.\<close>

definition demo_receiver :: agent where
  "demo_receiver = agent_new (agent_type_from_strings (\<lambda>_. 9) ''o'' ''n'' ''t'') 8"

definition demo_service :: "bool list service" where
  "demo_service = (service_new list_bitvec)\<lparr>sv_message_processor := demo_state, sv_session_layers :=
     [(demo_agent, \<lparr>la_layer = (session_layer_new demo_agent (Some ''me'') 0)\<lparr>sl_pool :=
          [(7, FireAndForget_Session (new_ff 7 demo_agent (Some ''me'')))]\<rparr>, la_out = empty_out\<rparr>),
      (demo_receiver, \<lparr>la_layer = session_layer_new demo_receiver None 1, la_out = empty_out\<rparr>)]\<rparr>"

lemma demo_tables:
  "st_subs (fw_subscription_table (mp_forwarder demo_state)) (ag_type demo_receiver) (ag_id demo_receiver) c True \<longleftrightarrow> c = 1"
  "conn_chan (mp_forwarder demo_state) 1 = Some 11"
proof -
  have "map_option (\<lambda>s. side True (ats_vec s (ag_id demo_receiver)))
      (hm_get agent_type_eq (ag_type demo_receiver) (st_table (fw_subscription_table (mp_forwarder demo_state)))) = Some [1]"
    by code_simp
  then show "st_subs (fw_subscription_table (mp_forwarder demo_state)) (ag_type demo_receiver) (ag_id demo_receiver) c True \<longleftrightarrow> c = 1"
    by (auto simp: st_subs_def tab_subs_def ats_holds_def)
  show "conn_chan (mp_forwarder demo_state) 1 = Some 11" by code_simp
qed

theorem publication_reaches_application_witness:
  "\<exists>sv1 la1 m st1 m' lb1 sm.
    sv_publish (\<lambda>_. 9) open_env demo_service demo_agent (info_new 7) (ag_type demo_receiver) (Some (ag_id demo_receiver)) [1, 2] 0 0 = (Ok (), sv1) \<and>
    hm_get agent_eq demo_agent (sv_session_layers sv1) = Some la1 \<and>
    so_slim (la_out (agent_turn (\<lambda>_. 9) open_env la1 7 (\<lambda>_. 3) (\<lambda>_. 0))) = [m] \<and>
    handle_new_message list_bitvec demo_env (sv_message_processor sv1) 0 m = Some (Inr (), st1) \<and>
    mp_sent st1 = mp_sent demo_state @ [(11, Item m')] \<and>
    process_messages_step (\<lambda>_. '''') (\<lambda>_. 9) open_env \<lparr>la_layer = session_layer_new demo_receiver None 1, la_out = empty_out\<rparr>
      (Item m') 0 0 = Some lb1 \<and>
    so_app (la_out (agent_turn (\<lambda>_. 9) open_env lb1 7 (\<lambda>_. 3) (\<lambda>_. 0))) = [Inr sm] \<and>
    msg_get_payload (sm_message sm) = Some (Some \<lparr>ct_content_type = ''msg'', ct_blob = [1, 2]\<rparr>)"
proof -
  let ?la = "\<lparr>la_layer = (session_layer_new demo_agent (Some ''me'') 0)\<lparr>sl_pool :=
      [(7, FireAndForget_Session (new_ff 7 demo_agent (Some ''me'')))]\<rparr>, la_out = empty_out\<rparr>"
  let ?lb = "\<lparr>la_layer = session_layer_new demo_receiver None 1, la_out = empty_out\<rparr>"
  have neq: "\<not> agent_eq demo_agent demo_receiver" by code_simp
  have range: "SESSION_RANGE 7" by code_simp
  have "hm_get agent_eq demo_agent (sv_session_layers demo_service) = Some ?la" by (simp add: demo_service_def)
  moreover have "ag_id demo_agent \<noteq> DEFAULT_AGENT_ID" by code_simp
  moreover have "hm_get agent_eq demo_receiver (sv_session_layers demo_service) = Some ?lb" using neq by (simp add: demo_service_def)
  ultimately show ?thesis
    using publication_reaches_application [of demo_agent demo_service ?la 7 "''me''" "info_new 7" demo_receiver ?lb list_bitvec 11 demo_env open_env
        "\<lambda>_. 9" "[1, 2]" 0 0 "\<lambda>_. 3" "\<lambda>_. 0" "\<lambda>_. ''''" 0 0 "\<lambda>_. 3" "\<lambda>_. 0"]
      neq range demo_tables mp_inv_fw [OF demo_state_inv]
    by (simp add: session_layer_new_def info_new_def demo_service_def open_env_def demo_env_def empty_out_def) metis
qed

theorem unsubscribe_subscribes_witness:
  "\<exists>sv1 la1 m r st1. sv_unsubscribe (\<lambda>_. 9) open_env demo_service demo_receiver (ag_type demo_receiver) (Some 8) None = (Ok (), sv1) \<and>
    hm_get agent_eq demo_receiver (sv_session_layers sv1) = Some la1 \<and> so_slim (la_out la1) = [m] \<and>
    handle_new_message list_bitvec demo_env (sv_message_processor sv1) 1 m = Some (r, st1) \<and>
    st_subs (fw_subscription_table (mp_forwarder st1)) (ag_type demo_receiver) 8 1 True"
proof -
  let ?lb = "\<lparr>la_layer = session_layer_new demo_receiver None 1, la_out = empty_out\<rparr>"
  have "agent_type_wf (env_hash demo_env) (ag_type demo_receiver)" "at_strings (ag_type demo_receiver) \<noteq> None"
      "ag_id demo_receiver \<noteq> DEFAULT_AGENT_ID" "\<not> agent_eq demo_agent demo_receiver"
      "map_option is_local_connection (get_connection (mp_forwarder demo_state) 1) = Some True"
    by code_simp+
  then obtain conn where conn: "get_connection (mp_forwarder demo_state) 1 = Some conn" "is_local_connection conn"
      "agent_type_wf (env_hash demo_env) (ag_type demo_receiver)" "at_strings (ag_type demo_receiver) \<noteq> None"
      "ag_id demo_receiver \<noteq> DEFAULT_AGENT_ID" "hm_get agent_eq demo_receiver (sv_session_layers demo_service) = Some ?lb"
    by (auto simp: demo_service_def)
  then show ?thesis
    using unsubscribe_subscribes [of list_bitvec demo_service demo_env "ag_type demo_receiver" demo_receiver ?lb open_env conn "\<lambda>_. 9" "Some 8"]
      list_bv.bit_vec_axioms demo_state_inv
    by (simp add: demo_service_def session_layer_new_def open_env_def empty_out_def uid_or_default_def)
qed

end
