(* ===== verification/Controller.thy ===== *)
theory Controller
  imports Message_Processing
begin

text \<open>
  The controller of \<^verbatim>\<open>controller/src/service.rs\<close>: the commands of the control plane
  that create connections, set and delete routes, and list the tables of a data plane. What the
  code gets from elsewhere is the record \<open>ctl_env\<close>: the resolution of addresses, the building of
  channels and the connection attempts, the identifiers of the replies, and whether the channels
  take a message.
\<close>

section \<open>Messages of the control plane\<close>

type_synonym i32 = "32 word"

definition show_i32 :: "i32 \<Rightarrow> string" where
  "show_i32 w = (if sint w < 0 then ''-'' @ digits 10 (nat (- sint w)) else digits 10 (nat (sint w)))"

datatype controller_error =
  Ctl_ConfigError string
| Ctl_ConnectionError string
| Ctl_DatapathError string

definition controller_error_display :: "controller_error \<Rightarrow> string" where
  "controller_error_display e = (case e of
      Ctl_ConfigError s \<Rightarrow> ''configuration error '' @ s
    | Ctl_ConnectionError s \<Rightarrow> ''connection error: '' @ s
    | Ctl_DatapathError s \<Rightarrow> ''datapath error: '' @ s)"

record proto_connection =
  pc_connection_id :: string
  pc_remote_address :: string
  pc_remote_port :: i32

record proto_subscription =
  ps_organization :: string
  ps_namespace :: string
  ps_agent_type :: string
  ps_agent_id :: "u64 option"
  ps_connection_id :: string

record configuration_command =
  connections_to_create :: "proto_connection list"
  subscriptions_to_set :: "proto_subscription list"
  subscriptions_to_delete :: "proto_subscription list"

record ack =
  ack_original_message_id :: string
  ack_success :: bool
  ack_messages :: "string list"

datatype proto_connection_type = Proto_Local | Proto_Remote

record connection_entry =
  en_id :: u64
  en_connection_type :: proto_connection_type
  en_ip :: string
  en_port :: u32

record subscription_entry =
  se_organization :: string
  se_namespace :: string
  se_agent_type :: string
  se_agent_id :: "u64 option"
  se_local_connections :: "connection_entry list"
  se_remote_connections :: "connection_entry list"

datatype control_payload =
  ConfigCommand configuration_command
| AckPayload ack
| SubscriptionListRequest
| SubscriptionListResponse "subscription_entry list"
| ConnectionListRequest
| ConnectionListResponse "connection_entry list"

record control_message =
  cm_message_id :: string
  cm_payload :: "control_payload option"

section \<open>State\<close>

text \<open>
  \<open>ctl_sent\<close> holds what the controller has sent into the data path, with the local connection it
  was sent on.
\<close>

record 'b controller_service =
  ctl_message_processor :: "'b processor"
  ctl_tx_slim :: "u64 option"
  ctl_connections :: "(string, u64) hmap"
  ctl_sent :: "(u64 \<times> message) list"

record ctl_env =
  ce_hash :: "u8 list \<Rightarrow> u64"
  ce_resolve :: "string \<Rightarrow> string + socket_addr list"
  ce_channel :: "string \<Rightarrow> string + unit"
  ce_attempts :: "string \<Rightarrow> nat \<Rightarrow> (nat \<times> nat) option"
  ce_local :: "nat \<times> nat"
  ce_slim_open :: "u64 \<Rightarrow> bool"
  ce_uuid :: "nat \<Rightarrow> string"
  ce_reply_open :: bool
  ce_room :: "nat \<Rightarrow> bool"

definition controller_service_new :: "'b processor \<Rightarrow> 'b controller_service" where
  "controller_service_new message_processor =
     \<lparr>ctl_message_processor = message_processor, ctl_tx_slim = None, ctl_connections = [], ctl_sent = []\<rparr>"

section \<open>Commands\<close>

text \<open>The error of a failed connection is wrapped twice, as in the code.\<close>

definition create_connection ::
    "'b bitvec_ops \<Rightarrow> ctl_env \<Rightarrow> 'b controller_service \<Rightarrow> proto_connection \<Rightarrow>
     ((controller_error + unit) \<times> 'b controller_service) option" where
  "create_connection BV env ctl conn =
     (let client_endpoint = pc_remote_address conn @ '':'' @ show_i32 (pc_remote_port conn)
      in case ce_resolve env client_endpoint of
           Inl e \<Rightarrow> Some (Inl (Ctl_ConnectionError e), ctl)
         | Inr [] \<Rightarrow> Some (Inl (Ctl_ConnectionError (''could not resolve '' @ client_endpoint)), ctl)
         | Inr (remote_sock # _) \<Rightarrow>
             (if hm_contains (=) client_endpoint (ctl_connections ctl) then Some (Inr (), ctl)
              else case ce_channel env (''http://'' @ client_endpoint) of
                Inl _ \<Rightarrow> Some (Inr (), ctl)
              | Inr _ \<Rightarrow> do {
                  (ret, st) \<leftarrow> mp_connect BV (ctl_message_processor ctl) None (Some remote_sock) (ce_attempts env client_endpoint);
                  let ctl = ctl\<lparr>ctl_message_processor := st\<rparr>;
                  Some (case ret of
                      Inl e \<Rightarrow> (Inl (Ctl_ConnectionError (controller_error_display
                        (Ctl_ConnectionError (data_path_error_display e)))), ctl)
                    | Inr conn_id \<Rightarrow>
                        (Inr (), ctl\<lparr>ctl_connections := hm_insert (=) client_endpoint conn_id (ctl_connections ctl)\<rparr>))
                }))"

fun create_connections ::
    "'b bitvec_ops \<Rightarrow> ctl_env \<Rightarrow> 'b controller_service \<Rightarrow> proto_connection list \<Rightarrow>
     ((controller_error + unit) \<times> 'b controller_service) option" where
  "create_connections BV env ctl [] = Some (Inr (), ctl)"
| "create_connections BV env ctl (conn # rest) = do {
     (r, ctl) \<leftarrow> create_connection BV env ctl conn;
     case r of
       Inl e \<Rightarrow> Some (Inl e, ctl)
     | Inr _ \<Rightarrow> create_connections BV env ctl rest
   }"

text \<open>The first message registers the local connection that all are sent on.\<close>

definition tx_slim_get_or_init ::
    "'b bitvec_ops \<Rightarrow> ctl_env \<Rightarrow> 'b controller_service \<Rightarrow> (u64 \<times> 'b controller_service) option" where
  "tx_slim_get_or_init BV env ctl = (case ctl_tx_slim ctl of
      Some tx \<Rightarrow> Some (tx, ctl)
    | None \<Rightarrow> do {
        (conn_id, st) \<leftarrow> register_local_connection BV (ctl_message_processor ctl) (fst (ce_local env)) (snd (ce_local env));
        Some (conn_id, ctl\<lparr>ctl_message_processor := st, ctl_tx_slim := Some conn_id\<rparr>)
      })"

definition send_control_message ::
    "'b bitvec_ops \<Rightarrow> ctl_env \<Rightarrow> 'b controller_service \<Rightarrow> message \<Rightarrow>
     ((controller_error + unit) \<times> 'b controller_service) option" where
  "send_control_message BV env ctl msg = do {
     (sender, ctl) \<leftarrow> tx_slim_get_or_init BV env ctl;
     Some (if ce_slim_open env sender then (Inr (), ctl\<lparr>ctl_sent := ctl_sent ctl @ [(sender, msg)]\<rparr>)
           else (Inl (Ctl_DatapathError ''channel closed''), ctl))
   }"

definition subscription_source :: "(u8 list \<Rightarrow> u64) \<Rightarrow> proto_subscription \<Rightarrow> agent" where
  "subscription_source xx s = agent_from_strings xx (ps_organization s) (ps_namespace s) (ps_agent_type s) 0"

definition subscription_type :: "(u8 list \<Rightarrow> u64) \<Rightarrow> proto_subscription \<Rightarrow> agent_type" where
  "subscription_type xx s = agent_type_from_strings xx (ps_organization s) (ps_namespace s) (ps_agent_type s)"

definition set_subscription ::
    "'b bitvec_ops \<Rightarrow> ctl_env \<Rightarrow> 'b controller_service \<Rightarrow> proto_subscription \<Rightarrow> 'b controller_service option" where
  "set_subscription BV env ctl s =
     (case hm_get (=) (ps_connection_id s) (ctl_connections ctl) of
        None \<Rightarrow> Some ctl
      | Some conn \<Rightarrow> do {
          msg \<leftarrow> new_subscribe (subscription_source (ce_hash env) s) (subscription_type (ce_hash env) s) (ps_agent_id s)
                  (Some (with_recv_from flags_default conn));
          (_, ctl) \<leftarrow> send_control_message BV env ctl msg;
          Some ctl
        })"

definition delete_subscription ::
    "'b bitvec_ops \<Rightarrow> ctl_env \<Rightarrow> 'b controller_service \<Rightarrow> proto_subscription \<Rightarrow> 'b controller_service option" where
  "delete_subscription BV env ctl s =
     (case hm_get (=) (ps_connection_id s) (ctl_connections ctl) of
        None \<Rightarrow> Some ctl
      | Some conn \<Rightarrow> do {
          let msg = new_unsubscribe (subscription_source (ce_hash env) s) (subscription_type (ce_hash env) s) (ps_agent_id s)
                  (Some (with_recv_from flags_default conn));
          (_, ctl) \<leftarrow> send_control_message BV env ctl msg;
          Some ctl
        })"

fun each_subscription ::
    "('c \<Rightarrow> proto_subscription \<Rightarrow> 'c option) \<Rightarrow> 'c \<Rightarrow> proto_subscription list \<Rightarrow> 'c option" where
  "each_subscription f ctl [] = Some ctl"
| "each_subscription f ctl (s # rest) = do { ctl \<leftarrow> f ctl s; each_subscription f ctl rest }"

section \<open>Listing the tables\<close>

text \<open>\<open>slice::chunks\<close>, for a positive size.\<close>

fun chunks :: "nat \<Rightarrow> 'a list \<Rightarrow> 'a list list" where
  "chunks n xs = (if xs = [] \<or> n = 0 then [] else take n xs # chunks n (drop n xs))"

declare chunks.simps [simp del]

definition CHUNK_SIZE :: nat where
  "CHUNK_SIZE = 100"

definition connection_address :: "connection option \<Rightarrow> string \<times> u32" where
  "connection_address conn = (case conn of
      None \<Rightarrow> ('''', 0)
    | Some c \<Rightarrow> (case conn_remote_addr c of None \<Rightarrow> ('''', 0) | Some sock \<Rightarrow> (sa_ip sock, ucast (sa_port sock))))"

definition remote_entry :: "u64 \<Rightarrow> connection option \<Rightarrow> connection_entry" where
  "remote_entry cid conn = \<lparr>en_id = cid, en_connection_type = Proto_Remote,
     en_ip = fst (connection_address conn), en_port = snd (connection_address conn)\<rparr>"

text \<open>A name without strings is printed by the number of its organization, three times.\<close>

definition subscription_table_entry ::
    "('b, connection) connection_table \<Rightarrow> agent_type \<Rightarrow> u64 \<Rightarrow> u64 list \<Rightarrow> u64 list \<Rightarrow> subscription_entry" where
  "subscription_table_entry conn_table t agent_id local remote =
     (let number = show_dec (at_organization t);
          or_number = (\<lambda>s. case s of None \<Rightarrow> number | Some s \<Rightarrow> s)
      in \<lparr>se_organization = or_number (organization_string t),
          se_namespace = or_number (namespace_string t),
          se_agent_type = or_number (agent_type_string t),
          se_agent_id = Some agent_id,
          se_local_connections = map (\<lambda>cid. \<lparr>en_id = cid, en_connection_type = Proto_Local, en_ip = '''', en_port = 0\<rparr>) local,
          se_remote_connections = map (\<lambda>cid. remote_entry cid (connection_table_get conn_table (unat cid))) remote\<rparr>)"

definition subscription_entries :: "'b processor \<Rightarrow> subscription_entry list" where
  "subscription_entries st =
     st_for_each (fw_subscription_table (mp_forwarder st))
       (\<lambda>t i local remote entries.
          entries @ [subscription_table_entry (fw_connection_table (mp_forwarder st)) t i local remote]) []"

definition connection_entries :: "'b processor \<Rightarrow> connection_entry list" where
  "connection_entries st =
     connection_table_for_each (fw_connection_table (mp_forwarder st))
       (\<lambda>i conn entries. entries @ [remote_entry (of_nat i) (Some conn)]) []"

text \<open>The \<open>k\<close>-th chunk is lost when the channel has no room for it.\<close>

fun send_chunks ::
    "ctl_env \<Rightarrow> ('a list \<Rightarrow> control_payload) \<Rightarrow> nat \<Rightarrow> 'a list list \<Rightarrow> control_message list \<Rightarrow> control_message list" where
  "send_chunks env response k [] out = out"
| "send_chunks env response k (chunk # rest) out =
     send_chunks env response (k + 1) rest
       (if ce_room env k then out @ [\<lparr>cm_message_id = ce_uuid env k, cm_payload = Some (response chunk)\<rparr>] else out)"

section \<open>The handler and its loop\<close>

definition handle_new_control_message ::
    "'b bitvec_ops \<Rightarrow> ctl_env \<Rightarrow> 'b controller_service \<Rightarrow> control_message \<Rightarrow> control_message list \<Rightarrow>
     ((controller_error + unit) \<times> 'b controller_service \<times> control_message list) option" where
  "handle_new_control_message BV env ctl msg tx = (case cm_payload msg of
      Some (ConfigCommand config) \<Rightarrow> do {
        (r, ctl) \<leftarrow> create_connections BV env ctl (connections_to_create config);
        case r of
          Inl e \<Rightarrow> Some (Inl e, ctl, tx)
        | Inr _ \<Rightarrow> do {
            ctl \<leftarrow> each_subscription (set_subscription BV env) ctl (subscriptions_to_set config);
            ctl \<leftarrow> each_subscription (delete_subscription BV env) ctl (subscriptions_to_delete config);
            let ack = \<lparr>ack_original_message_id = cm_message_id msg, ack_success = True, ack_messages = []\<rparr>;
            let reply = \<lparr>cm_message_id = ce_uuid env 0, cm_payload = Some (AckPayload ack)\<rparr>;
            Some (Inr (), ctl, if ce_reply_open env then tx @ [reply] else tx)
          }
      }
    | Some SubscriptionListRequest \<Rightarrow>
        Some (Inr (), ctl, send_chunks env SubscriptionListResponse 0
          (chunks CHUNK_SIZE (subscription_entries (ctl_message_processor ctl))) tx)
    | Some ConnectionListRequest \<Rightarrow>
        Some (Inr (), ctl, send_chunks env ConnectionListResponse 0
          (chunks CHUNK_SIZE (connection_entries (ctl_message_processor ctl))) tx)
    | Some (AckPayload _) \<Rightarrow> Some (Inr (), ctl, tx)
    | Some (SubscriptionListResponse _) \<Rightarrow> Some (Inr (), ctl, tx)
    | Some (ConnectionListResponse _) \<Rightarrow> Some (Inr (), ctl, tx)
    | None \<Rightarrow> Some (Inr (), ctl, tx))"

datatype control_event = Control_Msg control_message | Control_Error | Control_End | Control_Cancelled

text \<open>The task of one control stream works on a clone of the service, which shares all but \<open>tx_slim\<close>.\<close>

fun process_control_message_stream ::
    "'b bitvec_ops \<Rightarrow> ctl_env \<Rightarrow> 'b controller_service \<Rightarrow> control_event list \<Rightarrow> control_message list \<Rightarrow>
     ('b controller_service \<times> control_message list) option" where
  "process_control_message_stream BV env svc [] tx = Some (svc, tx)"
| "process_control_message_stream BV env svc (Control_Msg msg # events) tx = do {
     (_, svc, tx) \<leftarrow> handle_new_control_message BV env svc msg tx;
     process_control_message_stream BV env svc events tx
   }"
| "process_control_message_stream BV env svc (Control_Error # events) tx = Some (svc, tx)"
| "process_control_message_stream BV env svc (Control_End # events) tx = Some (svc, tx)"
| "process_control_message_stream BV env svc (Control_Cancelled # events) tx = Some (svc, tx)"

text \<open>
  When the stream ends the clone is dropped, and with it the channel it may have registered with
  the message processor. The end of that local connection is a later event of the message
  processor, the end of the stream of the connection (\<open>process_stream\<close>), and no part of this step.
\<close>

definition open_control_channel ::
    "'b bitvec_ops \<Rightarrow> ctl_env \<Rightarrow> 'b controller_service \<Rightarrow> control_event list \<Rightarrow>
     ('b controller_service \<times> control_message list) option" where
  "open_control_channel BV env ctl events = do {
     (svc, tx) \<leftarrow> process_control_message_stream BV env ctl events [];
     Some (svc\<lparr>ctl_tx_slim := ctl_tx_slim ctl\<rparr>, tx)
   }"

text \<open>
  Connecting to a remote control plane: \<open>attempts i\<close> gives the events of the stream that the
  \<open>i\<close>-th attempt opens.
\<close>

fun controller_connect_loop ::
    "'b bitvec_ops \<Rightarrow> ctl_env \<Rightarrow> 'b controller_service \<Rightarrow> (nat \<Rightarrow> control_event list option) \<Rightarrow> nat \<Rightarrow> nat \<Rightarrow>
     ((controller_error + control_message list) \<times> 'b controller_service) option" where
  "controller_connect_loop BV env ctl attempts i 0 =
     Some (Inl (Ctl_ConnectionError ''reached max connection retries''), ctl)"
| "controller_connect_loop BV env ctl attempts i (Suc left) = (case attempts i of
      Some stream \<Rightarrow> do {
        (ctl, tx) \<leftarrow> open_control_channel BV env ctl stream;
        Some (Inr tx, ctl)
      }
    | None \<Rightarrow> controller_connect_loop BV env ctl attempts (i + 1) left)"

definition controller_connect ::
    "'b bitvec_ops \<Rightarrow> ctl_env \<Rightarrow> 'b controller_service \<Rightarrow> (nat \<Rightarrow> control_event list option) \<Rightarrow>
     ((controller_error + control_message list) \<times> 'b controller_service) option" where
  "controller_connect BV env ctl attempts = controller_connect_loop BV env ctl attempts 0 10"

section \<open>Lists in chunks\<close>

lemma chunks_properties:
  assumes "0 < n"
  shows "concat (chunks n xs) = xs" and "\<forall>c\<in>set (chunks n xs). c \<noteq> [] \<and> length c \<le> n"
proof -
  have "concat (chunks n xs) = xs \<and> (\<forall>c\<in>set (chunks n xs). c \<noteq> [] \<and> length c \<le> n)"
    using assms by (induction n xs rule: chunks.induct) (subst (1 2) chunks.simps, simp)
  then show "concat (chunks n xs) = xs" "\<forall>c\<in>set (chunks n xs). c \<noteq> [] \<and> length c \<le> n" by blast+
qed

lemma send_chunks_room:
  assumes "\<And>k. ce_room env k"
  shows "\<exists>ids. length ids = length cs \<and> send_chunks env response k cs out =
    out @ map2 (\<lambda>i c. \<lparr>cm_message_id = i, cm_payload = Some (response c)\<rparr>) ids cs"
proof (induction cs arbitrary: k out)
  case (Cons c cs)
  obtain ids where "length ids = length cs" "send_chunks env response (k + 1) cs
      (out @ [\<lparr>cm_message_id = ce_uuid env k, cm_payload = Some (response c)\<rparr>]) =
      (out @ [\<lparr>cm_message_id = ce_uuid env k, cm_payload = Some (response c)\<rparr>]) @
        map2 (\<lambda>i c. \<lparr>cm_message_id = i, cm_payload = Some (response c)\<rparr>) ids cs"
    using Cons.IH by blast
  then show ?case using assms by (intro exI [of _ "ce_uuid env k # ids"]) simp
qed simp

text \<open>The entries of a sequence of replies.\<close>

definition listed_subscriptions :: "control_message list \<Rightarrow> subscription_entry list" where
  "listed_subscriptions replies = concat (map (\<lambda>r. case cm_payload r of
     Some (SubscriptionListResponse es) \<Rightarrow> es | _ \<Rightarrow> []) replies)"

definition listed_connections :: "control_message list \<Rightarrow> connection_entry list" where
  "listed_connections replies = concat (map (\<lambda>r. case cm_payload r of
     Some (ConnectionListResponse es) \<Rightarrow> es | _ \<Rightarrow> []) replies)"

lemma listed_map2:
  "length ids = length cs \<Longrightarrow>
   listed_subscriptions (map2 (\<lambda>i c. \<lparr>cm_message_id = i, cm_payload = Some (SubscriptionListResponse c)\<rparr>) ids cs) = concat cs"
  "length ids = length cs' \<Longrightarrow>
   listed_connections (map2 (\<lambda>i c. \<lparr>cm_message_id = i, cm_payload = Some (ConnectionListResponse c)\<rparr>) ids cs') = concat cs'"
  by (induction ids cs rule: list_induct2; simp add: listed_subscriptions_def)
    (induction ids cs' rule: list_induct2; simp add: listed_connections_def)

section \<open>The subscriptions listed\<close>

lemma fold_append:
  "fold (\<lambda>x acc. acc @ f x) xs = (\<lambda>acc. acc @ concat (map f xs))"
  "fold (\<lambda>x acc. acc @ [g x]) xs = (\<lambda>acc. acc @ map g xs)"
  by (induction xs) (auto simp: fun_eq_iff)

lemma subscription_entries_eq:
  "subscription_entries st = concat (map (\<lambda>(k, v). map (\<lambda>(i, conn).
     subscription_table_entry (fw_connection_table (mp_forwarder st)) k i (fst conn) (snd conn)) (ats_ids v))
     (st_table (fw_subscription_table (mp_forwarder st))))"
  by (simp add: subscription_entries_def st_for_each_def case_prod_beta' fold_append)

lemma in_rows:
  "e \<in> set (concat (map (\<lambda>(k, v). map (\<lambda>(i, w). f k i w) (g v)) tb)) \<longleftrightarrow>
     (\<exists>k i w v. (k, v) \<in> set tb \<and> (i, w) \<in> set (g v) \<and> e = f k i w)"
  by (force simp: image_iff)

text \<open>Every subscription of the table has been made under a name with strings.\<close>

definition table_named :: "(u8 list \<Rightarrow> u64) \<Rightarrow> 'b subscription_table \<Rightarrow> bool" where
  "table_named xx T \<longleftrightarrow> (\<forall>k\<in>fst ` set (st_table T). \<exists>org ns ty. k = agent_type_from_strings xx org ns ty)"

definition entry_type :: "(u8 list \<Rightarrow> u64) \<Rightarrow> subscription_entry \<Rightarrow> agent_type" where
  "entry_type xx e = agent_type_from_strings xx (se_organization e) (se_namespace e) (se_agent_type e)"

definition entry_side :: "bool \<Rightarrow> subscription_entry \<Rightarrow> connection_entry list" where
  "entry_side local e = (if local then se_local_connections e else se_remote_connections e)"

lemma subscription_table_entry_read:
  "entry_type xx (subscription_table_entry ct (agent_type_from_strings xx org ns ty) i lo re) = agent_type_from_strings xx org ns ty"
  "se_agent_id (subscription_table_entry ct t i lo re) = Some i"
  "en_id ` set (entry_side l (subscription_table_entry ct t i lo re)) = set (side l (lo, re))"
  by (auto simp: entry_type_def subscription_table_entry_def Let_def entry_side_def side_def remote_entry_def image_image)

lemma subscription_entries_spec:
  assumes "st_inv BV T" and "table_named xx T" and T: "T = fw_subscription_table (mp_forwarder st)"
  shows "st_subs T t i c l \<longleftrightarrow> (\<exists>e\<in>set (subscription_entries st).
    agent_type_eq (entry_type xx e) t \<and> se_agent_id e = Some i \<and> c \<in> en_id ` set (entry_side l e))"
proof -
  let ?ct = "fw_connection_table (mp_forwarder st)"
  have wf: "hm_wf agent_type_eq (st_table T)" using assms(1) by (simp add: st_inv_def tab_inv_def)
  have ids: "hm_wf (=) (ats_ids v)" if "(k, v) \<in> set (st_table T)" for k v
    using at_eq.hm_get_SomeI [OF wf that at_eq.eq_refl] assms(1) by (auto simp: st_inv_def tab_inv_def ats_inv_def)
  have holds: "ats_holds v l i c \<longleftrightarrow> (\<exists>w. (i, w) \<in> set (ats_ids v) \<and> c \<in> set (side l w))"
    if "(k, v) \<in> set (st_table T)" for k v
  proof -
    have "(i, w) \<in> set (ats_ids v) \<longleftrightarrow> hm_get (=) i (ats_ids v) = Some w" for w
      using ids [OF that] by (simp add: hm_get_map_of hm_wf_plain)
    then show ?thesis by (cases "hm_get (=) i (ats_ids v)") (auto simp: ats_holds_def ats_vec_def side_def)
  qed
  have "st_subs T t i c l \<longleftrightarrow> (\<exists>k v. (k, v) \<in> set (st_table T) \<and> agent_type_eq k t \<and>
      (\<exists>w. (i, w) \<in> set (ats_ids v) \<and> c \<in> set (side l w)))"
    using holds at_eq.hm_get_SomeD [of t "st_table T"] at_eq.hm_get_SomeI [OF wf] unfolding st_subs_def tab_subs_def by metis
  also have "\<dots> \<longleftrightarrow> (\<exists>e\<in>set (subscription_entries st).
    agent_type_eq (entry_type xx e) t \<and> se_agent_id e = Some i \<and> c \<in> en_id ` set (entry_side l e))"
  proof -
    define row where "row e k j w \<longleftrightarrow> (\<exists>v. (k, v) \<in> set (st_table T) \<and> (j, w) \<in> set (ats_ids v) \<and>
      e = subscription_table_entry ?ct k j (fst w) (snd w))" for e k j w
    have r: "entry_type xx e = k \<and> se_agent_id e = Some j \<and> en_id ` set (entry_side l e) = set (side l w)" if row: "row e k j w" for e k j w
    proof -
      obtain org ns ty where "k = agent_type_from_strings xx org ns ty"
        using row assms(2) by (force simp: row_def table_named_def)
      then show ?thesis using row unfolding row_def by (elim exE conjE) (simp add: subscription_table_entry_read)
    qed
    have rows: "e \<in> set (subscription_entries st) \<longleftrightarrow> (\<exists>k j w. row e k j w)" for e
      unfolding subscription_entries_eq T [symmetric] row_def by (rule in_rows)
    have "(\<exists>k v. (k, v) \<in> set (st_table T) \<and> agent_type_eq k t \<and> (\<exists>w. (i, w) \<in> set (ats_ids v) \<and> c \<in> set (side l w))) \<longleftrightarrow>
        (\<exists>e k w. row e k i w \<and> agent_type_eq k t \<and> c \<in> set (side l w))"
      unfolding row_def by blast
    also have "\<dots> \<longleftrightarrow> (\<exists>e k j w. row e k j w \<and> agent_type_eq (entry_type xx e) t \<and> se_agent_id e = Some i \<and>
        c \<in> en_id ` set (entry_side l e))"
      by (intro iffI; elim exE conjE; frule r; elim conjE; intro exI conjI; assumption?; simp)
    finally show ?thesis using rows by blast
  qed
  finally show ?thesis .
qed


section \<open>Creating connections and routes\<close>

lemma established_fresh:
  assumes "bit_vec BV" and inv: "mp_inv BV st" and free: "get_connection (mp_forwarder st) c = None"
  shows "\<exists>x fw. on_connection_established BV (mp_forwarder st) conn None = Some (Some x, fw) \<and> mp_inv BV (st\<lparr>mp_forwarder := fw\<rparr>) \<and>
    get_connection (mp_forwarder st) x = None \<and> get_connection fw = (get_connection (mp_forwarder st))(x \<mapsto> conn) \<and>
    fw_subscription_table fw = fw_subscription_table (mp_forwarder st)"
proof -
  obtain x fw where fw: "on_connection_established BV (mp_forwarder st) conn None = Some (Some (of_nat x), fw)"
      "fw_inv BV is_local_connection fw" "fw_subscription_table fw = fw_subscription_table (mp_forwarder st)"
      "pool_get (fw_connection_table (mp_forwarder st)) x = None"
      "\<forall>j<x. pool_get (fw_connection_table (mp_forwarder st)) j \<noteq> None"
      "pool_get (fw_connection_table fw) = (pool_get (fw_connection_table (mp_forwarder st)))(x \<mapsto> conn)"
    using bit_vec.fw_connect_spec [OF assms(1) mp_inv_fw [OF inv], of conn] by blast
  have "x \<le> unat c" using fw(5) free by (metis get_connection_def connection_table_get_def not_le_imp_less)
  moreover have "unat c < 2 ^ LENGTH(64)" by (rule unsigned_less)
  ultimately have "x < 2 ^ LENGTH(64)" by (rule le_less_trans)
  then have x: "unat (of_nat x :: u64) = x" by (simp add: unsigned_of_nat take_bit_nat_eq_self)
  have "fw_remote_subscription_table fw = fw_remote_subscription_table (mp_forwarder st)"
    using fw(1) by (auto simp: on_connection_established_def bind_eq_Some_conv)
  then have "mp_inv BV (st\<lparr>mp_forwarder := fw\<rparr>)" using fw(2) inv by (simp add: mp_inv_def)
  moreover have "get_connection fw = (get_connection (mp_forwarder st))(of_nat x \<mapsto> conn)"
    using fw(6) x by (auto simp: fun_eq_iff get_connection_def connection_table_get_def)
  ultimately show ?thesis using fw(1,3,4) x by (auto simp: get_connection_def connection_table_get_def)
qed

definition endpoint_of :: "proto_connection \<Rightarrow> string" where
  "endpoint_of conn = pc_remote_address conn @ '':'' @ show_i32 (pc_remote_port conn)"

text \<open>What the environment provides for a new connection to be made.\<close>

definition reachable_endpoint :: "ctl_env \<Rightarrow> proto_connection \<Rightarrow> socket_addr \<Rightarrow> nat \<times> nat \<Rightarrow> bool" where
  "reachable_endpoint env conn sock p \<longleftrightarrow> (\<exists>socks. ce_resolve env (endpoint_of conn) = Inr (sock # socks)) \<and>
     ce_channel env (''http://'' @ endpoint_of conn) = Inr () \<and>
     first_attempt (ce_attempts env (endpoint_of conn)) 0 10 = Some p"

lemma create_connection_new:
  assumes "bit_vec BV" and "mp_inv BV (ctl_message_processor ctl)"
    and "get_connection (mp_forwarder (ctl_message_processor ctl)) c = None"
    and env: "reachable_endpoint env conn sock p" and new: "hm_get (=) (endpoint_of conn) (ctl_connections ctl) = None"
  shows "\<exists>x st. create_connection BV env ctl conn = Some (Inr (), ctl\<lparr>ctl_message_processor := st,
      ctl_connections := hm_insert (=) (endpoint_of conn) x (ctl_connections ctl)\<rparr>) \<and> mp_inv BV st \<and>
    get_connection (mp_forwarder (ctl_message_processor ctl)) x = None \<and>
    get_connection (mp_forwarder st) = (get_connection (mp_forwarder (ctl_message_processor ctl)))(x \<mapsto> client_connection None (Some sock) p) \<and>
    fw_subscription_table (mp_forwarder st) = fw_subscription_table (mp_forwarder (ctl_message_processor ctl))"
proof -
  obtain x fw where "on_connection_established BV (mp_forwarder (ctl_message_processor ctl)) (client_connection None (Some sock) p) None = Some (Some x, fw)"
      "mp_inv BV ((ctl_message_processor ctl)\<lparr>mp_forwarder := fw\<rparr>)" "get_connection (mp_forwarder (ctl_message_processor ctl)) x = None"
      "get_connection fw = (get_connection (mp_forwarder (ctl_message_processor ctl)))(x \<mapsto> client_connection None (Some sock) p)"
      "fw_subscription_table fw = fw_subscription_table (mp_forwarder (ctl_message_processor ctl))"
    using established_fresh [OF assms(1-3)] by blast
  then show ?thesis using env new
    by (intro exI [of _ x] exI [of _ "(ctl_message_processor ctl)\<lparr>mp_forwarder := fw\<rparr>"])
      (auto simp: create_connection_def reachable_endpoint_def endpoint_of_def hm_contains_def mp_connect_def try_to_connect_result)
qed

lemma tx_slim_ready:
  assumes "bit_vec BV" and "mp_inv BV (ctl_message_processor ctl)"
    and "ctl_tx_slim ctl = None \<Longrightarrow> get_connection (mp_forwarder (ctl_message_processor ctl)) c = None"
  shows "\<exists>tx st. tx_slim_get_or_init BV env ctl = Some (tx, ctl\<lparr>ctl_message_processor := st, ctl_tx_slim := Some tx\<rparr>) \<and> mp_inv BV st \<and>
    fw_subscription_table (mp_forwarder st) = fw_subscription_table (mp_forwarder (ctl_message_processor ctl)) \<and>
    (\<forall>d k. get_connection (mp_forwarder (ctl_message_processor ctl)) d = Some k \<longrightarrow> get_connection (mp_forwarder st) d = Some k)"
proof (cases "ctl_tx_slim ctl")
  case None
  let ?conn = "with_cancellation_token (with_channel (connection_new Local) (Server (fst (ce_local env)))) (Some (snd (ce_local env)))"
  obtain x fw where "on_connection_established BV (mp_forwarder (ctl_message_processor ctl)) ?conn None = Some (Some x, fw)"
      "mp_inv BV ((ctl_message_processor ctl)\<lparr>mp_forwarder := fw\<rparr>)" "get_connection (mp_forwarder (ctl_message_processor ctl)) x = None"
      "get_connection fw = (get_connection (mp_forwarder (ctl_message_processor ctl)))(x \<mapsto> ?conn)"
      "fw_subscription_table fw = fw_subscription_table (mp_forwarder (ctl_message_processor ctl))"
    using established_fresh [OF assms(1,2) assms(3) [OF None]] by blast
  then show ?thesis using None
    by (intro exI [of _ x] exI [of _ "(ctl_message_processor ctl)\<lparr>mp_forwarder := fw\<rparr>"])
      (auto simp: tx_slim_get_or_init_def register_local_connection_def)
next
  case (Some tx)
  then show ?thesis using assms(2)
    by (intro exI [of _ tx] exI [of _ "ctl_message_processor ctl"]) (auto simp: tx_slim_get_or_init_def)
qed

text \<open>The messages that set and delete the route of a subscription over a connection.\<close>

lemma set_message:
  obtains m where "new_subscribe (subscription_source xx s) (subscription_type xx s) i (Some (with_recv_from flags_default conn)) = Some m"
    "message_validate m = Ok ()" "msg_get_source m \<noteq> None" "msg_get_name xx m = Some (subscription_type xx s, i)"
    "is_subscribe m = Some True" "\<forall>e. sub_conn e m = conn" "\<exists>h. get_slim_header m = Some h \<and> sh_recv_from h \<noteq> None"
proof -
  have wf: "agent_type_wf xx (subscription_type xx s)" "at_strings (subscription_type xx s) \<noteq> None"
    by (simp_all add: subscription_type_def)
  obtain m where m: "new_subscribe (subscription_source xx s) (subscription_type xx s) i (Some (with_recv_from flags_default conn)) = Some m"
    using new_subscribe_spec [OF wf(1), of i "subscription_source xx s" "Some (with_recv_from flags_default conn)"] wf(2)
    by (auto split: option.splits)
  show thesis
    using that [OF m new_subscribe_name(2) [OF wf(1) m] _ new_subscribe_name(1) [OF wf(1) m] new_subscribe_form(2) [OF m]]
      new_subscribe_form(1,3) [OF m]
    by (simp add: sub_conn_def slim_header_new_def Let_def with_recv_from_def subscription_source_def agent_from_strings_def
        DEFAULT_AGENT_ID_def)
qed


text \<open>
  What setting and deleting a route have in common: one message \<open>m\<close> is sent on the controller's
  local connection \<open>l\<close>, and the data path that handles it changes its subscriptions by \<open>op\<close>.
\<close>

definition route_changed ::
    "'b bitvec_ops \<Rightarrow> mp_env \<Rightarrow> 'b controller_service \<Rightarrow> 'b controller_service \<Rightarrow> sub_op \<Rightarrow> bool" where
  "route_changed BV menv ctl ctl' op \<longleftrightarrow> (\<exists>l m r st'. ctl_sent ctl' = ctl_sent ctl @ [(l, m)] \<and>
     handle_new_message BV menv (ctl_message_processor ctl') l m = Some (r, st') \<and> mp_inv BV st' \<and>
     st_subs (fw_subscription_table (mp_forwarder st')) =
       sub_step op (st_subs (fw_subscription_table (mp_forwarder (ctl_message_processor ctl)))) \<and>
     (\<forall>d k. get_connection (mp_forwarder (ctl_message_processor ctl)) d = Some k \<longrightarrow>
        get_connection (mp_forwarder st') d = Some k))"

lemma send_control_message_applied:
  assumes "bit_vec BV" and "mp_inv BV (ctl_message_processor ctl)"
    and "ctl_tx_slim ctl = None \<Longrightarrow> get_connection (mp_forwarder (ctl_message_processor ctl)) c = None"
    and up: "\<And>x. ce_slim_open env x" and conn: "get_connection (mp_forwarder (ctl_message_processor ctl)) conn = Some k"
    and m: "message_validate m = Ok ()" "msg_get_source m \<noteq> None" "msg_get_name (env_hash menv) m = Some (t, i)"
      "if add then is_subscribe m = Some True else is_unsubscribe m = Some True" "\<And>e. sub_conn e m = conn"
      "\<exists>h. get_slim_header m = Some h \<and> sh_recv_from h \<noteq> None"
    and legal: "add \<or> removable (st_subs (fw_subscription_table (mp_forwarder (ctl_message_processor ctl)))) t (uid_or_default i) conn (is_local_connection k)"
  shows "\<exists>ctl'. send_control_message BV env ctl m = Some (Inr (), ctl') \<and> ctl_connections ctl' = ctl_connections ctl \<and>
    route_changed BV menv ctl ctl' (if add then Sub_Add t i conn (is_local_connection k) else Sub_Remove t i conn (is_local_connection k))"
proof -
  obtain tx st where tx: "tx_slim_get_or_init BV env ctl = Some (tx, ctl\<lparr>ctl_message_processor := st, ctl_tx_slim := Some tx\<rparr>)" "mp_inv BV st"
      "fw_subscription_table (mp_forwarder st) = fw_subscription_table (mp_forwarder (ctl_message_processor ctl))"
      "\<And>d k. get_connection (mp_forwarder (ctl_message_processor ctl)) d = Some k \<Longrightarrow> get_connection (mp_forwarder st) d = Some k"
    using tx_slim_ready [OF assms(1-3), of env] by blast
  obtain h where h: "get_slim_header m = Some h" "sh_recv_from h \<noteq> None" using m(6) by blast
  obtain r st' where st': "handle_new_message BV menv st tx m = Some (r, st')" "mp_inv BV st'"
      "st_subs (fw_subscription_table (mp_forwarder st')) = sub_step (if add then Sub_Add t i conn (is_local_connection k)
        else Sub_Remove t i conn (is_local_connection k)) (st_subs (fw_subscription_table (mp_forwarder st)))"
      "fw_connection_table (mp_forwarder st') = fw_connection_table (mp_forwarder st)"
    using subscription_applied [OF assms(1) tx(2) m(1-4) h(1), of tx k] h(2) m(5) tx(4) [OF conn] legal tx(3) by auto
  let ?ctl = "ctl\<lparr>ctl_message_processor := st, ctl_tx_slim := Some tx, ctl_sent := ctl_sent ctl @ [(tx, m)]\<rparr>"
  have "send_control_message BV env ctl m = Some (Inr (), ?ctl)" using tx(1) up by (simp add: send_control_message_def)
  moreover have "get_connection (mp_forwarder st') d = Some k'" if "get_connection (mp_forwarder (ctl_message_processor ctl)) d = Some k'" for d k'
    using tx(4) [OF that] st'(4) by (simp add: get_connection_def)
  ultimately show ?thesis using st' tx(3)
    by (intro exI [of _ ?ctl]) (simp add: route_changed_def)
qed

lemma set_subscription_known:
  assumes "bit_vec BV" and "mp_inv BV (ctl_message_processor ctl)"
    and "ctl_tx_slim ctl = None \<Longrightarrow> get_connection (mp_forwarder (ctl_message_processor ctl)) c = None"
    and "\<And>x. ce_slim_open env x" and "get_connection (mp_forwarder (ctl_message_processor ctl)) conn = Some k"
    and known: "hm_get (=) (ps_connection_id s) (ctl_connections ctl) = Some conn" and xx: "env_hash menv = ce_hash env"
  shows "\<exists>ctl'. set_subscription BV env ctl s = Some ctl' \<and> ctl_connections ctl' = ctl_connections ctl \<and>
    route_changed BV menv ctl ctl' (Sub_Add (subscription_type (ce_hash env) s) (ps_agent_id s) conn (is_local_connection k))"
proof -
  obtain m where m: "new_subscribe (subscription_source (ce_hash env) s) (subscription_type (ce_hash env) s) (ps_agent_id s)
      (Some (with_recv_from flags_default conn)) = Some m" "message_validate m = Ok ()" "msg_get_source m \<noteq> None"
      "msg_get_name (ce_hash env) m = Some (subscription_type (ce_hash env) s, ps_agent_id s)"
      "is_subscribe m = Some True" "\<forall>e. sub_conn e m = conn" "\<exists>h. get_slim_header m = Some h \<and> sh_recv_from h \<noteq> None"
    using set_message .
  obtain ctl' where "send_control_message BV env ctl m = Some (Inr (), ctl')" "ctl_connections ctl' = ctl_connections ctl"
      "route_changed BV menv ctl ctl' (Sub_Add (subscription_type (ce_hash env) s) (ps_agent_id s) conn (is_local_connection k))"
    using send_control_message_applied [OF assms(1-5) m(2,3) m(4) [folded xx] _ m(6) [THEN spec] m(7), where add = True] m(5) xx by auto
  then show ?thesis using m(1) known by (simp add: set_subscription_def)
qed

lemma delete_subscription_known:
  assumes "bit_vec BV" and "mp_inv BV (ctl_message_processor ctl)"
    and "ctl_tx_slim ctl = None \<Longrightarrow> get_connection (mp_forwarder (ctl_message_processor ctl)) c = None"
    and "\<And>x. ce_slim_open env x" and "get_connection (mp_forwarder (ctl_message_processor ctl)) conn = Some k"
    and known: "hm_get (=) (ps_connection_id s) (ctl_connections ctl) = Some conn"
    and legal: "removable (st_subs (fw_subscription_table (mp_forwarder (ctl_message_processor ctl)))) (subscription_type (ce_hash env) s)
      (uid_or_default (ps_agent_id s)) conn (is_local_connection k)"
  shows "\<exists>ctl'. delete_subscription BV env ctl s = Some ctl' \<and> ctl_connections ctl' = ctl_connections ctl \<and>
    route_changed BV menv ctl ctl' (Sub_Remove (subscription_type (ce_hash env) s) (ps_agent_id s) conn (is_local_connection k))"
proof -
  let ?t = "subscription_type (ce_hash env) s"
  let ?m = "new_unsubscribe (subscription_source (ce_hash env) s) ?t (ps_agent_id s) (Some (with_recv_from flags_default conn))"
  let ?u = "agent_type_from_proto (proto_agent_from_type ?t (ps_agent_id s))"
  have eq: "agent_type_eq ?u ?t" by simp
  have m: "message_validate ?m = Ok ()" "msg_get_source ?m \<noteq> None" "msg_get_name (env_hash menv) ?m = Some (?u, ps_agent_id s)"
      "is_unsubscribe ?m = Some True" "\<And>e. sub_conn e ?m = conn" "\<exists>h. get_slim_header ?m = Some h \<and> sh_recv_from h \<noteq> None"
    using new_unsubscribe_form [where src = "subscription_source (ce_hash env) s" and t = ?t and i = "ps_agent_id s" and
        flags = "Some (with_recv_from flags_default conn)"]
    by (simp_all add: sub_conn_def slim_header_new_def Let_def with_recv_from_def subscription_source_def agent_from_strings_def
        DEFAULT_AGENT_ID_def)
  have legal': "False \<or> removable (st_subs (fw_subscription_table (mp_forwarder (ctl_message_processor ctl)))) ?u
      (uid_or_default (ps_agent_id s)) conn (is_local_connection k)"
    using legal by (simp add: removable_def st_subs_def tab_subs_cong [OF eq])
  have step: "sub_step (Sub_Remove ?u (ps_agent_id s) conn (is_local_connection k)) = sub_step (Sub_Remove ?t (ps_agent_id s) conn (is_local_connection k))"
    using at_eq.eq_left [OF eq] by (simp add: fun_eq_iff)
  obtain ctl' where "send_control_message BV env ctl ?m = Some (Inr (), ctl')" "ctl_connections ctl' = ctl_connections ctl"
      "route_changed BV menv ctl ctl' (Sub_Remove ?u (ps_agent_id s) conn (is_local_connection k))"
    using send_control_message_applied [OF assms(1-5) m(1-3) _ m(5,6) legal'] m(4) by auto
  then show ?thesis using known step by (simp add: delete_subscription_def route_changed_def)
qed


section \<open>Properties\<close>

text \<open>The reply to a configuration command.\<close>

definition acknowledgement :: "ctl_env \<Rightarrow> control_message \<Rightarrow> control_message" where
  "acknowledgement env msg = \<lparr>cm_message_id = ce_uuid env 0, cm_payload = Some (AckPayload
     \<lparr>ack_original_message_id = cm_message_id msg, ack_success = True, ack_messages = []\<rparr>)\<rparr>"

definition config_message :: "string \<Rightarrow> proto_connection list \<Rightarrow> proto_subscription list \<Rightarrow> proto_subscription list \<Rightarrow> control_message" where
  "config_message i cs add del = \<lparr>cm_message_id = i, cm_payload = Some (ConfigCommand
     \<lparr>connections_to_create = cs, subscriptions_to_set = add, subscriptions_to_delete = del\<rparr>)\<rparr>"

lemma add_route_spec:
  assumes "bit_vec BV" and "mp_inv BV (ctl_message_processor ctl)"
    and free: "c \<noteq> d" "get_connection (mp_forwarder (ctl_message_processor ctl)) c = None"
      "get_connection (mp_forwarder (ctl_message_processor ctl)) d = None"
    and "reachable_endpoint env conn sock p" and "hm_get (=) (endpoint_of conn) (ctl_connections ctl) = None"
    and "\<And>x. ce_slim_open env x" and "ce_reply_open env" and xx: "env_hash menv = ce_hash env"
    and s: "ps_connection_id s = endpoint_of conn"
  shows "\<exists>ctl' l m x r st'.
    handle_new_control_message BV env ctl (config_message i [conn] [s] []) tx =
      Some (Inr (), ctl', tx @ [acknowledgement env (config_message i [conn] [s] [])]) \<and>
    ctl_sent ctl' = ctl_sent ctl @ [(l, m)] \<and>
    hm_get (=) (endpoint_of conn) (ctl_connections ctl') = Some x \<and>
    get_connection (mp_forwarder (ctl_message_processor ctl)) x = None \<and>
    handle_new_message BV menv (ctl_message_processor ctl') l m = Some (r, st') \<and> mp_inv BV st' \<and>
    get_connection (mp_forwarder st') x = Some (client_connection None (Some sock) p) \<and>
    st_subs (fw_subscription_table (mp_forwarder st')) =
      sub_step (Sub_Add (subscription_type (ce_hash env) s) (ps_agent_id s) x False)
        (st_subs (fw_subscription_table (mp_forwarder (ctl_message_processor ctl))))"
proof -
  let ?fw = "mp_forwarder (ctl_message_processor ctl)"
  obtain x st where x: "create_connection BV env ctl conn = Some (Inr (), ctl\<lparr>ctl_message_processor := st,
      ctl_connections := hm_insert (=) (endpoint_of conn) x (ctl_connections ctl)\<rparr>)" "mp_inv BV st" "get_connection ?fw x = None"
      "get_connection (mp_forwarder st) = (get_connection ?fw)(x \<mapsto> client_connection None (Some sock) p)"
      "fw_subscription_table (mp_forwarder st) = fw_subscription_table ?fw"
    using create_connection_new [OF assms(1,2) free(2) assms(6,7)] by blast
  let ?ctl = "ctl\<lparr>ctl_message_processor := st, ctl_connections := hm_insert (=) (endpoint_of conn) x (ctl_connections ctl)\<rparr>"
  have *: "get_connection (mp_forwarder (ctl_message_processor ?ctl)) (if x = c then d else c) = None"
    using free x(4) by simp
  obtain ctl' where ctl': "set_subscription BV env ?ctl s = Some ctl'" "ctl_connections ctl' = ctl_connections ?ctl"
      "route_changed BV menv ?ctl ctl' (Sub_Add (subscription_type (ce_hash env) s) (ps_agent_id s) x False)"
    using set_subscription_known [where ctl = ?ctl and conn = x and k = "client_connection None (Some sock) p" and s = s,
        OF assms(1) _ * assms(8) _ _ xx] x(2,4) s by auto
  have "handle_new_control_message BV env ctl (config_message i [conn] [s] []) tx =
      Some (Inr (), ctl', tx @ [acknowledgement env (config_message i [conn] [s] [])])"
    using x(1) ctl'(1) assms(9) by (simp add: handle_new_control_message_def config_message_def acknowledgement_def)
  then show ?thesis using ctl'(2,3) x(3,4,5) unfolding route_changed_def
    by (elim exE conjE) (intro exI conjI, assumption+, auto)
qed

lemma delete_route_spec:
  assumes "bit_vec BV" and "mp_inv BV (ctl_message_processor ctl)"
    and "ctl_tx_slim ctl = None \<Longrightarrow> get_connection (mp_forwarder (ctl_message_processor ctl)) c = None"
    and "\<And>x. ce_slim_open env x" and "ce_reply_open env"
    and "hm_get (=) (ps_connection_id s) (ctl_connections ctl) = Some x"
    and "get_connection (mp_forwarder (ctl_message_processor ctl)) x = Some k"
    and "st_subs (fw_subscription_table (mp_forwarder (ctl_message_processor ctl))) (subscription_type (ce_hash env) s)
      (uid_or_default (ps_agent_id s)) x (is_local_connection k)"
  shows "\<exists>ctl' l m r st'.
    handle_new_control_message BV env ctl (config_message i [] [] [s]) tx =
      Some (Inr (), ctl', tx @ [acknowledgement env (config_message i [] [] [s])]) \<and>
    ctl_sent ctl' = ctl_sent ctl @ [(l, m)] \<and>
    handle_new_message BV menv (ctl_message_processor ctl') l m = Some (r, st') \<and> mp_inv BV st' \<and>
    st_subs (fw_subscription_table (mp_forwarder st')) =
      sub_step (Sub_Remove (subscription_type (ce_hash env) s) (ps_agent_id s) x (is_local_connection k))
        (st_subs (fw_subscription_table (mp_forwarder (ctl_message_processor ctl))))"
proof -
  obtain ctl' where ctl': "delete_subscription BV env ctl s = Some ctl'"
      "route_changed BV menv ctl ctl' (Sub_Remove (subscription_type (ce_hash env) s) (ps_agent_id s) x (is_local_connection k))"
    using delete_subscription_known [OF assms(1-4,7,6)] assms(8) by (auto simp: removable_def)
  have "handle_new_control_message BV env ctl (config_message i [] [] [s]) tx =
      Some (Inr (), ctl', tx @ [acknowledgement env (config_message i [] [] [s])])"
    using ctl'(1) assms(5) by (simp add: handle_new_control_message_def config_message_def acknowledgement_def)
  then show ?thesis using ctl'(2) unfolding route_changed_def by blast
qed

text \<open>
  a configuration command whose subscriptions all name connections the controller does not
  have is acknowledged as a success, although nothing is sent to the data path.
\<close>

theorem unknown_routes_acknowledged:
  assumes "\<forall>s\<in>set (add @ del). hm_get (=) (ps_connection_id s) (ctl_connections ctl) = None" and "ce_reply_open env"
  shows "handle_new_control_message BV env ctl (config_message i [] add del) tx =
    Some (Inr (), ctl, tx @ [acknowledgement env (config_message i [] add del)])"
proof -
  have "each_subscription (set_subscription BV env) ctl add = Some ctl"
    using assms(1) by (induction add) (simp_all add: set_subscription_def)
  moreover have "each_subscription (delete_subscription BV env) ctl del = Some ctl"
    using assms(1) by (induction del) (simp_all add: delete_subscription_def)
  ultimately show ?thesis using assms(2)
    by (simp add: handle_new_control_message_def config_message_def acknowledgement_def)
qed

text \<open>
  C39: when the reply channel has room, a subscription list request is answered with replies of at
  most 100 entries each that together list the subscription table: an agent is subscribed on a
  connection exactly when an entry of its name and identifier lists the connection, on the same side.
\<close>

theorem subscription_list_complete:
  assumes "mp_inv BV (ctl_message_processor ctl)" and "table_named xx (fw_subscription_table (mp_forwarder (ctl_message_processor ctl)))"
    and "\<And>k. ce_room env k" and "cm_payload msg = Some SubscriptionListRequest"
  shows "\<exists>replies. handle_new_control_message BV env ctl msg tx = Some (Inr (), ctl, tx @ replies) \<and>
    (\<forall>r\<in>set replies. \<exists>es. cm_payload r = Some (SubscriptionListResponse es) \<and> es \<noteq> [] \<and> length es \<le> 100) \<and>
    (\<forall>t i c l. st_subs (fw_subscription_table (mp_forwarder (ctl_message_processor ctl))) t i c l \<longleftrightarrow>
      (\<exists>e\<in>set (listed_subscriptions replies). agent_type_eq (entry_type xx e) t \<and> se_agent_id e = Some i \<and>
         c \<in> en_id ` set (entry_side l e)))"
proof -
  let ?cs = "chunks CHUNK_SIZE (subscription_entries (ctl_message_processor ctl))"
  obtain ids where ids: "length ids = length ?cs" "send_chunks env SubscriptionListResponse 0 ?cs tx =
      tx @ map2 (\<lambda>i c. \<lparr>cm_message_id = i, cm_payload = Some (SubscriptionListResponse c)\<rparr>) ids ?cs"
    using send_chunks_room [OF assms(3), of ?cs SubscriptionListResponse 0 tx] by blast
  have inv: "st_inv BV (fw_subscription_table (mp_forwarder (ctl_message_processor ctl)))"
    using assms(1) by (simp add: mp_inv_def fw_inv_def)
  have "concat ?cs = subscription_entries (ctl_message_processor ctl)" "\<forall>c\<in>set ?cs. c \<noteq> [] \<and> length c \<le> 100"
    using chunks_properties [of CHUNK_SIZE] by (simp_all add: CHUNK_SIZE_def)
  then show ?thesis
    using ids assms(4) listed_map2(1) [OF ids(1)] subscription_entries_spec [OF inv assms(2) refl]
    by (intro exI [of _ "map2 (\<lambda>i c. \<lparr>cm_message_id = i, cm_payload = Some (SubscriptionListResponse c)\<rparr>) ids ?cs"])
      (auto simp: handle_new_control_message_def dest: set_zip_rightD)
qed


section \<open>Example\<close>

definition demo_ctl_env :: ctl_env where
  "demo_ctl_env = \<lparr>ce_hash = env_hash demo_env, ce_resolve = (\<lambda>_. Inr [\<lparr>sa_ip = ''10.0.0.1'', sa_port = 80\<rparr>]), ce_channel = (\<lambda>_. Inr ()),
     ce_attempts = (\<lambda>_ _. Some (20, 21)), ce_local = (22, 23), ce_slim_open = (\<lambda>_. True), ce_uuid = (\<lambda>_. ''reply''),
     ce_reply_open = True, ce_room = (\<lambda>_. True)\<rparr>"

definition demo_ctl :: "bool list controller_service" where
  "demo_ctl = controller_service_new demo_state"

lemma demo_ctl_facts:
  "mp_inv list_bitvec (ctl_message_processor demo_ctl)"
  "get_connection (mp_forwarder (ctl_message_processor demo_ctl)) 5 = None"
  "get_connection (mp_forwarder (ctl_message_processor demo_ctl)) 6 = None"
  "ctl_connections demo_ctl = []"
  "ce_reply_open demo_ctl_env" "ce_slim_open demo_ctl_env x" "ce_room demo_ctl_env k" "ce_hash demo_ctl_env = env_hash demo_env"
proof -
  show "get_connection (mp_forwarder (ctl_message_processor demo_ctl)) 5 = None"
    "get_connection (mp_forwarder (ctl_message_processor demo_ctl)) 6 = None"
    by code_simp+
qed (simp_all add: demo_ctl_def controller_service_new_def demo_state_inv demo_ctl_env_def)

theorem unknown_routes_acknowledged_witness:
  "\<exists>s. handle_new_control_message list_bitvec demo_ctl_env demo_ctl (config_message ''id'' [] [s] []) [] =
     Some (Inr (), demo_ctl, [acknowledgement demo_ctl_env (config_message ''id'' [] [s] [])])"
  using unknown_routes_acknowledged [where add = "[\<lparr>ps_organization = ''o'', ps_namespace = ''n'', ps_agent_type = ''t'', ps_agent_id = None,
      ps_connection_id = ''host:1''\<rparr>]" and del = "[]" and ctl = demo_ctl and env = demo_ctl_env and BV = list_bitvec and tx = "[]" and i = "''id''"]
  by (intro exI) (simp add: demo_ctl_facts)

lemma demo_table_named: "table_named (env_hash demo_env) (fw_subscription_table (mp_forwarder (ctl_message_processor demo_ctl)))"
proof -
  have "map fst (st_table (fw_subscription_table (mp_forwarder (ctl_message_processor demo_ctl)))) =
      [agent_type_from_strings (env_hash demo_env) ''o'' ''n'' ''t'']"
    by code_simp
  then have "fst ` set (st_table (fw_subscription_table (mp_forwarder (ctl_message_processor demo_ctl)))) =
      {agent_type_from_strings (env_hash demo_env) ''o'' ''n'' ''t''}"
    by (metis list.set(1,2) list.set_map)
  then show ?thesis unfolding table_named_def by blast
qed

theorem subscription_list_complete_witness:
  "\<exists>replies. handle_new_control_message list_bitvec demo_ctl_env demo_ctl
      \<lparr>cm_message_id = ''id'', cm_payload = Some SubscriptionListRequest\<rparr> [] = Some (Inr (), demo_ctl, replies) \<and>
    (\<exists>e\<in>set (listed_subscriptions replies). se_agent_id e = Some 8 \<and> 1 \<in> en_id ` set (se_local_connections e))"
proof -
  have "st_subs (fw_subscription_table (mp_forwarder (ctl_message_processor demo_ctl))) (agent_type_from_strings (\<lambda>_. 9) ''o'' ''n'' ''t'') 8 1 True"
  proof -
    have "map_option (\<lambda>s. side True (ats_vec s 8)) (hm_get agent_type_eq (agent_type_from_strings (\<lambda>_. 9) ''o'' ''n'' ''t'')
        (st_table (fw_subscription_table (mp_forwarder (ctl_message_processor demo_ctl))))) = Some [1]"
      by code_simp
    then show ?thesis by (auto simp: st_subs_def tab_subs_def ats_holds_def)
  qed
  moreover obtain replies where r: "handle_new_control_message list_bitvec demo_ctl_env demo_ctl
      \<lparr>cm_message_id = ''id'', cm_payload = Some SubscriptionListRequest\<rparr> [] = Some (Inr (), demo_ctl, [] @ replies)"
      "\<And>t i c l. st_subs (fw_subscription_table (mp_forwarder (ctl_message_processor demo_ctl))) t i c l \<Longrightarrow>
        \<exists>e\<in>set (listed_subscriptions replies). se_agent_id e = Some i \<and> c \<in> en_id ` set (entry_side l e)"
    using subscription_list_complete [OF demo_ctl_facts(1) demo_table_named demo_ctl_facts(7),
        of "\<lparr>cm_message_id = ''id'', cm_payload = Some SubscriptionListRequest\<rparr>" "[]"] by (metis control_message.select_convs(2))
  ultimately have "\<exists>e\<in>set (listed_subscriptions replies). se_agent_id e = Some 8 \<and> 1 \<in> en_id ` set (se_local_connections e)"
    by (metis entry_side_def)
  then show ?thesis using r(1) by (intro exI [of _ replies]) simp
qed


end
