(* ===== verification/Slimctl.thy ===== *)
theory Slimctl
  imports Controller
begin

text \<open>
  The command line tool of the control plane, \<^verbatim>\<open>control-plane/slimctl\<close>: the parsing of
  routes and endpoints, the commands that add, delete and list routes and connections, and what
  they bring about together with the controller they talk to. Strings are sequences of bytes, as
  in Go.
\<close>

section \<open>The Go standard library\<close>

text \<open>\<open>strings.Split\<close> at a one-byte separator.\<close>

fun go_split :: "char \<Rightarrow> string \<Rightarrow> string list" where
  "go_split c [] = [[]]"
| "go_split c (x # xs) = (if x = c then [] # go_split c xs
     else (case go_split c xs of p # ps \<Rightarrow> (x # p) # ps | [] \<Rightarrow> [[x]]))"

text \<open>\<open>strings.ToLower\<close> and \<open>strings.ReplaceAll\<close> of a single byte, for ASCII strings.\<close>

definition lower_char :: "char \<Rightarrow> char" where
  "lower_char c = (let k = of_char c :: nat in if 65 \<le> k \<and> k \<le> 90 then char_of (k + 32) else c)"

definition to_lower :: "string \<Rightarrow> string" where
  "to_lower s = map lower_char s"

definition replace_all :: "char \<Rightarrow> char \<Rightarrow> string \<Rightarrow> string" where
  "replace_all a b s = map (\<lambda>c. if c = a then b else c) s"

definition trim_prefix :: "string \<Rightarrow> string \<Rightarrow> string" where
  "trim_prefix p s = (if take (length p) s = p then drop (length p) s else s)"

definition is_decimal :: "char \<Rightarrow> bool" where
  "is_decimal c = (let k = of_char c :: nat in 48 \<le> k \<and> k \<le> 57)"

definition decimal_value :: "string \<Rightarrow> nat" where
  "decimal_value s = foldl (\<lambda>a c. a * 10 + digit_value c) 0 s"

text \<open>\<open>strconv.ParseUint\<close> and \<open>strconv.ParseInt\<close> in base 10, for \<open>w\<close> bits.\<close>

definition parse_uint :: "nat \<Rightarrow> string \<Rightarrow> nat option" where
  "parse_uint w s = (if s \<noteq> [] \<and> list_all is_decimal s \<and> decimal_value s < 2 ^ w then Some (decimal_value s) else None)"

definition parse_int :: "nat \<Rightarrow> string \<Rightarrow> int option" where
  "parse_int w s =
     (let neg = (s \<noteq> [] \<and> hd s = CHR ''-'');
          rest = (if s \<noteq> [] \<and> hd s \<in> {CHR ''+'', CHR ''-''} then tl s else s)
      in case parse_uint w rest of
           None \<Rightarrow> None
         | Some n \<Rightarrow>
             if \<not> neg \<and> n \<ge> 2 ^ (w - 1) then None
             else if neg \<and> n > 2 ^ (w - 1) then None
             else Some (if neg then - int n else int n))"

definition last_index :: "char \<Rightarrow> string \<Rightarrow> nat option" where
  "last_index c s = map_option (\<lambda>k. length s - 1 - k) (position (\<lambda>x. x = c) (rev s))"

text \<open>\<open>net.SplitHostPort\<close>.\<close>

definition split_host_port :: "string \<Rightarrow> (string \<times> string) option" where
  "split_host_port hostport = (case last_index (CHR '':'') hostport of
      None \<Rightarrow> None
    | Some i \<Rightarrow>
        (let finish = (\<lambda>j k host.
               if CHR ''['' \<in> set (drop j hostport) \<or> CHR '']'' \<in> set (drop k hostport) then None
               else Some (host, drop (i + 1) hostport))
         in if hostport ! 0 = CHR ''[''
            then (case position (\<lambda>x. x = CHR '']'') hostport of
                    None \<Rightarrow> None
                  | Some e \<Rightarrow> if e + 1 = i then finish 1 (e + 1) (take (e - 1) (drop 1 hostport)) else None)
            else if CHR '':'' \<in> set (take i hostport) then None
            else finish 0 0 (take i hostport)))"

section \<open>Routes and endpoints\<close>

datatype slimctl_error =
  Invalid_Syntax string
| Invalid_Route string
| Invalid_Agent_Id string
| Cannot_Split string
| Host_Missing string
| Invalid_Port string string
| Port_Out_Of_Range int string
| Invalid_Endpoint string slimctl_error
| Receive_Failed
| Not_An_Ack control_message

definition parse_route :: "string \<Rightarrow> slimctl_error + string \<times> string \<times> string \<times> u64" where
  "parse_route route = (case go_split (CHR ''/'') route of
      [organization, namespace, agent_type, agent_id] \<Rightarrow>
        (if organization = [] \<or> namespace = [] \<or> agent_type = [] \<or> agent_id = [] then Inl (Invalid_Route route)
         else case parse_uint 64 agent_id of
           None \<Rightarrow> Inl (Invalid_Agent_Id agent_id)
         | Some i \<Rightarrow> Inr (organization, namespace, agent_type, of_nat i))
    | _ \<Rightarrow> Inl (Invalid_Route route))"

definition parse_endpoint :: "string \<Rightarrow> slimctl_error + proto_connection \<times> string" where
  "parse_endpoint endpoint = (case split_host_port endpoint of
      None \<Rightarrow> Inl (Cannot_Split endpoint)
    | Some (host, port_str) \<Rightarrow>
        (if host = [] then Inl (Host_Missing endpoint)
         else case parse_int 32 port_str of
           None \<Rightarrow> Inl (Invalid_Port port_str endpoint)
         | Some port \<Rightarrow>
             (if port \<le> 0 \<or> port > 65535 then Inl (Port_Out_Of_Range port endpoint)
              else Inr (\<lparr>pc_connection_id = endpoint, pc_remote_address = host, pc_remote_port = of_int port\<rparr>, endpoint))))"

section \<open>Commands\<close>

text \<open>\<open>uuid\<close> is the identifier of the message.\<close>

definition route_add :: "string \<Rightarrow> string \<Rightarrow> string \<Rightarrow> string \<Rightarrow> slimctl_error + control_message" where
  "route_add uuid route_id via endpoint =
     (if to_lower via \<noteq> ''via'' then Inl (Invalid_Syntax via)
      else case parse_route route_id of
        Inl e \<Rightarrow> Inl e
      | Inr (organization, namespace, agent_type, agent_id) \<Rightarrow>
          (case parse_endpoint endpoint of
             Inl e \<Rightarrow> Inl e
           | Inr (conn, conn_id) \<Rightarrow>
               Inr \<lparr>cm_message_id = uuid, cm_payload = Some (ConfigCommand \<lparr>connections_to_create = [conn],
                 subscriptions_to_set = [\<lparr>ps_organization = organization, ps_namespace = namespace, ps_agent_type = agent_type,
                   ps_agent_id = Some agent_id, ps_connection_id = conn_id\<rparr>],
                 subscriptions_to_delete = []\<rparr>)\<rparr>))"

definition route_del :: "string \<Rightarrow> string \<Rightarrow> string \<Rightarrow> string \<Rightarrow> slimctl_error + control_message" where
  "route_del uuid route_id via endpoint =
     (if to_lower via \<noteq> ''via'' then Inl (Invalid_Syntax via)
      else case parse_route route_id of
        Inl e \<Rightarrow> Inl e
      | Inr (organization, namespace, agent_type, agent_id) \<Rightarrow>
          (case parse_endpoint endpoint of
             Inl e \<Rightarrow> Inl (Invalid_Endpoint endpoint e)
           | Inr (_, conn_id) \<Rightarrow>
               Inr \<lparr>cm_message_id = uuid, cm_payload = Some (ConfigCommand \<lparr>connections_to_create = [],
                 subscriptions_to_set = [],
                 subscriptions_to_delete = [\<lparr>ps_organization = organization, ps_namespace = namespace, ps_agent_type = agent_type,
                   ps_agent_id = Some agent_id, ps_connection_id = conn_id\<rparr>]\<rparr>)\<rparr>))"

text \<open>What the commands print for the first reply on the stream, \<open>None\<close> when there is none.\<close>

definition show_ack :: "control_message option \<Rightarrow> slimctl_error + string list" where
  "show_ack reply = (case reply of
      None \<Rightarrow> Inl Receive_Failed
    | Some reply \<Rightarrow>
        (case cm_payload reply of
           Some (AckPayload a) \<Rightarrow>
             Inr ((''ACK received for '' @ ack_original_message_id a @ '': success='' @ (if ack_success a then ''true'' else ''false''))
               # map (\<lambda>(i, m). ''    ['' @ digits 10 (i + 1) @ ''] '' @ m) (enumerate 0 (ack_messages a)))
         | _ \<Rightarrow> Inl (Not_An_Ack reply)))"

text \<open>The lists: one line for each entry; \<open>%v\<close> prints a slice of strings in brackets.\<close>

fun join_with :: "string \<Rightarrow> string list \<Rightarrow> string" where
  "join_with sep [] = ''''"
| "join_with sep [x] = x"
| "join_with sep (x # y # xs) = x @ sep @ join_with sep (y # xs)"

definition show_slice :: "string list \<Rightarrow> string" where
  "show_slice xs = ''['' @ join_with '' '' xs @ '']''"

definition route_line :: "subscription_entry \<Rightarrow> string" where
  "route_line e = se_organization e @ ''/'' @ se_namespace e @ ''/'' @ se_agent_type e @ '' id='' @
     show_dec (case se_agent_id e of None \<Rightarrow> 0 | Some i \<Rightarrow> i) @ '' local='' @
     show_slice (map (\<lambda>c. ''local:'' @ show_dec (en_id c)) (se_local_connections e)) @ '' remote='' @
     show_slice (map (\<lambda>c. ''remote:'' @ en_ip c @ '':'' @ digits 10 (unat (en_port c)) @ '':'' @ show_dec (en_id c)) (se_remote_connections e))"

definition route_list :: "control_message list \<Rightarrow> string list" where
  "route_list replies = concat (map (\<lambda>resp. case cm_payload resp of
     Some (SubscriptionListResponse entries) \<Rightarrow> map route_line entries | _ \<Rightarrow> []) replies)"

definition connection_line :: "connection_entry \<Rightarrow> string" where
  "connection_line e = ''id='' @ show_dec (en_id e) @ '' '' @ en_ip e @ '':'' @ digits 10 (unat (en_port e))"

definition connection_list :: "control_message list \<Rightarrow> string list" where
  "connection_list replies = concat (map (\<lambda>resp. case cm_payload resp of
     Some (ConnectionListResponse entries) \<Rightarrow> map connection_line entries | _ \<Rightarrow> []) replies)"

text \<open>The configuration key that an environment variable sets.\<close>

definition env_key :: "string \<Rightarrow> string" where
  "env_key s = replace_all (CHR ''_'') (CHR ''.'') (to_lower (trim_prefix ''SLIMCTL_'' s))"

section \<open>Reading numbers\<close>

lemma is_decimal_digit: "d < 10 \<Longrightarrow> is_decimal (digit d)"
  by (simp add: is_decimal_def digit_def Let_def of_char_of)

lemma digit_of_decimal: "is_decimal c \<Longrightarrow> digit (digit_value c) = c \<and> digit_value c < 10"
  by (auto simp: is_decimal_def digit_def digit_value_def Let_def)

lemma digits_decimal: "list_all is_decimal (digits 10 n)"
proof (induction "10 :: nat" n rule: digits.induct)
  case (1 n)
  then show ?case by (subst digits.simps) (simp add: is_decimal_digit)
qed

lemma digits_nonempty [simp]: "digits b n \<noteq> []"
  by (subst digits.simps) simp

lemma decimal_value_digits [simp]: "decimal_value (digits 10 n) = n"
  by (simp add: decimal_value_def digits_value)

lemma decimal_value_snoc: "decimal_value (s @ [c]) = decimal_value s * 10 + digit_value c"
  by (simp add: decimal_value_def)

lemma parse_uint_digits: "n < 2 ^ w \<Longrightarrow> parse_uint w (digits 10 n) = Some n"
  by (simp add: parse_uint_def digits_decimal)

lemma zero_digit: "is_decimal c \<Longrightarrow> c \<noteq> CHR ''0'' \<Longrightarrow> digit_value c \<noteq> 0"
proof
  assume "is_decimal c" "c \<noteq> CHR ''0''" and z: "digit_value c = 0"
  moreover have "digit 0 = CHR ''0''" by code_simp
  ultimately show False using digit_of_decimal [of c] by simp
qed

text \<open>A decimal string without leading zeros is the one that printing gives.\<close>

lemma digits_decimal_value:
  "s \<noteq> [] \<Longrightarrow> list_all is_decimal s \<Longrightarrow> hd s \<noteq> CHR ''0'' \<Longrightarrow> digits 10 (decimal_value s) = s \<and> 0 < decimal_value s"
proof (induction s rule: rev_induct)
  case (snoc c s)
  have c: "digit (digit_value c) = c" "digit_value c < 10" using snoc.prems(2) digit_of_decimal [of c] by auto
  show ?case
  proof (cases "s = []")
    case True
    then have "digit_value c \<noteq> 0" using zero_digit [of c] snoc.prems by simp
    then show ?thesis using True c by (subst digits.simps) (simp add: decimal_value_def)
  next
    case False
    then have "digits 10 (decimal_value s) = s" "0 < decimal_value s" using snoc by simp_all
    then show ?thesis using c by (subst digits.simps) (simp add: decimal_value_snoc)
  qed
qed simp

lemma hd_digits: "0 < n \<Longrightarrow> hd (digits 10 n) \<noteq> CHR ''0''"
proof (induction "10 :: nat" n rule: digits.induct)
  case (1 n)
  have "digit n \<noteq> CHR ''0''" if "n < 10"
    using that 1(2) digit_value_digit [of n] by (auto simp: digit_value_def)
  then show ?case using 1 by (subst digits.simps) auto
qed

section \<open>Splitting\<close>

lemma go_split_last: "c \<notin> set p \<Longrightarrow> go_split c p = [p]"
  by (induction p) auto

lemma go_split_append: "c \<notin> set p \<Longrightarrow> go_split c (p @ c # s) = p # go_split c s"
  by (induction p) auto


lemma last_index_Some:
  "last_index c s = Some i \<Longrightarrow> i < length s \<and> s = take i s @ c # drop (i + 1) s \<and> c \<notin> set (drop (i + 1) s)"
proof -
  assume "last_index c s = Some i"
  then obtain k where k: "position (\<lambda>x. x = c) (rev s) = Some k" "i = length s - 1 - k" by (auto simp: last_index_def)
  have kk: "k < length s" "rev s ! k = c" "\<forall>j<k. rev s ! j \<noteq> c" using k(1) by (auto simp: position_Some)
  have i: "i < length s" "s ! i = c" using kk k(2) by (auto simp: rev_nth)
  have "s ! j \<noteq> c" if "i < j" "j < length s" for j
    using kk(3) [rule_format, of "length s - 1 - j"] that k(2) kk(1) by (simp add: rev_nth)
  then have "c \<notin> set (drop (i + 1) s)" by (auto simp: in_set_conv_nth)
  then show ?thesis using i id_take_nth_drop [OF i(1)] by simp
qed

lemma last_index_append: "c \<notin> set p \<Longrightarrow> last_index c (h @ c # p) = Some (length h)"
proof -
  assume p: "c \<notin> set p"
  have "position (\<lambda>x. x = c) (rev (h @ c # p)) = Some (length p)"
    using p by (auto simp: position_Some nth_append rev_nth in_set_conv_nth)
  then show ?thesis by (simp add: last_index_def)
qed

lemma split_host_port_parts:
  assumes "split_host_port e = Some (h, p)"
  shows "CHR '':'' \<notin> set p \<and> CHR ''['' \<notin> set h \<and> (if hd e = CHR ''['' then e = ''['' @ h @ '']:'' @ p else e = h @ '':'' @ p)"
proof -
  obtain i where i: "last_index (CHR '':'') e = Some i" using assms by (auto simp: split_host_port_def split: option.splits)
  note li = last_index_Some [OF i]
  have e0: "e ! 0 = hd e" using li by (cases e) auto
  have p: "p = drop (i + 1) e" using assms i by (auto simp: split_host_port_def Let_def split: option.splits if_splits)
  show ?thesis
  proof (cases "hd e = CHR ''[''")
    case False
    then have "h = take i e" "CHR ''['' \<notin> set e" using assms i e0 by (auto simp: split_host_port_def Let_def split: if_splits)
    then show ?thesis using li p False by (metis Cons_eq_appendI append_Nil in_set_takeD)
  next
    case True
    then obtain k where k: "position (\<lambda>x. x = CHR '']'') e = Some k" "k + 1 = i" "h = take (k - 1) (drop 1 e)" "CHR ''['' \<notin> set (drop 1 e)"
      using assms i e0 by (auto simp: split_host_port_def Let_def split: if_splits option.splits)
    have kk: "k < length e" "e ! k = CHR '']''" using k(1) by (auto simp: position_Some)
    obtain e' where e': "e = CHR ''['' # e'" using True li by (cases e) auto
    then obtain k' where k': "k = Suc k'" using kk by (cases k) auto
    have "take i e = CHR ''['' # take k' e' @ [CHR '']'']"
      using kk k(2) k' by (auto simp: e' take_Suc_conv_app_nth)
    moreover have "h = take k' e'" using k(3) e' k' by simp
    moreover have "CHR ''['' \<notin> set h" using k(3,4) by (metis in_set_takeD)
    ultimately show ?thesis using li p True by auto
  qed
qed


section \<open>Endpoints\<close>

lemma show_i32_port:
  assumes "0 < port" "port \<le> 65535"
  shows "show_i32 (of_int port) = digits 10 (nat port)"
proof -
  have "sint (of_int port :: i32) = port" using assms by (simp add: signed_of_int signed_take_bit_int_eq_self)
  then show ?thesis using assms by (simp add: show_i32_def)
qed

lemma parse_int_positive:
  assumes "parse_int 32 p = Some n" and "0 < n"
  obtains q where "parse_uint 32 q = Some (nat n)" "p = q \<or> p = CHR ''+'' # q"
proof -
  have neg: "\<not> (p \<noteq> [] \<and> hd p = CHR ''-'')" using assms by (auto simp: parse_int_def Let_def split: option.splits if_splits)
  show thesis
  proof (cases "p \<noteq> [] \<and> hd p = CHR ''+''")
    case True
    then show thesis using assms that [of "tl p"] by (cases p) (auto simp: parse_int_def split: option.splits if_splits)
  next
    case False
    then show thesis using assms neg that [of p] by (auto simp: parse_int_def split: option.splits if_splits)
  qed
qed

lemma plus_not_decimal: "\<not> is_decimal (CHR ''+'')"
  by code_simp

text \<open>The port of an endpoint is printed as it was written when it has no sign and no leading zero.\<close>

lemma port_printed:
  assumes "parse_int 32 p = Some n" and "0 < n"
  shows "p \<noteq> [] \<and> (digits 10 (nat n) = p \<longleftrightarrow> hd p \<notin> {CHR ''+'', CHR ''0''})"
proof -
  obtain q where q: "parse_uint 32 q = Some (nat n)" "p = q \<or> p = CHR ''+'' # q" using parse_int_positive [OF assms] .
  then have d: "q \<noteq> []" "list_all is_decimal q" "decimal_value q = nat n" by (auto simp: parse_uint_def split: if_splits)
  have plus: "hd q \<noteq> CHR ''+''" using d(1,2) plus_not_decimal by (cases q) auto
  show ?thesis
  proof (cases "p = q")
    case True
    then show ?thesis using d plus digits_decimal_value [OF d(1,2)] hd_digits [of "nat n"] assms(2) by auto
  next
    case False
    then have p: "p = CHR ''+'' # q" using q(2) by blast
    then have "digits 10 (nat n) \<noteq> p" using digits_decimal [of "nat n"] plus_not_decimal by auto
    then show ?thesis using p by simp
  qed
qed

lemma parse_endpoint_Inr:
  assumes "parse_endpoint e = Inr (conn, i)"
  obtains p n where "split_host_port e = Some (pc_remote_address conn, p)" "i = e" "pc_connection_id conn = e" "pc_remote_address conn \<noteq> []"
    "parse_int 32 p = Some n" "0 < n" "n \<le> 65535" "pc_remote_port conn = of_int n"
  using assms by (auto simp: parse_endpoint_def not_le split: option.splits prod.splits if_splits)

lemma endpoint_key:
  assumes "parse_endpoint e = Inr (conn, i)"
  shows "i = e \<and> (endpoint_of conn = i \<longleftrightarrow> (\<exists>p. e = pc_remote_address conn @ '':'' @ p \<and> hd p \<notin> {CHR ''+'', CHR ''0''}))"
proof -
  obtain p n where f: "split_host_port e = Some (pc_remote_address conn, p)" "i = e"
    "parse_int 32 p = Some n" "0 < n" "n \<le> 65535" "pc_remote_port conn = of_int n" "pc_remote_address conn \<noteq> []"
    using parse_endpoint_Inr [OF assms] by metis
  let ?h = "pc_remote_address conn"
  have key: "endpoint_of conn = ?h @ '':'' @ digits 10 (nat n)" using f(4-6) by (simp add: endpoint_of_def show_i32_port)
  note parts = split_host_port_parts [OF f(1)]
  note port = port_printed [OF f(3,4)]
  show ?thesis
  proof (cases "hd e = CHR ''[''")
    case False
    then show ?thesis using parts key port f(2) by auto
  next
    case True
    then have e: "e = ''['' @ ?h @ '']:'' @ p" using parts by simp
    have "?h @ '':'' @ q \<noteq> e" for q
      using parts f(7) unfolding e by (cases ?h) auto
    then show ?thesis using key f(2) by auto
  qed
qed


section \<open>Commands and what they bring about\<close>

definition canonical_route :: "string \<Rightarrow> string \<Rightarrow> string \<Rightarrow> u64 \<Rightarrow> string" where
  "canonical_route org ns ty i = org @ ''/'' @ ns @ ''/'' @ ty @ ''/'' @ show_dec i"

definition canonical_endpoint :: "string \<Rightarrow> nat \<Rightarrow> string" where
  "canonical_endpoint host port = host @ '':'' @ digits 10 port"

definition canonical_connection :: "string \<Rightarrow> nat \<Rightarrow> proto_connection" where
  "canonical_connection host port = \<lparr>pc_connection_id = canonical_endpoint host port, pc_remote_address = host, pc_remote_port = of_nat port\<rparr>"

definition route_name :: "string \<Rightarrow> bool" where
  "route_name s \<longleftrightarrow> s \<noteq> [] \<and> CHR ''/'' \<notin> set s"

definition plain_host :: "string \<Rightarrow> bool" where
  "plain_host h \<longleftrightarrow> h \<noteq> [] \<and> CHR '':'' \<notin> set h \<and> CHR ''['' \<notin> set h \<and> CHR '']'' \<notin> set h"

lemma parse_canonical_route:
  assumes "route_name org" "route_name ns" "route_name ty"
  shows "parse_route (canonical_route org ns ty i) = Inr (org, ns, ty, i)"
proof -
  have "go_split (CHR ''/'') (canonical_route org ns ty i) = [org, ns, ty, show_dec i]"
    using assms digits_no_slash [of 10 "unat i"]
    by (simp add: canonical_route_def route_name_def go_split_append go_split_last show_dec_def)
  moreover have "parse_uint 64 (show_dec i) = Some (unat i)"
    using unsigned_less [of i] by (simp add: show_dec_def parse_uint_digits)
  ultimately show ?thesis using assms by (simp add: parse_route_def route_name_def show_dec_def)
qed

lemma decimal_chars: "c \<in> set (digits 10 n) \<Longrightarrow> is_decimal c"
  using digits_decimal [of n] by (simp add: list_all_iff)

lemma not_decimal:
  "\<not> is_decimal (CHR '':'')" "\<not> is_decimal (CHR ''['')" "\<not> is_decimal (CHR '']'')" "\<not> is_decimal (CHR ''-'')"
  by code_simp+

lemma parse_int_digits:
  assumes "n < 2 ^ 31"
  shows "parse_int 32 (digits 10 n) = Some (int n)"
proof -
  have "hd (digits 10 n) \<noteq> CHR ''+''" "hd (digits 10 n) \<noteq> CHR ''-''"
    using decimal_chars [of "hd (digits 10 n)" n] plus_not_decimal not_decimal by auto
  then show ?thesis using assms by (simp add: parse_int_def parse_uint_digits)
qed

lemma parse_canonical_endpoint:
  assumes host: "plain_host host" and port: "0 < port" "port \<le> 65535"
  shows "parse_endpoint (canonical_endpoint host port) = Inr (canonical_connection host port, canonical_endpoint host port)"
    and "endpoint_of (canonical_connection host port) = canonical_endpoint host port"
proof -
  let ?d = "digits 10 port"
  have d: "CHR '':'' \<notin> set ?d" "CHR ''['' \<notin> set ?d" "CHR '']'' \<notin> set ?d" using decimal_chars not_decimal by blast+
  have "(host @ CHR '':'' # ?d) ! 0 \<noteq> CHR ''[''" using host by (cases host) (auto simp: plain_host_def)
  then have "split_host_port (canonical_endpoint host port) = Some (host, ?d)"
    using host d last_index_append [OF d(1), of host] by (simp add: split_host_port_def canonical_endpoint_def plain_host_def)
  moreover have "parse_int 32 ?d = Some (int port)" using port by (intro parse_int_digits) simp
  ultimately show "parse_endpoint (canonical_endpoint host port) = Inr (canonical_connection host port, canonical_endpoint host port)"
    using host port by (simp add: parse_endpoint_def canonical_connection_def plain_host_def)
  show "endpoint_of (canonical_connection host port) = canonical_endpoint host port"
    using show_i32_port [of "int port"] port by (simp add: endpoint_of_def canonical_connection_def canonical_endpoint_def)
qed

definition route_subscription :: "string \<Rightarrow> string \<Rightarrow> string \<Rightarrow> u64 \<Rightarrow> string \<Rightarrow> proto_subscription" where
  "route_subscription org ns ty i conn_id = \<lparr>ps_organization = org, ps_namespace = ns, ps_agent_type = ty, ps_agent_id = Some i,
     ps_connection_id = conn_id\<rparr>"

lemma route_commands:
  assumes "parse_route r = Inr (org, ns, ty, i)" and "parse_endpoint e = Inr (conn, conn_id)"
  shows "route_add uuid r ''via'' e = Inr (config_message uuid [conn] [route_subscription org ns ty i conn_id] [])"
    and "route_del uuid r ''via'' e = Inr (config_message uuid [] [] [route_subscription org ns ty i conn_id])"
proof -
  have "to_lower ''via'' = ''via''" by code_simp
  then show "route_add uuid r ''via'' e = Inr (config_message uuid [conn] [route_subscription org ns ty i conn_id] [])"
      "route_del uuid r ''via'' e = Inr (config_message uuid [] [] [route_subscription org ns ty i conn_id])"
    using assms by (simp_all add: route_add_def route_del_def config_message_def route_subscription_def)
qed

lemma show_acknowledgement:
  "show_ack (Some (acknowledgement env msg)) = Inr [''ACK received for '' @ cm_message_id msg @ '': success=true'']"
  by (simp add: show_ack_def acknowledgement_def)

lemma one_command:
  assumes "handle_new_control_message BV env ctl msg [] = Some (Inr (), ctl', [reply])"
  shows "open_control_channel BV env ctl [Control_Msg msg, Control_End] = Some (ctl'\<lparr>ctl_tx_slim := ctl_tx_slim ctl\<rparr>, [reply])"
  using assms by (simp add: open_control_channel_def)


section \<open>Properties\<close>

lemma create_connection_frame:
  assumes "create_connection BV env ctl conn = Some (r, ctl')"
  shows "ctl_sent ctl' = ctl_sent ctl \<and> (ctl_connections ctl' = ctl_connections ctl \<or>
    (\<exists>x. ctl_connections ctl' = hm_insert (=) (endpoint_of conn) x (ctl_connections ctl)))"
  using assms unfolding create_connection_def endpoint_of_def [symmetric]
  by (auto simp: Let_def bind_eq_Some_conv split: sum.split_asm list.split_asm if_splits; case_tac a; auto)

text \<open>
  C10: \<open>slimctl route add org/ns/ty/id via host:port\<close>, for names without slashes, a host without
  colons and brackets and a port between 1 and 65535, makes the controller connect to the endpoint
  and answer with a success; once the data path has handled the one message the controller sends
  it, publications to the name are routed over the new connection.
\<close>

theorem slimctl_add_sets_route:
  assumes "bit_vec BV" and "mp_inv BV (ctl_message_processor ctl)"
    and "c \<noteq> d" and "get_connection (mp_forwarder (ctl_message_processor ctl)) c = None"
    and "get_connection (mp_forwarder (ctl_message_processor ctl)) d = None"
    and "route_name org" and "route_name ns" and "route_name ty" and "plain_host host" and "0 < port" and "port \<le> 65535"
    and "reachable_endpoint env (canonical_connection host port) sock p"
    and "hm_get (=) (canonical_endpoint host port) (ctl_connections ctl) = None"
    and "\<And>x. ce_slim_open env x" and "ce_reply_open env" and "env_hash menv = ce_hash env"
  shows "\<exists>msg ctl' reply l m x r st'.
    route_add uuid (canonical_route org ns ty i) ''via'' (canonical_endpoint host port) = Inr msg \<and>
    open_control_channel BV env ctl [Control_Msg msg, Control_End] = Some (ctl', [reply]) \<and>
    show_ack (Some reply) = Inr [''ACK received for '' @ uuid @ '': success=true''] \<and>
    ctl_sent ctl' = ctl_sent ctl @ [(l, m)] \<and>
    handle_new_message BV menv (ctl_message_processor ctl') l m = Some (r, st') \<and> mp_inv BV st' \<and>
    hm_get (=) (canonical_endpoint host port) (ctl_connections ctl') = Some x \<and>
    get_connection (mp_forwarder st') x = Some (client_connection None (Some sock) p) \<and>
    st_subs (fw_subscription_table (mp_forwarder st')) (agent_type_from_strings (ce_hash env) org ns ty) i x False"
proof -
  let ?conn = "canonical_connection host port" and ?e = "canonical_endpoint host port"
  let ?s = "route_subscription org ns ty i ?e" and ?old = "fw_subscription_table (mp_forwarder (ctl_message_processor ctl))"
  note e = parse_canonical_endpoint [OF assms(9-11)]
  have add: "route_add uuid (canonical_route org ns ty i) ''via'' ?e = Inr (config_message uuid [?conn] [?s] [])"
    using route_commands(1) [OF parse_canonical_route [OF assms(6-8)] e(1)] .
  have s: "ps_connection_id ?s = endpoint_of ?conn" using e(2) by (simp add: route_subscription_def)
  have t: "subscription_type (ce_hash env) ?s = agent_type_from_strings (ce_hash env) org ns ty" "ps_agent_id ?s = Some i"
    by (simp_all add: subscription_type_def route_subscription_def)
  obtain ctl' l m x r st' where spec: "handle_new_control_message BV env ctl (config_message uuid [?conn] [?s] []) [] =
      Some (Inr (), ctl', [acknowledgement env (config_message uuid [?conn] [?s] [])])"
      "ctl_sent ctl' = ctl_sent ctl @ [(l, m)]" "hm_get (=) ?e (ctl_connections ctl') = Some x"
      "get_connection (mp_forwarder (ctl_message_processor ctl)) x = None"
      "handle_new_message BV menv (ctl_message_processor ctl') l m = Some (r, st')" "mp_inv BV st'"
      "get_connection (mp_forwarder st') x = Some (client_connection None (Some sock) p)"
      "st_subs (fw_subscription_table (mp_forwarder st')) = sub_step (Sub_Add (agent_type_from_strings (ce_hash env) org ns ty) (Some i) x False) (st_subs ?old)"
    using add_route_spec [OF assms(1-5,12) assms(13) [folded e(2)] assms(14-16) s, of uuid "[]"] e(2) t by auto
  have "\<not> st_subs ?old t' j x k" for t' j k
    using fw_inv_placed [OF mp_inv_fw [OF assms(2)]] spec(4) by (metis option.distinct(1))
  then have "st_subs (fw_subscription_table (mp_forwarder st')) (agent_type_from_strings (ce_hash env) org ns ty) i x False"
    using spec(8) by (simp add: uid_or_default_def)
  then show ?thesis
    using add one_command [OF spec(1)] spec(2,3,5-7) show_acknowledgement [of env "config_message uuid [?conn] [?s] []"]
    by (intro exI [of _ "config_message uuid [?conn] [?s] []"] exI [of _ "ctl'\<lparr>ctl_tx_slim := ctl_tx_slim ctl\<rparr>"]
        exI [of _ "acknowledgement env (config_message uuid [?conn] [?s] [])"] exI [of _ l] exI [of _ m] exI [of _ x] exI [of _ r] exI [of _ st'])
      (simp add: config_message_def)
qed

text \<open>
  C38: \<open>slimctl route del\<close> withdraws a route that is set over an endpoint the controller is
  connected to, and leaves all other subscriptions as they are.
\<close>

theorem slimctl_del_removes_route:
  assumes "bit_vec BV" and "mp_inv BV (ctl_message_processor ctl)"
    and "get_connection (mp_forwarder (ctl_message_processor ctl)) c = None"
    and "route_name org" and "route_name ns" and "route_name ty" and "plain_host host" and "0 < port" and "port \<le> 65535"
    and "hm_get (=) (canonical_endpoint host port) (ctl_connections ctl) = Some x"
    and "get_connection (mp_forwarder (ctl_message_processor ctl)) x = Some k"
    and "st_subs (fw_subscription_table (mp_forwarder (ctl_message_processor ctl))) (agent_type_from_strings (ce_hash env) org ns ty) i x (is_local_connection k)"
    and "\<And>x. ce_slim_open env x" and "ce_reply_open env"
  shows "\<exists>msg ctl' reply l m r st'.
    route_del uuid (canonical_route org ns ty i) ''via'' (canonical_endpoint host port) = Inr msg \<and>
    open_control_channel BV env ctl [Control_Msg msg, Control_End] = Some (ctl', [reply]) \<and>
    ctl_sent ctl' = ctl_sent ctl @ [(l, m)] \<and>
    handle_new_message BV menv (ctl_message_processor ctl') l m = Some (r, st') \<and> mp_inv BV st' \<and>
    (\<forall>t' j c l'. st_subs (fw_subscription_table (mp_forwarder st')) t' j c l' \<longleftrightarrow>
       st_subs (fw_subscription_table (mp_forwarder (ctl_message_processor ctl))) t' j c l' \<and>
       \<not> (agent_type_eq (agent_type_from_strings (ce_hash env) org ns ty) t' \<and> j = i \<and> c = x \<and> l' = is_local_connection k))"
proof -
  let ?e = "canonical_endpoint host port"
  let ?s = "route_subscription org ns ty i ?e" and ?old = "fw_subscription_table (mp_forwarder (ctl_message_processor ctl))"
  have del: "route_del uuid (canonical_route org ns ty i) ''via'' ?e = Inr (config_message uuid [] [] [?s])"
    using route_commands(2) [OF parse_canonical_route [OF assms(4-6)] parse_canonical_endpoint(1) [OF assms(7-9)]] .
  have s: "ps_connection_id ?s = ?e" "subscription_type (ce_hash env) ?s = agent_type_from_strings (ce_hash env) org ns ty" "ps_agent_id ?s = Some i"
    by (simp_all add: subscription_type_def route_subscription_def)
  obtain ctl' l m r st' where spec: "handle_new_control_message BV env ctl (config_message uuid [] [] [?s]) [] =
      Some (Inr (), ctl', [acknowledgement env (config_message uuid [] [] [?s])])"
      "ctl_sent ctl' = ctl_sent ctl @ [(l, m)]"
      "handle_new_message BV menv (ctl_message_processor ctl') l m = Some (r, st')" "mp_inv BV st'"
      "st_subs (fw_subscription_table (mp_forwarder st')) =
        sub_step (Sub_Remove (agent_type_from_strings (ce_hash env) org ns ty) (Some i) x (is_local_connection k)) (st_subs ?old)"
    using delete_route_spec [where s = ?s and i = uuid and tx = "[]" and menv = menv, OF assms(1-3,13,14) _ assms(11)] assms(10,12) s
    by (auto simp: uid_or_default_def)
  show ?thesis
    using del one_command [OF spec(1)] spec(2-5)
    by (intro exI [of _ "config_message uuid [] [] [?s]"] exI [of _ "ctl'\<lparr>ctl_tx_slim := ctl_tx_slim ctl\<rparr>"]
        exI [of _ "acknowledgement env (config_message uuid [] [] [?s])"] exI [of _ l] exI [of _ m] exI [of _ r] exI [of _ st'])
      (simp add: uid_or_default_def)
qed

text \<open>
  C40: an endpoint that \<open>slimctl\<close> accepts but that is written with brackets, or with a sign or a
  leading zero before its port, is not the key the controller files the connection under: \<open>route
  add\<close> is then answered with a success, while no route is sent to the data path.
\<close>

theorem slimctl_add_lost:
  assumes "parse_route r = Inr (org, ns, ty, i)" and "parse_endpoint e = Inr (conn, conn_id)"
    and "\<And>p. e = pc_remote_address conn @ '':'' @ p \<Longrightarrow> hd p \<in> {CHR ''+'', CHR ''0''}"
    and "create_connection BV env ctl conn = Some (Inr (), ctl')"
    and "hm_get (=) e (ctl_connections ctl) = None" and "ce_reply_open env"
  shows "\<exists>msg reply. route_add uuid r ''via'' e = Inr msg \<and>
    handle_new_control_message BV env ctl msg tx = Some (Inr (), ctl', tx @ [reply]) \<and>
    show_ack (Some reply) = Inr [''ACK received for '' @ uuid @ '': success=true''] \<and> ctl_sent ctl' = ctl_sent ctl"
proof -
  let ?msg = "config_message uuid [conn] [route_subscription org ns ty i conn_id] []"
  have key: "conn_id = e" "endpoint_of conn \<noteq> e" using endpoint_key [OF assms(2)] assms(3) by blast+
  have ctl': "ctl_sent ctl' = ctl_sent ctl" "ctl_connections ctl' = ctl_connections ctl \<or>
      (\<exists>x. ctl_connections ctl' = hm_insert (=) (endpoint_of conn) x (ctl_connections ctl))"
    using create_connection_frame [OF assms(4)] by blast+
  then have "hm_get (=) e (ctl_connections ctl') = None" using assms(5) key(2) by auto
  then have "handle_new_control_message BV env ctl ?msg tx = Some (Inr (), ctl', tx @ [acknowledgement env ?msg])"
    using assms(4,6) key(1) by (simp add: handle_new_control_message_def config_message_def acknowledgement_def set_subscription_def
        route_subscription_def)
  then show ?thesis
    using route_commands(1) [OF assms(1,2), of uuid] ctl'(1) show_acknowledgement [of env ?msg]
    by (intro exI [of _ ?msg] exI [of _ "acknowledgement env ?msg"]) (simp add: config_message_def)
qed

text \<open>No environment variable sets a configuration key with an underscore, such as \<open>tls.ca_file\<close>.\<close>

theorem env_never_sets_tls_files: "env_key s \<notin> {''tls.ca_file'', ''tls.cert_file'', ''tls.key_file''}"
proof -
  have "CHR ''_'' \<notin> set (env_key s)" by (auto simp: env_key_def replace_all_def)
  then show ?thesis by auto
qed


section \<open>Witnesses\<close>

lemma demo_names:
  "route_name ''o''" "route_name ''n''" "route_name ''t''" "plain_host ''host''"
  by (simp_all add: route_name_def plain_host_def)

theorem slimctl_add_sets_route_witness:
  "\<exists>msg ctl' reply l m x r st'.
    route_add ''id'' (canonical_route ''o'' ''n'' ''t'' 8) ''via'' (canonical_endpoint ''host'' 46357) = Inr msg \<and>
    open_control_channel list_bitvec demo_ctl_env demo_ctl [Control_Msg msg, Control_End] = Some (ctl', [reply]) \<and>
    handle_new_message list_bitvec demo_env (ctl_message_processor ctl') l m = Some (r, st') \<and>
    st_subs (fw_subscription_table (mp_forwarder st')) (agent_type_from_strings (env_hash demo_env) ''o'' ''n'' ''t'') 8 x False"
proof -
  have "reachable_endpoint demo_ctl_env (canonical_connection ''host'' 46357) \<lparr>sa_ip = ''10.0.0.1'', sa_port = 80\<rparr> (20, 21)"
    by (simp add: reachable_endpoint_def demo_ctl_env_def eval_nat_numeral)
  note env = this
  have port: "0 < (46357 :: nat)" "46357 \<le> (65535 :: nat)" and ne: "(5 :: u64) \<noteq> 6" by simp_all
  have new: "hm_get (=) (canonical_endpoint ''host'' 46357) (ctl_connections demo_ctl) = None"
    unfolding demo_ctl_facts(4) by (rule hm_get_Nil)
  show ?thesis
    using slimctl_add_sets_route [OF list_bv.bit_vec_axioms demo_ctl_facts(1) ne demo_ctl_facts(2,3) demo_names port env new
        demo_ctl_facts(6,5) demo_ctl_facts(8) [symmetric], where uuid = "''id''" and i = 8] unfolding demo_ctl_facts(8)
    by (elim exE conjE) (intro exI conjI, assumption+)
qed

definition demo_routed_ctl :: "bool list controller_service" where
  "demo_routed_ctl = demo_ctl\<lparr>ctl_connections := [(canonical_endpoint ''host'' 46357, 1)]\<rparr>"

theorem slimctl_del_removes_route_witness:
  "\<exists>msg ctl' reply l m r st'.
    route_del ''id'' (canonical_route ''o'' ''n'' ''t'' 8) ''via'' (canonical_endpoint ''host'' 46357) = Inr msg \<and>
    open_control_channel list_bitvec demo_ctl_env demo_routed_ctl [Control_Msg msg, Control_End] = Some (ctl', [reply]) \<and>
    handle_new_message list_bitvec demo_env (ctl_message_processor ctl') l m = Some (r, st') \<and>
    \<not> st_subs (fw_subscription_table (mp_forwarder st')) (agent_type_from_strings (env_hash demo_env) ''o'' ''n'' ''t'') 8 1 True"
proof -
  let ?k = "the (get_connection (mp_forwarder (ctl_message_processor demo_ctl)) 1)"
  have k: "get_connection (mp_forwarder (ctl_message_processor demo_ctl)) 1 = Some ?k" "is_local_connection ?k" by code_simp+
  have "map_option (\<lambda>s. side True (ats_vec s 8)) (hm_get agent_type_eq (agent_type_from_strings (env_hash demo_env) ''o'' ''n'' ''t'')
      (st_table (fw_subscription_table (mp_forwarder (ctl_message_processor demo_ctl))))) = Some [1]"
    by code_simp
  then have sub: "st_subs (fw_subscription_table (mp_forwarder (ctl_message_processor demo_ctl)))
      (agent_type_from_strings (env_hash demo_env) ''o'' ''n'' ''t'') 8 1 True"
    by (auto simp: st_subs_def tab_subs_def ats_holds_def)
  have eq: "ctl_message_processor demo_routed_ctl = ctl_message_processor demo_ctl"
      "hm_get (=) (canonical_endpoint ''host'' 46357) (ctl_connections demo_routed_ctl) = Some 1"
    by (simp_all add: demo_routed_ctl_def)
  have inv: "mp_inv list_bitvec (ctl_message_processor demo_routed_ctl)" "get_connection (mp_forwarder (ctl_message_processor demo_routed_ctl)) 5 = None"
      "get_connection (mp_forwarder (ctl_message_processor demo_routed_ctl)) 1 = Some ?k"
      "st_subs (fw_subscription_table (mp_forwarder (ctl_message_processor demo_routed_ctl)))
        (agent_type_from_strings (ce_hash demo_ctl_env) ''o'' ''n'' ''t'') 8 1 (is_local_connection ?k)"
    unfolding eq(1) demo_ctl_facts(8) using demo_ctl_facts(1,2) k sub by simp_all
  have port: "0 < (46357 :: nat)" "46357 \<le> (65535 :: nat)" by simp_all
  have same: "agent_type_eq (agent_type_from_strings (ce_hash demo_ctl_env) ''o'' ''n'' ''t'') (agent_type_from_strings (env_hash demo_env) ''o'' ''n'' ''t'')"
    by (simp add: demo_ctl_facts)
  show ?thesis
    using slimctl_del_removes_route [OF list_bv.bit_vec_axioms inv(1,2) demo_names port eq(2) inv(3,4) demo_ctl_facts(6,5),
        where menv = demo_env and uuid = "''id''"] same k(2) by (elim exE conjE) (intro exI conjI, assumption+, blast)
qed

theorem slimctl_add_lost_witness:
  "\<exists>ctl' msg reply. parse_endpoint ''host:080'' = Inr ((canonical_connection ''host'' 80)\<lparr>pc_connection_id := ''host:080''\<rparr>, ''host:080'') \<and>
    route_add ''id'' ''o/n/t/8'' ''via'' ''host:080'' = Inr msg \<and>
    handle_new_control_message list_bitvec demo_ctl_env demo_ctl msg [] = Some (Inr (), ctl', [reply]) \<and>
    show_ack (Some reply) = Inr [''ACK received for id: success=true''] \<and> ctl_sent ctl' = []"
proof -
  let ?conn = "(canonical_connection ''host'' 80)\<lparr>pc_connection_id := ''host:080''\<rparr>"
  have split: "go_split (CHR ''/'') ''o/n/t/8'' = [''o'', ''n'', ''t'', ''8'']" "split_host_port ''host:080'' = Some (''host'', ''080'')" by code_simp+
  have val: "list_all is_decimal ''8''" "list_all is_decimal ''080''" "decimal_value ''8'' = 8" "decimal_value ''080'' = 80" by code_simp+
  have num: "parse_uint 64 ''8'' = Some 8" "parse_uint 32 ''080'' = Some 80"
    unfolding parse_uint_def val(3,4) using val(1,2) by simp_all
  have int: "parse_int 32 ''080'' = Some 80" using num(2) by (simp add: parse_int_def)
  have r: "parse_route ''o/n/t/8'' = Inr (''o'', ''n'', ''t'', 8)" unfolding parse_route_def split(1) using num(1) by simp
  have e: "parse_endpoint ''host:080'' = Inr (?conn, ''host:080'')"
    unfolding parse_endpoint_def split(2) using int by (simp add: canonical_connection_def)
  have shape: "hd p \<in> {CHR ''+'', CHR ''0''}" if "''host:080'' = pc_remote_address ?conn @ '':'' @ p" for p
    using that by (auto simp: canonical_connection_def)
  have env: "reachable_endpoint demo_ctl_env ?conn \<lparr>sa_ip = ''10.0.0.1'', sa_port = 80\<rparr> (20, 21)"
    by (simp add: reachable_endpoint_def demo_ctl_env_def eval_nat_numeral)
  obtain ctl' where "create_connection list_bitvec demo_ctl_env demo_ctl ?conn = Some (Inr (), ctl')"
    using create_connection_new [OF list_bv.bit_vec_axioms demo_ctl_facts(1,2) env] by (auto simp: demo_ctl_facts hm_get_def)
  then show ?thesis
    using slimctl_add_lost [OF r e shape _ _ demo_ctl_facts(5), of list_bitvec demo_ctl ctl' "''id''" "[]"] e
    by (auto simp: demo_ctl_facts demo_ctl_def controller_service_new_def)
qed


end
