(* ===== verification/Spec2Isabelle.thy ===== *)
theory Spec2Isabelle
  imports Message_Processing Receiver_Buffer Producer_Buffer Request_Response Fire_And_Forget Streaming_Runs Delivery Slimctl
begin

text \<open>
  A verification of SLIM, the messaging layer whose sources are under src/. Paths below are relative
  to \<^verbatim>\<open>data-plane/core\<close> unless they start with another directory.

  \<^bold>\<open>The program.\<close> A data plane connects applications, called agents, on this and on other
  machines. Its message processor receives messages on connections, keeps the tables of connections
  and subscriptions, and forwards publications. A service puts local agents on top of one message
  processor; each agent has a session layer with fire-and-forget, request/response and streaming
  sessions. A controller changes and lists the tables on request of the command line tool slimctl.

  \<^bold>\<open>Conventions.\<close> A panic is \<open>None\<close>, a \<open>Result\<close> is a sum with the error on the left; u8, u32 and
  u64 are words, usize is nat (with wrap-around written out where the code wraps). \<open>HashMap\<close> and
  \<open>HashSet\<close> are association lists over the \<open>Eq\<close> of the key (\<^verbatim>\<open>Hash_Map\<close>). State is passed
  explicitly. Spawned tasks run one event at a time, and theorems about runs quantify over all
  sequences of events; locks are not poisoned; logging has no effect. What comes from outside is an
  argument: random numbers, the hash function, open or closed channels, timers that expire, tokens,
  name resolution, the outcome of connection attempts, and the bit vector of the slab.

  \<^bold>\<open>The data plane\<close> (datapath/src).
  \<^item> \<^verbatim>\<open>Pool\<close> and \<^verbatim>\<open>Connection_Table\<close>: the slab of tables/pool.rs and tables/connection_table.rs. A run of
    operations refines a partial map, and it is shown exactly when a removal leaves the bound on the
    occupied slots under a live slot.
  \<^item> \<^verbatim>\<open>Names\<close> and \<^verbatim>\<open>Messages\<close>: names and their protocol form (messages/encoder.rs), building, reading and
    validating messages (messages/utils.rs). Messages survive construction and reading, and it is
    shown exactly which accessors panic on a message that validation accepts.
  \<^item> \<^verbatim>\<open>Connections\<close>, \<^verbatim>\<open>Agent_Type_State\<close>, \<^verbatim>\<open>Subscription_Table\<close>: the three layers of
    tables/subscription_table.rs. The table refines the relation of subscriptions over all runs of
    operations that remove only what was added, and matching returns exactly, or one of, the
    connections that the relation gives. A stray unsubscription leaves the relation and takes the
    sender out of the matches for any agent (\<open>uncounted\<close>).
  \<^item> \<^verbatim>\<open>Remote_Subscriptions\<close>, \<^verbatim>\<open>Forwarder\<close>, \<^verbatim>\<open>Message_Processing\<close>: the other tables, forwarder.rs,
    connection.rs and message_processing.rs. Every reachable forwarder is consistent: subscriptions
    and remembered subscriptions are on connections of the table (\<open>fw_inv\<close>). Handling a message
    keeps this and does not panic, as long as a valid message has a source with an identifier and a
    valid unsubscription does not take a reference it has no subscription for (\<open>msg_legal\<close>). A
    publication goes once to the connection its header names or to the matched ones (\<open>publish_to\<close>,
    \<open>publish_targets\<close>). After the end of its stream a connection is either restored, with its
    subscriptions sent again, or leaves no trace (\<open>stream_left\<close>).

  \<^bold>\<open>The sessions\<close> (service/src).
  \<^item> \<^verbatim>\<open>Timer\<close>, \<^verbatim>\<open>Receiver_Buffer\<close>, \<^verbatim>\<open>Producer_Buffer\<close>: timer.rs, receiver_buffer.rs and producer_buffer.rs.
    A stream is handed over in order and without duplicates, the producer buffer is the window of the
    last messages, and a timer retries as often as it is told.
  \<^item> \<^verbatim>\<open>Session\<close>, \<^verbatim>\<open>Request_Response\<close>, \<^verbatim>\<open>Fire_And_Forget\<close>, \<^verbatim>\<open>Streaming\<close>, \<^verbatim>\<open>Streaming_Runs\<close>: session.rs and the three
    kinds of session, with their tasks. Requests are settled at most once in every run, with timers
    that fire before their request is stored and with identifiers drawn twice, and exactly once in
    orderly runs (\<open>rq_reachable\<close>). Sticky messages keep their order among other traffic, as long as
    no discovery of another peer comes in; if one does before the answer, the buffered messages are
    never sent (\<open>settled_down_turn\<close>). Streams arrive in order over all interleavings, and gaps stay
    requested.
  \<^item> \<^verbatim>\<open>Session_Layer\<close>: session_layer.rs. A message is taken by the session it names or by a new one, or refused
    (\<open>routed\<close>), and sessions keep their type.
  \<^item> \<^verbatim>\<open>Service\<close> and \<^verbatim>\<open>Delivery\<close>: lib.rs, and the way of a publication from one application to another
    through both session layers and the message processor.

  \<^bold>\<open>The control plane.\<close>
  \<^item> \<^verbatim>\<open>Controller\<close>: controller/src/service.rs. Lists of subscriptions are complete, and commands change
    the tables by the messages they send to the data path.
  \<^item> \<^verbatim>\<open>Slimctl\<close>: parsing, commands and output of control-plane/slimctl. Adding and deleting a route does
    what the command says, for endpoints written the way the controller writes them; for others the
    route is lost although a success is reported.

  \<^bold>\<open>Interfaces.\<close> \<open>rust_eq\<close> is the contract of \<open>Eq\<close> for keys, \<open>bit_vec\<close> that of the third-party bit
  vector, \<open>slot_pool\<close> that of the slab, \<open>subscription_table_contract\<close> that of the subscription table,
  \<open>header_ref\<close> that of a reference into a message, and \<open>session_contract\<close> what the session layer needs
  from its sessions. Each is interpreted on the definitions of the model.

  \<^bold>\<open>Loops.\<close> Loops that may not end are \<open>partial_function (option)\<close>, and that they return is a lemma
  where the code guarantees it: \<open>get_one\<close> returns after one round over the slots. Connecting tries ten
  times and reconnecting 120 times, as the code does. No other fuel is used: all remaining recursion is over data or has
  a measure.

  \<^bold>\<open>Errors of the program\<close> are theorems as well, where the code can be shown to do other than it
  means to: the panic on a source without identifier, the second session of a topic, the stray
  unsubscription, the receiver that dies of an application message, \<open>unsubscribe\<close> that subscribes,
  the endpoint that cannot be connected again, and the lost routes above.

  \<^bold>\<open>Not modelled.\<close> Authentication (auth): signatures, keys and file watching are library calls; its
  caches are not modelled yet. Configuration (config): it builds gRPC channels, servers and TLS
  settings, whose outcome is a field of the configurations of the model; provider lookup and component
  identifiers rest on YAML values and Unicode classes and are not modelled yet. MLS (mls): wrappers of a
  cryptographic library; an interceptor is an argument of the session model. Tracing, signals and the
  start of the slim process: effects outside the model. The token service, the Python bindings, the MCP
  integrations, examples and load generators use the parts above. Of the controller, the search for an
  I/O error in a gRPC status is left out, since it decides only what is logged; of slimctl, loading the
  configuration and opening the stream, which are library calls.
\<close>

end
